(* ===== verification/Prelude.thy ===== *)
theory Prelude
  imports Main "HOL-Library.Monad_Syntax"
begin

text \<open>
  What every component of the model shares: the fact collections of the development, Go's
  64-bit and 16-bit signed integers written out on \<^typ>\<open>int\<close>, indexing of slices with the
  out-of-range panic as \<^term>\<open>None\<close>, and the results of operations that can panic or block.

  Conventions used throughout.
  \<^item> Go \<^verbatim>\<open>int\<close>, \<^verbatim>\<open>int64\<close> are \<^typ>\<open>int\<close>; where the code does arithmetic on values that a caller
    or a configuration file controls, the result is wrapped by \<open>i64\<close>.
  \<^item> A computation that can hit a nil dereference or an index out of range, or that may not
    return, has type \<^typ>\<open>'a option\<close>, \<^term>\<open>None\<close> standing for "does not return normally".
  \<^item> Strings are byte sequences: \<^typ>\<open>string\<close>.
\<close>

section \<open>Fact collections\<close>

named_theorems go_simps
  \<open>evaluation facts for the Go primitives of the model (wrap-around, indexing, comparison)\<close>

named_theorems rep_intros
  \<open>facts that an operation keeps the representation invariant of its component\<close>

section \<open>Signed machine integers on int\<close>

definition i64 :: "int \<Rightarrow> int" where
  "i64 x = signed_take_bit 63 x"

definition i16 :: "int \<Rightarrow> int" where
  "i16 x = signed_take_bit 15 x"

definition i32 :: "int \<Rightarrow> int" where
  "i32 x = signed_take_bit 31 x"

definition is_i64 :: "int \<Rightarrow> bool" where
  "is_i64 x \<longleftrightarrow> - (2 ^ 63) \<le> x \<and> x < 2 ^ 63"

lemma i64_id [go_simps]: "is_i64 x \<Longrightarrow> i64 x = x"
  by (simp add: i64_def is_i64_def signed_take_bit_int_eq_self)

lemma i16_id [go_simps]: "- (2 ^ 15) \<le> x \<Longrightarrow> x < 2 ^ 15 \<Longrightarrow> i16 x = x"
  by (simp add: i16_def signed_take_bit_int_eq_self)

lemma i32_id [go_simps]: "- (2 ^ 31) \<le> x \<Longrightarrow> x < 2 ^ 31 \<Longrightarrow> i32 x = x"
  by (simp add: i32_def signed_take_bit_int_eq_self)

lemma is_i64_i64: "is_i64 (i64 x)"
  using signed_take_bit_int_greater_eq_minus_exp [of 63 x] signed_take_bit_int_less_exp [of 63 x]
  by (simp add: is_i64_def i64_def)

section \<open>Slices\<close>

text \<open>\<open>idx xs i\<close> is the Go expression \<^verbatim>\<open>xs[i]\<close>: \<^term>\<open>None\<close> where the code panics.\<close>

definition idx :: "'a list \<Rightarrow> nat \<Rightarrow> 'a option" where
  "idx xs i = (if i < length xs then Some (xs ! i) else None)"

lemma idx_Some [go_simps]: "i < length xs \<Longrightarrow> idx xs i = Some (xs ! i)"
  by (simp add: idx_def)

lemma idx_None [go_simps]: "length xs \<le> i \<Longrightarrow> idx xs i = None"
  by (simp add: idx_def)

lemma idx_append_last [simp]: "length xs = n \<Longrightarrow> idx (xs @ [x]) n = Some x"
  by (auto simp: idx_def)

lemma idx_append_left [simp]: "i < length xs \<Longrightarrow> idx (xs @ ys) i = Some (xs ! i)"
  by (simp add: idx_def nth_append)

lemma filter_neq_id: "x \<notin> set xs \<Longrightarrow> filter (\<lambda>y. y \<noteq> x) xs = xs"
  by (induction xs) auto

section \<open>Loops over a slice with a callback that may stop them\<close>

text \<open>
  The callbacks of the code take an element and say whether to go on; what they write to the
  variables they capture is the state \<open>'s\<close>. \<open>visit c s xs\<close> is the effect of calling \<open>c\<close>
  on the elements of \<open>xs\<close> in order until it says no.
\<close>

fun visit :: "('e \<Rightarrow> 's \<Rightarrow> bool \<times> 's) \<Rightarrow> 's \<Rightarrow> 'e list \<Rightarrow> 's" where
  "visit c s [] = s"
| "visit c s (e # es) = (case c e s of (go, s') \<Rightarrow> if go then visit c s' es else s')"

lemma visit_collect: "visit (\<lambda>e s. (True, s @ [e])) s es = s @ es"
  by (induction es arbitrary: s) auto

end
