(* ===== verification/Float64.thy ===== *)
theory Float64
  imports Complex_Main Prelude
begin

text \<open>
  Go's \<^verbatim>\<open>float64\<close> as the code uses it: scores are compared and converted from \<^verbatim>\<open>int64\<close>, never
  added. A value is NaN, an infinity or a finite number; a finite \<^verbatim>\<open>float64\<close> is a rational (the
  two zeros are one value here: no comparison tells them apart). The order is Go's: every
  comparison with NaN is false, so \<open>\<not> x < y\<close> is not \<open>y \<le> x\<close>.
\<close>

datatype f64 = NaN | NegInf | Fin rat | PosInf

fun f64_less :: "f64 \<Rightarrow> f64 \<Rightarrow> bool" where
  "f64_less NaN y = False"
| "f64_less x NaN = False"
| "f64_less NegInf y = (y \<noteq> NegInf)"
| "f64_less PosInf y = False"
| "f64_less (Fin a) (Fin b) = (a < b)"
| "f64_less (Fin a) PosInf = True"
| "f64_less (Fin a) NegInf = False"

text \<open>Go's \<^verbatim>\<open>==\<close> on \<^verbatim>\<open>float64\<close>.\<close>

definition f64_eq :: "f64 \<Rightarrow> f64 \<Rightarrow> bool" where
  "f64_eq x y \<longleftrightarrow> x = y \<and> x \<noteq> NaN"

instantiation f64 :: ord
begin

definition less_f64 :: "f64 \<Rightarrow> f64 \<Rightarrow> bool" where
  "less_f64 x y = f64_less x y"

definition less_eq_f64 :: "f64 \<Rightarrow> f64 \<Rightarrow> bool" where
  "less_eq_f64 x y = (f64_less x y \<or> f64_eq x y)"

instance ..

end

lemma f64_less_simps [simp]:
  "\<not> (NaN < x)" "\<not> (x < NaN)" "\<not> (PosInf < x)" "\<not> (x < NegInf)"
  "NegInf < Fin a" "Fin a < PosInf" "NegInf < PosInf" "(Fin a < Fin b) = (a < b)"
  by (cases x; simp add: less_f64_def)+

lemma f64_le_iff: "x \<le> y \<longleftrightarrow> x < y \<or> (x = y \<and> x \<noteq> (NaN :: f64))"
  by (simp add: less_eq_f64_def less_f64_def f64_eq_def)

lemma f64_le_simps [simp]:
  "\<not> (NaN \<le> x)" "\<not> (x \<le> NaN)" "(Fin a \<le> Fin b) = (a \<le> b)"
  "NegInf \<le> Fin a" "Fin a \<le> PosInf" "NegInf \<le> PosInf" "NegInf \<le> NegInf" "PosInf \<le> PosInf"
  "\<not> (PosInf \<le> Fin a)" "\<not> (Fin a \<le> NegInf)" "\<not> (PosInf \<le> NegInf)"
  by (auto simp: f64_le_iff)

lemma f64_less_irrefl [simp]: "\<not> (x < (x :: f64))"
  by (cases x) auto

lemma f64_less_trans: "x < y \<Longrightarrow> y < z \<Longrightarrow> x < (z :: f64)"
  by (cases x; cases y; cases z) auto

lemma f64_total: "x \<noteq> NaN \<Longrightarrow> y \<noteq> NaN \<Longrightarrow> x < y \<or> x = y \<or> y < (x :: f64)"
  by (cases x; cases y) auto

lemma f64_not_less: "x \<noteq> NaN \<Longrightarrow> y \<noteq> NaN \<Longrightarrow> \<not> x < y \<longleftrightarrow> y \<le> (x :: f64)"
  by (cases x; cases y) auto

lemma f64_le_trans: "x \<le> y \<Longrightarrow> y \<le> z \<Longrightarrow> x \<le> (z :: f64)"
  by (cases x; cases y; cases z) auto

lemma f64_le_less_trans: "x \<le> y \<Longrightarrow> y < z \<Longrightarrow> x < (z :: f64)"
  by (cases x; cases y; cases z) auto

lemma f64_less_le_trans: "x < y \<Longrightarrow> y \<le> z \<Longrightarrow> x < (z :: f64)"
  by (cases x; cases y; cases z) auto

lemma f64_less_not_NaN: "x < y \<Longrightarrow> x \<noteq> NaN \<and> y \<noteq> (NaN :: f64)"
  by auto

section \<open>Conversion from int64\<close>

text \<open>
  \<^verbatim>\<open>float64(n)\<close> keeps 53 significant bits and rounds half to even. \<open>exp53 m\<close> is the number of
  low bits that do not fit.
\<close>

fun exp53 :: "nat \<Rightarrow> nat" where
  "exp53 m = (if m < 2 ^ 53 then 0 else Suc (exp53 (m div 2)))"

declare exp53.simps [simp del]

definition round53 :: "nat \<Rightarrow> nat" where
  "round53 m =
     (let e = exp53 m; q = m div 2 ^ e; r = m mod 2 ^ e
      in if e = 0 then m
         else if 2 ^ (e - 1) < r \<or> (r = 2 ^ (e - 1) \<and> odd q) then (q + 1) * 2 ^ e else q * 2 ^ e)"

definition f64_of_int :: "int \<Rightarrow> f64" where
  "f64_of_int n = Fin (of_int (sgn n * int (round53 (nat \<bar>n\<bar>))))"

lemma round53_exact: "m < 2 ^ 53 \<Longrightarrow> round53 m = m"
  by (simp add: round53_def exp53.simps [of m])

lemma f64_of_int_exact [go_simps]: "\<bar>n\<bar> < 2 ^ 53 \<Longrightarrow> f64_of_int n = Fin (of_int n)"
  by (simp add: f64_of_int_def round53_exact mult_sgn_abs)

lemma f64_of_int_not_NaN [simp]: "f64_of_int n \<noteq> NaN" "NaN \<noteq> f64_of_int n"
  by (simp_all add: f64_of_int_def)

lemma f64_eq_iff [simp]: "x \<noteq> NaN \<Longrightarrow> f64_eq x y \<longleftrightarrow> x = y"
  by (simp add: f64_eq_def)

end
