(* ===== verification/SkipList.thy ===== *)
theory SkipList
  imports Float64 "HOL-Library.List_Lexorder" "HOL-Library.Char_ord"
begin

text \<open>
  \<^verbatim>\<open>src/util/zset.go\<close>, lines 20-442: the score borders and the skip list with spans, as the code has
  it. The nodes live in a heap (a map from addresses to nodes) because the algorithms relink
  them through pointers they share: the \<^verbatim>\<open>update\<close> array, the forward pointers of every level, the
  backward pointers and the tail all alias the same nodes. A nil dereference, an index out of
  range and an endless loop are \<^term>\<open>None\<close>. The garbage collector is not modelled: a node that
  is unlinked stays in the heap, unreachable.
\<close>

section \<open>Score borders\<close>

definition negativeInf :: int where "negativeInf = -1"
definition positiveInf :: int where "positiveInf = 1"

record ScoreBorder =
  bInf :: int
  bValue :: f64
  bExclude :: bool

definition greater :: "ScoreBorder \<Rightarrow> f64 \<Rightarrow> bool" where
  "greater border v =
     (if bInf border = negativeInf then False
      else if bInf border = positiveInf then True
      else if bExclude border then v < bValue border
      else v \<le> bValue border)"

definition less :: "ScoreBorder \<Rightarrow> f64 \<Rightarrow> bool" where
  "less border v =
     (if bInf border = negativeInf then True
      else if bInf border = positiveInf then False
      else if bExclude border then bValue border < v
      else bValue border \<le> v)"

definition positiveInfBorder :: ScoreBorder where
  "positiveInfBorder = \<lparr>bInf = positiveInf, bValue = Fin 0, bExclude = False\<rparr>"

definition negativeInfBorder :: ScoreBorder where
  "negativeInfBorder = \<lparr>bInf = negativeInf, bValue = Fin 0, bExclude = False\<rparr>"

text \<open>
  \<open>ParseScoreBorder\<close>, with \<^verbatim>\<open>strconv.ParseFloat\<close> as an argument (\<^term>\<open>None\<close> for its error). \<^verbatim>\<open>s[0]\<close> of the
  empty string panics: the result is \<^term>\<open>None\<close>.
\<close>

definition ParseScoreBorder :: "(string \<Rightarrow> f64 option) \<Rightarrow> string \<Rightarrow> (string + ScoreBorder) option" where
  "ParseScoreBorder ParseFloat s =
     (let parsed = (\<lambda>t exclude.
        case ParseFloat t of
          None \<Rightarrow> Inl ''ERR min or max is not a float''
        | Some value \<Rightarrow> Inr \<lparr>bInf = 0, bValue = value, bExclude = exclude\<rparr>)
      in if s = ''inf'' \<or> s = ''+inf'' then Some (Inr positiveInfBorder)
         else if s = ''-inf'' then Some (Inr negativeInfBorder)
         else do { c \<leftarrow> idx s 0;
                   Some (if c = CHR ''('' then parsed (drop 1 s) True else parsed s False) })"

section \<open>Nodes, heap, list\<close>

definition maxLevel :: nat where "maxLevel = 16"

type_synonym addr = nat

record Element =
  Member :: string
  Score :: f64

record Level =
  forward :: "addr option"
  lspan :: int

record node = Element +
  backward :: "addr option"
  levels :: "Level list"

type_synonym heap = "addr \<rightharpoonup> node"

text \<open>\<open>brk\<close> is the next address the allocator hands out.\<close>

record skiplist =
  mem :: heap
  brk :: addr
  header :: addr
  tail :: "addr option"
  sllength :: int
  sllevel :: nat

definition element_of :: "node \<Rightarrow> Element" where
  "element_of n = \<lparr>Member = Member n, Score = Score n\<rparr>"

definition makeNode :: "nat \<Rightarrow> f64 \<Rightarrow> string \<Rightarrow> node" where
  "makeNode lv sc m =
     \<lparr>Member = m, Score = sc, backward = None, levels = replicate lv \<lparr>forward = None, lspan = 0\<rparr>\<rparr>"

definition makeSkiplist :: skiplist where
  "makeSkiplist =
     \<lparr>mem = [0 \<mapsto> makeNode maxLevel (Fin 0) ''''], brk = 1, header = 0, tail = None,
      sllength = 0, sllevel = 1\<rparr>"

text \<open>
  \<open>randomLevel\<close> takes the values \<^verbatim>\<open>rand.Int31()\<close> returns, in order; \<^term>\<open>None\<close> if the loop is
  still running when they are used up. \<^verbatim>\<open>level\<close> is an \<^verbatim>\<open>int16\<close>. The comparison
  \<^verbatim>\<open>float32(x) < 0.25 * 0xFFFF\<close> is exact for the 16-bit \<^verbatim>\<open>x\<close>.
\<close>

definition low_draw :: "nat \<Rightarrow> bool" where
  "low_draw r \<longleftrightarrow> 4 * (r mod 65536) < 65535"

fun randomLevel_loop :: "int \<Rightarrow> nat list \<Rightarrow> int option" where
  "randomLevel_loop lv [] = None"
| "randomLevel_loop lv (r # rs) =
     (if low_draw r then randomLevel_loop (i16 (lv + 1)) rs else Some lv)"

definition randomLevel :: "nat list \<Rightarrow> nat option" where
  "randomLevel rs =
     (case randomLevel_loop 1 rs of None \<Rightarrow> None
      | Some lv \<Rightarrow> if lv < int maxLevel then (if lv < 0 then None else Some (nat lv))
                  else Some maxLevel)"

section \<open>Pointer accesses\<close>

text \<open>\<open>level_at h x i\<close> is \<^verbatim>\<open>*x.level[i]\<close>.\<close>

definition level_at :: "heap \<Rightarrow> addr \<Rightarrow> nat \<Rightarrow> Level option" where
  "level_at h x i = (case h x of None \<Rightarrow> None | Some n \<Rightarrow> idx (levels n) i)"

definition set_level :: "heap \<Rightarrow> addr \<Rightarrow> nat \<Rightarrow> Level \<Rightarrow> heap option" where
  "set_level h x i lv =
     (case h x of None \<Rightarrow> None
      | Some n \<Rightarrow> if i < length (levels n) then Some (h(x \<mapsto> n\<lparr>levels := (levels n)[i := lv]\<rparr>))
                  else None)"

definition set_backward :: "heap \<Rightarrow> addr \<Rightarrow> addr option \<Rightarrow> heap option" where
  "set_backward h x p = (case h x of None \<Rightarrow> None | Some n \<Rightarrow> Some (h(x \<mapsto> n\<lparr>backward := p\<rparr>)))"

text \<open>
  The traversal all operations share: at level \<open>i\<close> follow \<^verbatim>\<open>forward\<close> while it is not nil and the
  loop's condition holds of the node it points to and of the rank reached there, adding up the
  spans that are crossed.
\<close>

partial_function (option) walk ::
  "heap \<Rightarrow> (node \<Rightarrow> int \<Rightarrow> bool) \<Rightarrow> nat \<Rightarrow> addr \<Rightarrow> int \<Rightarrow> (addr \<times> int) option" where
  "walk h c i x r =
     (case level_at h x i of None \<Rightarrow> None
      | Some lv \<Rightarrow>
        (case forward lv of None \<Rightarrow> Some (x, r)
         | Some y \<Rightarrow>
           (case h y of None \<Rightarrow> None
            | Some n \<Rightarrow> if c n (r + lspan lv) then walk h c i y (r + lspan lv) else Some (x, r))))"

declare walk.simps [code]

text \<open>
  The descent from level \<open>k - 1\<close> to level 0 that fills the arrays \<^verbatim>\<open>update\<close> and \<^verbatim>\<open>rank\<close>: entry \<open>i\<close> of
  the two lists is \<^verbatim>\<open>update[i]\<close> and \<^verbatim>\<open>rank[i]\<close>.
\<close>

fun scan :: "heap \<Rightarrow> (node \<Rightarrow> int \<Rightarrow> bool) \<Rightarrow> nat \<Rightarrow> addr \<Rightarrow> int \<Rightarrow> (addr list \<times> int list) option" where
  "scan h c 0 x r = Some ([], [])"
| "scan h c (Suc i) x r =
     do { (y, q) \<leftarrow> walk h c i x r;
          (us, rs) \<leftarrow> scan h c i y q;
          Some (us @ [y], rs @ [q]) }"

definition key_before :: "f64 \<Rightarrow> string \<Rightarrow> f64 \<Rightarrow> string \<Rightarrow> bool" where
  "key_before s1 m1 s2 m2 \<longleftrightarrow> s1 < s2 \<or> (f64_eq s1 s2 \<and> m1 < m2)"

definition key_upto :: "f64 \<Rightarrow> string \<Rightarrow> f64 \<Rightarrow> string \<Rightarrow> bool" where
  "key_upto s1 m1 s2 m2 \<longleftrightarrow> s1 < s2 \<or> (f64_eq s1 s2 \<and> m1 \<le> m2)"

section \<open>insert\<close>

text \<open>
  \<open>open_levels h hdr len i k\<close>: the loop that raises the list's level, for the levels
  \<open>i, \<dots>, i + k - 1\<close>; the arrays get the header and rank 0 there.
\<close>

fun open_levels :: "heap \<Rightarrow> addr \<Rightarrow> int \<Rightarrow> nat \<Rightarrow> nat \<Rightarrow> heap option" where
  "open_levels h hdr len i 0 = Some h"
| "open_levels h hdr len i (Suc k) =
     do { lv \<leftarrow> level_at h hdr i;
          h1 \<leftarrow> set_level h hdr i (lv\<lparr>lspan := len\<rparr>);
          open_levels h1 hdr len (Suc i) k }"

text \<open>Linking the new node \<open>a\<close> on levels \<open>i, \<dots>, i + k - 1\<close>.\<close>

fun link_levels :: "heap \<Rightarrow> addr \<Rightarrow> addr list \<Rightarrow> int list \<Rightarrow> nat \<Rightarrow> nat \<Rightarrow> heap option" where
  "link_levels h a update rank i 0 = Some h"
| "link_levels h a update rank i (Suc k) =
     do { u \<leftarrow> idx update i;
          r0 \<leftarrow> idx rank 0;
          ri \<leftarrow> idx rank i;
          lv \<leftarrow> level_at h u i;
          h1 \<leftarrow> set_level h a i \<lparr>forward = forward lv, lspan = lspan lv - (r0 - ri)\<rparr>;
          h2 \<leftarrow> set_level h1 u i \<lparr>forward = Some a, lspan = (r0 - ri) + 1\<rparr>;
          link_levels h2 a update rank (Suc i) k }"

text \<open>Incrementing the spans of the levels above the new node.\<close>

fun bump_levels :: "heap \<Rightarrow> addr list \<Rightarrow> nat \<Rightarrow> nat \<Rightarrow> heap option" where
  "bump_levels h update i 0 = Some h"
| "bump_levels h update i (Suc k) =
     do { u \<leftarrow> idx update i;
          lv \<leftarrow> level_at h u i;
          h1 \<leftarrow> set_level h u i (lv\<lparr>lspan := lspan lv + 1\<rparr>);
          bump_levels h1 update (Suc i) k }"

definition insert :: "skiplist \<Rightarrow> string \<Rightarrow> f64 \<Rightarrow> nat list \<Rightarrow> (skiplist \<times> addr) option" where
  "insert sl m sc rnd =
     do { (update0, rank0) \<leftarrow>
            scan (mem sl) (\<lambda>n r. key_before (Score n) (Member n) sc m) (sllevel sl) (header sl) 0;
          lv \<leftarrow> randomLevel rnd;
          let ext = lv - sllevel sl;
          h1 \<leftarrow> open_levels (mem sl) (header sl) (sllength sl) (sllevel sl) ext;
          let update = update0 @ replicate ext (header sl);
          let rank = rank0 @ replicate ext 0;
          let lv' = max lv (sllevel sl);
          let a = brk sl;
          h2 \<leftarrow> link_levels (h1(a \<mapsto> makeNode lv sc m)) a update rank 0 lv;
          h3 \<leftarrow> bump_levels h2 update lv (lv' - lv);
          u0 \<leftarrow> idx update 0;
          h4 \<leftarrow> set_backward h3 a (if u0 = header sl then None else Some u0);
          f0 \<leftarrow> level_at h4 a 0;
          (h5, tl) \<leftarrow> (case forward f0 of
                        None \<Rightarrow> Some (h4, Some a)
                      | Some y \<Rightarrow> do { h5 \<leftarrow> set_backward h4 y (Some a); Some (h5, tail sl) });
          Some (sl\<lparr>mem := h5, brk := a + 1, tail := tl, sllength := sllength sl + 1, sllevel := lv'\<rparr>, a) }"

section \<open>removeNode and remove\<close>

fun unlink_levels :: "heap \<Rightarrow> addr \<Rightarrow> addr list \<Rightarrow> nat \<Rightarrow> nat \<Rightarrow> heap option" where
  "unlink_levels h a update i 0 = Some h"
| "unlink_levels h a update i (Suc k) =
     do { u \<leftarrow> idx update i;
          lv \<leftarrow> level_at h u i;
          h1 \<leftarrow> (if forward lv = Some a
                 then do { nl \<leftarrow> level_at h a i;
                           set_level h u i \<lparr>forward = forward nl, lspan = lspan lv + (lspan nl - 1)\<rparr> }
                 else set_level h u i (lv\<lparr>lspan := lspan lv - 1\<rparr>));
          unlink_levels h1 a update (Suc i) k }"

text \<open>The final loop of \<^verbatim>\<open>removeNode\<close>: drop the levels whose header pointer is nil.\<close>

fun shrink_level :: "heap \<Rightarrow> addr \<Rightarrow> nat \<Rightarrow> nat option" where
  "shrink_level h hdr 0 = Some 0"
| "shrink_level h hdr (Suc l) =
     (if l \<ge> 1
      then do { lv \<leftarrow> level_at h hdr l;
                if forward lv = None then shrink_level h hdr l else Some (Suc l) }
      else Some (Suc l))"

definition removeNode :: "skiplist \<Rightarrow> addr \<Rightarrow> addr list \<Rightarrow> skiplist option" where
  "removeNode sl a update =
     do { h1 \<leftarrow> unlink_levels (mem sl) a update 0 (sllevel sl);
          n \<leftarrow> h1 a;
          f0 \<leftarrow> idx (levels n) 0;
          (h2, tl) \<leftarrow> (case forward f0 of
                        None \<Rightarrow> Some (h1, backward n)
                      | Some y \<Rightarrow> do { h2 \<leftarrow> set_backward h1 y (backward n); Some (h2, tail sl) });
          lv \<leftarrow> shrink_level h2 (header sl) (sllevel sl);
          Some (sl\<lparr>mem := h2, tail := tl, sllength := sllength sl - 1, sllevel := lv\<rparr>) }"

definition remove :: "skiplist \<Rightarrow> string \<Rightarrow> f64 \<Rightarrow> (skiplist \<times> bool) option" where
  "remove sl m sc =
     do { (update, _) \<leftarrow>
            scan (mem sl) (\<lambda>n r. key_before (Score n) (Member n) sc m) (sllevel sl) (header sl) 0;
          u0 \<leftarrow> idx update 0;
          f0 \<leftarrow> level_at (mem sl) u0 0;
          (case forward f0 of
             None \<Rightarrow> Some (sl, False)
           | Some a \<Rightarrow>
             do { n \<leftarrow> mem sl a;
                  if f64_eq sc (Score n) \<and> Member n = m
                  then do { sl' \<leftarrow> removeNode sl a update; Some (sl', True) }
                  else Some (sl, False) }) }"

section \<open>Rank queries\<close>

fun getRank_loop :: "heap \<Rightarrow> string \<Rightarrow> f64 \<Rightarrow> nat \<Rightarrow> addr \<Rightarrow> int \<Rightarrow> int option" where
  "getRank_loop h m sc 0 x r = Some 0"
| "getRank_loop h m sc (Suc i) x r =
     do { (y, q) \<leftarrow> walk h (\<lambda>n r. key_upto (Score n) (Member n) sc m) i x r;
          n \<leftarrow> h y;
          if Member n = m then Some q else getRank_loop h m sc i y q }"

definition getRank :: "skiplist \<Rightarrow> string \<Rightarrow> f64 \<Rightarrow> int option" where
  "getRank sl m sc = getRank_loop (mem sl) m sc (sllevel sl) (header sl) 0"

text \<open>The result of \<open>getByRank\<close> is a pointer, nil when no node has the rank.\<close>

fun getByRank_loop :: "heap \<Rightarrow> int \<Rightarrow> nat \<Rightarrow> addr \<Rightarrow> int \<Rightarrow> addr option option" where
  "getByRank_loop h rank 0 x r = Some None"
| "getByRank_loop h rank (Suc i) x r =
     do { (y, q) \<leftarrow> walk h (\<lambda>n r. r \<le> rank) i x r;
          if q = rank then Some (Some y) else getByRank_loop h rank i y q }"

definition getByRank :: "skiplist \<Rightarrow> int \<Rightarrow> addr option option" where
  "getByRank sl rank = getByRank_loop (mem sl) rank (sllevel sl) (header sl) 0"

section \<open>Range queries by score\<close>

definition hasInRange :: "skiplist \<Rightarrow> ScoreBorder \<Rightarrow> ScoreBorder \<Rightarrow> bool option" where
  "hasInRange sl mn mx =
     (if (bValue mx < bValue mn \<and> bInf mx \<noteq> positiveInf) \<or>
         (f64_eq (bValue mn) (bValue mx) \<and> (bExclude mn \<or> bExclude mx))
      then Some False
      else case tail sl of
             None \<Rightarrow> Some False
           | Some t \<Rightarrow>
             do { tn \<leftarrow> mem sl t;
                  if \<not> less mn (Score tn) then Some False
                  else do { f0 \<leftarrow> level_at (mem sl) (header sl) 0;
                            case forward f0 of
                              None \<Rightarrow> Some False
                            | Some y \<Rightarrow> do { n \<leftarrow> mem sl y; Some (greater mx (Score n)) } } })"

definition getFirstInScoreRange ::
  "skiplist \<Rightarrow> ScoreBorder \<Rightarrow> ScoreBorder \<Rightarrow> addr option option" where
  "getFirstInScoreRange sl mn mx =
     do { ok \<leftarrow> hasInRange sl mn mx;
          if \<not> ok then Some None
          else do { (us, _) \<leftarrow> scan (mem sl) (\<lambda>n r. \<not> less mn (Score n)) (sllevel sl) (header sl) 0;
                    x \<leftarrow> idx us 0;
                    f0 \<leftarrow> level_at (mem sl) x 0;
                    y \<leftarrow> forward f0;
                    n \<leftarrow> mem sl y;
                    if \<not> greater mx (Score n) then Some None else Some (Some y) } }"

definition getLastInScoreRange ::
  "skiplist \<Rightarrow> ScoreBorder \<Rightarrow> ScoreBorder \<Rightarrow> addr option option" where
  "getLastInScoreRange sl mn mx =
     do { ok \<leftarrow> hasInRange sl mn mx;
          if \<not> ok then Some None
          else do { (us, _) \<leftarrow> scan (mem sl) (\<lambda>n r. greater mx (Score n)) (sllevel sl) (header sl) 0;
                    x \<leftarrow> idx us 0;
                    n \<leftarrow> mem sl x;
                    if \<not> less mn (Score n) then Some None else Some (Some x) } }"

section \<open>Range removals\<close>

text \<open>
  The two loops that unlink a run of nodes share the array \<^verbatim>\<open>update\<close>, computed once. They end
  because every round removes a node: the recursion follows \<^verbatim>\<open>next\<close>.
\<close>

partial_function (option) removeByScore_loop ::
  "ScoreBorder \<Rightarrow> int \<Rightarrow> addr list \<Rightarrow> skiplist \<Rightarrow> addr option \<Rightarrow> Element list \<Rightarrow>
   (skiplist \<times> Element list) option" where
  "removeByScore_loop mx limit update sl p removed =
     (case p of None \<Rightarrow> Some (sl, removed)
      | Some a \<Rightarrow>
        (case mem sl a of None \<Rightarrow> None
         | Some n \<Rightarrow>
           if \<not> greater mx (Score n) then Some (sl, removed)
           else (case idx (levels n) 0 of None \<Rightarrow> None
                 | Some f0 \<Rightarrow>
                   (case removeNode sl a update of None \<Rightarrow> None
                    | Some sl' \<Rightarrow>
                      if 0 < limit \<and> int (length (removed @ [element_of n])) = limit
                      then Some (sl', removed @ [element_of n])
                      else removeByScore_loop mx limit update sl' (forward f0)
                             (removed @ [element_of n])))))"

declare removeByScore_loop.simps [code]

definition RemoveRangeByScore ::
  "skiplist \<Rightarrow> ScoreBorder \<Rightarrow> ScoreBorder \<Rightarrow> int \<Rightarrow> (skiplist \<times> Element list) option" where
  "RemoveRangeByScore sl mn mx limit =
     do { (update, _) \<leftarrow> scan (mem sl) (\<lambda>n r. \<not> less mn (Score n)) (sllevel sl) (header sl) 0;
          x \<leftarrow> idx update 0;
          f0 \<leftarrow> level_at (mem sl) x 0;
          removeByScore_loop mx limit update sl (forward f0) [] }"

partial_function (option) removeByRank_loop ::
  "int \<Rightarrow> addr list \<Rightarrow> int \<Rightarrow> skiplist \<Rightarrow> addr option \<Rightarrow> Element list \<Rightarrow>
   (skiplist \<times> Element list) option" where
  "removeByRank_loop stop update i sl p removed =
     (case p of None \<Rightarrow> Some (sl, removed)
      | Some a \<Rightarrow>
        if \<not> i < stop then Some (sl, removed)
        else (case mem sl a of None \<Rightarrow> None
              | Some n \<Rightarrow>
                (case idx (levels n) 0 of None \<Rightarrow> None
                 | Some f0 \<Rightarrow>
                   (case removeNode sl a update of None \<Rightarrow> None
                    | Some sl' \<Rightarrow>
                      removeByRank_loop stop update (i + 1) sl' (forward f0)
                        (removed @ [element_of n])))))"

declare removeByRank_loop.simps [code]

definition RemoveRangeByRank :: "skiplist \<Rightarrow> int \<Rightarrow> int \<Rightarrow> (skiplist \<times> Element list) option" where
  "RemoveRangeByRank sl start stop =
     do { (update, ranks) \<leftarrow> scan (mem sl) (\<lambda>n r. r < start) (sllevel sl) (header sl) 0;
          x \<leftarrow> idx update 0;
          i \<leftarrow> idx ranks 0;
          f0 \<leftarrow> level_at (mem sl) x 0;
          removeByRank_loop stop update (i + 1) sl (forward f0) [] }"

end
