(* ===== verification/SkipListInv.thy ===== *)
theory SkipListInv
  imports SkipList
begin

text \<open>
  The representation invariant of the skip list and what the shared loops do under it. The list a
  heap represents is the sequence \<open>as\<close> of addresses on level 0; \<open>sl_ok sl as\<close> says that on every
  level the forward pointers and the spans are exactly those that \<open>as\<close> and the heights of its
  nodes determine (\<open>nxt\<close>), that the backward pointers and the tail agree, and that the elements
  are strictly increasing. \<open>sl_rep sl es\<close> forgets the addresses.
\<close>

section \<open>Observing the heap\<close>

definition ht :: "heap \<Rightarrow> addr \<Rightarrow> nat" where
  "ht h x = (case h x of None \<Rightarrow> 0 | Some n \<Rightarrow> length (levels n))"

definition el :: "heap \<Rightarrow> addr \<Rightarrow> Element" where
  "el h x = element_of (the (h x))"

definition backp :: "heap \<Rightarrow> addr \<Rightarrow> addr option" where
  "backp h x = backward (the (h x))"

lemma level_at_None_iff: "level_at h x i = None \<longleftrightarrow> ht h x \<le> i"
  by (auto simp: level_at_def ht_def idx_def split: option.splits)

lemma level_at_Some_ht: "level_at h x i = Some lv \<Longrightarrow> i < ht h x"
  by (auto simp: level_at_def ht_def idx_def split: option.splits if_splits)

lemma ht_pos_dom: "i < ht h x \<Longrightarrow> x \<in> dom h"
  by (auto simp: ht_def split: option.splits)

lemma level_at_ex: "i < ht h x \<Longrightarrow> \<exists>lv. level_at h x i = Some lv"
  using level_at_None_iff [of h x i] by (cases "level_at h x i") auto

text \<open>Two heaps of the same shape differ in the contents of the levels only.\<close>

definition same_shape :: "heap \<Rightarrow> heap \<Rightarrow> bool" where
  "same_shape h h' \<longleftrightarrow> ht h' = ht h \<and> el h' = el h \<and> backp h' = backp h \<and> dom h' = dom h"

lemma same_shape_refl [simp]: "same_shape h h"
  by (simp add: same_shape_def)

lemma same_shape_trans [trans]: "same_shape h h' \<Longrightarrow> same_shape h' h'' \<Longrightarrow> same_shape h h''"
  by (simp add: same_shape_def)

lemma set_level_spec:
  assumes "i < ht h x"
  shows "\<exists>h'. set_level h x i lv = Some h' \<and> same_shape h h' \<and>
    level_at h' = (\<lambda>y j. if y = x \<and> j = i then Some lv else level_at h y j)"
proof -
  obtain n where n: "h x = Some n" and i: "i < length (levels n)"
    using assms by (auto simp: ht_def split: option.splits)
  let ?h' = "h(x \<mapsto> n\<lparr>levels := (levels n)[i := lv]\<rparr>)"
  have "set_level h x i lv = Some ?h'"
    using n i by (simp add: set_level_def)
  moreover have "same_shape h ?h'"
    using n by (auto simp: same_shape_def ht_def el_def backp_def element_of_def fun_eq_iff)
  moreover have "level_at ?h' = (\<lambda>y j. if y = x \<and> j = i then Some lv else level_at h y j)"
    using n i by (auto simp: level_at_def idx_def fun_eq_iff)
  ultimately show ?thesis by blast
qed

lemma set_backward_spec:
  assumes "x \<in> dom h"
  shows "\<exists>h'. set_backward h x p = Some h' \<and> level_at h' = level_at h \<and> ht h' = ht h \<and>
    el h' = el h \<and> dom h' = dom h \<and> backp h' = (backp h)(x := p)"
proof -
  obtain n where n: "h x = Some n" using assms by auto
  let ?h' = "h(x \<mapsto> n\<lparr>backward := p\<rparr>)"
  have "set_backward h x p = Some ?h'" using n by (simp add: set_backward_def)
  moreover have "level_at ?h' = level_at h" "ht ?h' = ht h" "el ?h' = el h" "dom ?h' = dom h"
    "backp ?h' = (backp h)(x := p)"
    using n by (auto simp: level_at_def ht_def el_def backp_def element_of_def fun_eq_iff)
  ultimately show ?thesis by blast
qed

lemma new_node_spec:
  assumes "h a = None"
  shows "level_at (h(a \<mapsto> makeNode lv sc m)) =
      (\<lambda>y j. if y = a then (if j < lv then Some \<lparr>forward = None, lspan = 0\<rparr> else None) else level_at h y j)"
    and "ht (h(a \<mapsto> makeNode lv sc m)) = (ht h)(a := lv)"
    and "el (h(a \<mapsto> makeNode lv sc m)) = (el h)(a := \<lparr>Member = m, Score = sc\<rparr>)"
    and "backp (h(a \<mapsto> makeNode lv sc m)) = (backp h)(a := None)"
  using assms
  by (auto simp: level_at_def ht_def el_def backp_def makeNode_def element_of_def idx_def fun_eq_iff)

section \<open>The loops over the levels\<close>

lemma open_levels_spec:
  assumes "i + k \<le> ht h hdr"
  shows "\<exists>h'. open_levels h hdr len i k = Some h' \<and> same_shape h h' \<and>
    (\<forall>y j. level_at h' y j =
      (if y = hdr \<and> i \<le> j \<and> j < i + k then map_option (\<lambda>lv. lv\<lparr>lspan := len\<rparr>) (level_at h y j)
       else level_at h y j))"
  using assms
proof (induction k arbitrary: h i)
  case 0
  then show ?case by auto
next
  case (Suc k)
  then have i: "i < ht h hdr" by simp
  then obtain lv where lv: "level_at h hdr i = Some lv" using level_at_ex by blast
  obtain h1 where h1: "set_level h hdr i (lv\<lparr>lspan := len\<rparr>) = Some h1" "same_shape h h1"
    "level_at h1 = (\<lambda>y j. if y = hdr \<and> j = i then Some (lv\<lparr>lspan := len\<rparr>) else level_at h y j)"
    using set_level_spec [OF i] by blast
  have "Suc i + k \<le> ht h1 hdr" using Suc.prems h1(2) by (simp add: same_shape_def)
  from Suc.IH [OF this] obtain h' where h': "open_levels h1 hdr len (Suc i) k = Some h'" "same_shape h1 h'"
    "\<forall>y j. level_at h' y j =
      (if y = hdr \<and> Suc i \<le> j \<and> j < Suc i + k then map_option (\<lambda>lv. lv\<lparr>lspan := len\<rparr>) (level_at h1 y j)
       else level_at h1 y j)"
    by blast
  have "open_levels h hdr len i (Suc k) = Some h'" using lv h1 h' by simp
  moreover have "same_shape h h'" using h1(2) h'(2) by (rule same_shape_trans)
  moreover have "\<forall>y j. level_at h' y j =
      (if y = hdr \<and> i \<le> j \<and> j < i + Suc k then map_option (\<lambda>lv. lv\<lparr>lspan := len\<rparr>) (level_at h y j)
       else level_at h y j)"
    using h'(3) h1(3) lv by auto
  ultimately show ?case by blast
qed

lemma link_levels_spec:
  assumes "\<And>j. i \<le> j \<Longrightarrow> j < i + k \<Longrightarrow>
      j < length update \<and> j < length rank \<and> j < ht h (update ! j) \<and> j < ht h a \<and> update ! j \<noteq> a"
  shows "\<exists>h'. link_levels h a update rank i k = Some h' \<and> same_shape h h' \<and>
    (\<forall>y j. level_at h' y j =
      (if i \<le> j \<and> j < i + k then
         (if y = a then map_option (\<lambda>lv. \<lparr>forward = forward lv, lspan = lspan lv - (rank ! 0 - rank ! j)\<rparr>)
                          (level_at h (update ! j) j)
          else if y = update ! j then Some \<lparr>forward = Some a, lspan = (rank ! 0 - rank ! j) + 1\<rparr>
          else level_at h y j)
       else level_at h y j))"
  using assms
proof (induction k arbitrary: h i)
  case 0
  then show ?case by auto
next
  case (Suc k)
  let ?u = "update ! i"
  have i: "i < length update" "i < length rank" "0 < length rank" "i < ht h ?u" "i < ht h a" "?u \<noteq> a"
    using Suc.prems [of i] by auto
  obtain lv where lv: "level_at h ?u i = Some lv" using i level_at_ex by blast
  let ?na = "\<lparr>forward = forward lv, lspan = lspan lv - (rank ! 0 - rank ! i)\<rparr>"
  let ?nu = "\<lparr>forward = Some a, lspan = (rank ! 0 - rank ! i) + 1\<rparr>"
  obtain h1 where h1: "set_level h a i ?na = Some h1" "same_shape h h1"
    "level_at h1 = (\<lambda>y j. if y = a \<and> j = i then Some ?na else level_at h y j)"
    using set_level_spec [OF i(5)] by blast
  have "i < ht h1 ?u" using i h1(2) by (simp add: same_shape_def)
  from set_level_spec [OF this] obtain h2 where h2: "set_level h1 ?u i ?nu = Some h2" "same_shape h1 h2"
    "level_at h2 = (\<lambda>y j. if y = ?u \<and> j = i then Some ?nu else level_at h1 y j)"
    by blast
  have sh: "same_shape h h2" using h1(2) h2(2) by (rule same_shape_trans)
  have "\<And>j. Suc i \<le> j \<Longrightarrow> j < Suc i + k \<Longrightarrow>
      j < length update \<and> j < length rank \<and> j < ht h2 (update ! j) \<and> j < ht h2 a \<and> update ! j \<noteq> a"
    using Suc.prems sh by (simp add: same_shape_def)
  from Suc.IH [OF this] obtain h' where h': "link_levels h2 a update rank (Suc i) k = Some h'" "same_shape h2 h'"
    "\<forall>y j. level_at h' y j =
      (if Suc i \<le> j \<and> j < Suc i + k then
         (if y = a then map_option (\<lambda>lv. \<lparr>forward = forward lv, lspan = lspan lv - (rank ! 0 - rank ! j)\<rparr>)
                          (level_at h2 (update ! j) j)
          else if y = update ! j then Some \<lparr>forward = Some a, lspan = (rank ! 0 - rank ! j) + 1\<rparr>
          else level_at h2 y j)
       else level_at h2 y j)"
    by blast
  have "link_levels h a update rank i (Suc k) = Some h'"
    using i lv h1(1) h2(1) h'(1) by (simp add: idx_def)
  moreover have "same_shape h h'" using sh h'(2) by (rule same_shape_trans)
  moreover have "\<forall>y j. level_at h' y j =
      (if i \<le> j \<and> j < i + Suc k then
         (if y = a then map_option (\<lambda>lv. \<lparr>forward = forward lv, lspan = lspan lv - (rank ! 0 - rank ! j)\<rparr>)
                          (level_at h (update ! j) j)
          else if y = update ! j then Some \<lparr>forward = Some a, lspan = (rank ! 0 - rank ! j) + 1\<rparr>
          else level_at h y j)
       else level_at h y j)"
  proof (intro allI, goal_cases)
    case (1 y j)
    show ?case by (cases "j = i") (use h'(3) h2(3) h1(3) i(6) lv in auto)
  qed
  ultimately show ?case by blast
qed

lemma bump_levels_spec:
  assumes "\<And>j. i \<le> j \<Longrightarrow> j < i + k \<Longrightarrow> j < length update \<and> j < ht h (update ! j)"
  shows "\<exists>h'. bump_levels h update i k = Some h' \<and> same_shape h h' \<and>
    (\<forall>y j. level_at h' y j =
      (if i \<le> j \<and> j < i + k \<and> y = update ! j
       then map_option (\<lambda>lv. lv\<lparr>lspan := lspan lv + 1\<rparr>) (level_at h y j) else level_at h y j))"
  using assms
proof (induction k arbitrary: h i)
  case 0
  then show ?case by auto
next
  case (Suc k)
  let ?u = "update ! i"
  have i: "i < length update" "i < ht h ?u" using Suc.prems [of i] by auto
  obtain lv where lv: "level_at h ?u i = Some lv" using i level_at_ex by blast
  obtain h1 where h1: "set_level h ?u i (lv\<lparr>lspan := lspan lv + 1\<rparr>) = Some h1" "same_shape h h1"
    "level_at h1 = (\<lambda>y j. if y = ?u \<and> j = i then Some (lv\<lparr>lspan := lspan lv + 1\<rparr>) else level_at h y j)"
    using set_level_spec [OF i(2)] by blast
  have "\<And>j. Suc i \<le> j \<Longrightarrow> j < Suc i + k \<Longrightarrow> j < length update \<and> j < ht h1 (update ! j)"
    using Suc.prems h1(2) by (simp add: same_shape_def)
  from Suc.IH [OF this] obtain h' where h': "bump_levels h1 update (Suc i) k = Some h'" "same_shape h1 h'"
    "\<forall>y j. level_at h' y j =
      (if Suc i \<le> j \<and> j < Suc i + k \<and> y = update ! j
       then map_option (\<lambda>lv. lv\<lparr>lspan := lspan lv + 1\<rparr>) (level_at h1 y j) else level_at h1 y j)"
    by blast
  have "bump_levels h update i (Suc k) = Some h'" using i lv h1(1) h'(1) by (simp add: idx_def)
  moreover have "same_shape h h'" using h1(2) h'(2) by (rule same_shape_trans)
  moreover have "\<forall>y j. level_at h' y j =
      (if i \<le> j \<and> j < i + Suc k \<and> y = update ! j
       then map_option (\<lambda>lv. lv\<lparr>lspan := lspan lv + 1\<rparr>) (level_at h y j) else level_at h y j)"
  proof (intro allI, goal_cases)
    case (1 y j)
    show ?case by (cases "j = i") (use h'(3) h1(3) lv in auto)
  qed
  ultimately show ?case by blast
qed

lemma unlink_levels_spec:
  assumes "\<And>j. i \<le> j \<Longrightarrow> j < i + k \<Longrightarrow>
      j < length update \<and> j < ht h (update ! j) \<and> update ! j \<noteq> a \<and>
      (map_option forward (level_at h (update ! j) j) = Some (Some a) \<longrightarrow> j < ht h a)"
  shows "\<exists>h'. unlink_levels h a update i k = Some h' \<and> same_shape h h' \<and>
    (\<forall>y j. level_at h' y j =
      (if i \<le> j \<and> j < i + k \<and> y = update ! j then
         map_option (\<lambda>lv. if forward lv = Some a
           then \<lparr>forward = forward (the (level_at h a j)), lspan = lspan lv + (lspan (the (level_at h a j)) - 1)\<rparr>
           else lv\<lparr>lspan := lspan lv - 1\<rparr>) (level_at h y j)
       else level_at h y j))"
  using assms
proof (induction k arbitrary: h i)
  case 0
  then show ?case by auto
next
  case (Suc k)
  let ?u = "update ! i"
  have i: "i < length update" "i < ht h ?u" "?u \<noteq> a" using Suc.prems [of i] by auto
  obtain lv where lv: "level_at h ?u i = Some lv" using i level_at_ex by blast
  have a: "forward lv = Some a \<Longrightarrow> \<exists>nl. level_at h a i = Some nl"
    using Suc.prems [of i] lv level_at_ex by auto
  let ?nu = "if forward lv = Some a
           then \<lparr>forward = forward (the (level_at h a i)), lspan = lspan lv + (lspan (the (level_at h a i)) - 1)\<rparr>
           else lv\<lparr>lspan := lspan lv - 1\<rparr>"
  obtain h1 where h1: "set_level h ?u i ?nu = Some h1" "same_shape h h1"
    "level_at h1 = (\<lambda>y j. if y = ?u \<and> j = i then Some ?nu else level_at h y j)"
    using set_level_spec [OF i(2)] by blast
  have "\<And>j. Suc i \<le> j \<Longrightarrow> j < Suc i + k \<Longrightarrow> j < length update \<and> j < ht h1 (update ! j) \<and> update ! j \<noteq> a \<and>
      (map_option forward (level_at h1 (update ! j) j) = Some (Some a) \<longrightarrow> j < ht h1 a)"
    using Suc.prems h1(2,3) by (simp add: same_shape_def)
  from Suc.IH [OF this] obtain h' where h': "unlink_levels h1 a update (Suc i) k = Some h'" "same_shape h1 h'"
    "\<forall>y j. level_at h' y j =
      (if Suc i \<le> j \<and> j < Suc i + k \<and> y = update ! j then
         map_option (\<lambda>lv. if forward lv = Some a
           then \<lparr>forward = forward (the (level_at h1 a j)), lspan = lspan lv + (lspan (the (level_at h1 a j)) - 1)\<rparr>
           else lv\<lparr>lspan := lspan lv - 1\<rparr>) (level_at h1 y j)
       else level_at h1 y j)"
    by blast
  have "unlink_levels h a update i (Suc k) = Some h'"
    using i lv h1(1) h'(1) a by (cases "forward lv = Some a") (auto simp: idx_def)
  moreover have "same_shape h h'" using h1(2) h'(2) by (rule same_shape_trans)
  moreover have "\<forall>y j. level_at h' y j =
      (if i \<le> j \<and> j < i + Suc k \<and> y = update ! j then
         map_option (\<lambda>lv. if forward lv = Some a
           then \<lparr>forward = forward (the (level_at h a j)), lspan = lspan lv + (lspan (the (level_at h a j)) - 1)\<rparr>
           else lv\<lparr>lspan := lspan lv - 1\<rparr>) (level_at h y j)
       else level_at h y j)"
  proof (intro allI, goal_cases)
    case (1 y j)
    show ?case by (cases "j = i") (use h'(3) h1(3) i(3) lv in \<open>auto cong: if_cong\<close>)
  qed
  ultimately show ?case by blast
qed

section \<open>What a level must look like\<close>

text \<open>
  \<open>nxt h i rest\<close> is the level-\<open>i\<close> entry of a node that is followed by \<open>rest\<close>: the first node of
  \<open>rest\<close> that has level \<open>i\<close> and the distance to it, or nil and the number of nodes that follow.
\<close>

fun nxt :: "heap \<Rightarrow> nat \<Rightarrow> addr list \<Rightarrow> Level" where
  "nxt h i [] = \<lparr>forward = None, lspan = 0\<rparr>"
| "nxt h i (y # ys) =
     (if i < ht h y then \<lparr>forward = Some y, lspan = 1\<rparr>
      else (let l = nxt h i ys in l\<lparr>lspan := lspan l + 1\<rparr>))"

lemma nxt_found:
  "\<forall>w\<in>set p. ht h w \<le> i \<Longrightarrow> i < ht h z \<Longrightarrow>
   nxt h i (p @ z # q) = \<lparr>forward = Some z, lspan = int (length p) + 1\<rparr>"
  by (induction p) (auto simp: Let_def)

lemma nxt_skip:
  "\<forall>w\<in>set p. ht h w \<le> i \<Longrightarrow>
   nxt h i (p @ q) = (nxt h i q)\<lparr>lspan := lspan (nxt h i q) + int (length p)\<rparr>"
  by (induction p) (auto simp: Let_def)

lemma nxt_none:
  "\<forall>w\<in>set p. ht h w \<le> i \<Longrightarrow> nxt h i p = \<lparr>forward = None, lspan = int (length p)\<rparr>"
  using nxt_skip [of p h i "[]"] by simp

lemma nxt_prefix: "\<exists>z\<in>set p. i < ht h z \<Longrightarrow> nxt h i (p @ q) = nxt h i p"
proof (induction p)
  case (Cons a p)
  show ?case
  proof (cases "i < ht h a")
    case False
    with Cons.prems have "\<exists>z\<in>set p. i < ht h z" by auto
    then have "nxt h i (p @ q) = nxt h i p" by (rule Cons.IH)
    with False show ?thesis by simp
  qed simp
qed simp

lemma nxt_cong: "(\<forall>w\<in>set p. ht h w = ht h' w) \<Longrightarrow> nxt h i p = nxt h' i p"
  by (induction p) (auto simp: Let_def)

lemma nxt_0: "0 < ht h y \<Longrightarrow> nxt h 0 (y # ys) = \<lparr>forward = Some y, lspan = 1\<rparr>"
  by simp

text \<open>Every level below \<open>L\<close> of every node of the sequence is as it must be.\<close>

fun linked :: "heap \<Rightarrow> nat \<Rightarrow> addr list \<Rightarrow> bool" where
  "linked h L [] = True"
| "linked h L (x # xs) =
     ((\<forall>i<L. i < ht h x \<longrightarrow> level_at h x i = Some (nxt h i xs)) \<and> linked h L xs)"

lemma linked_split: "linked h L (p @ x # q) \<Longrightarrow> i < L \<Longrightarrow> i < ht h x \<Longrightarrow> level_at h x i = Some (nxt h i q)"
  by (induction p) auto

lemma linkedI:
  "(\<And>p x q i. zs = p @ x # q \<Longrightarrow> i < L \<Longrightarrow> i < ht h x \<Longrightarrow> level_at h x i = Some (nxt h i q)) \<Longrightarrow>
   linked h L zs"
proof (induction zs)
  case (Cons z zs)
  have "linked h L zs" by (rule Cons.IH) (use Cons.prems in \<open>metis append_Cons\<close>)
  with Cons.prems [of "[]" z zs] show ?case by auto
qed simp

fun backed :: "heap \<Rightarrow> addr option \<Rightarrow> addr list \<Rightarrow> bool" where
  "backed h p [] = True"
| "backed h p (x # xs) = (backp h x = p \<and> backed h (Some x) xs)"

lemma backed_append:
  "backed h p (xs @ ys) \<longleftrightarrow> backed h p xs \<and> backed h (if xs = [] then p else Some (last xs)) ys"
  by (induction xs arbitrary: p) auto

lemma backed_cong: "(\<forall>x\<in>set xs. backp h x = backp h' x) \<Longrightarrow> backed h p xs = backed h' p xs"
  by (induction xs arbitrary: p) auto

section \<open>The traversals\<close>

text \<open>\<open>u\<close> is the last node of \<open>zs\<close> that has level \<open>i\<close>, and \<open>r\<close> is its position.\<close>

definition last_at :: "heap \<Rightarrow> nat \<Rightarrow> addr \<Rightarrow> int \<Rightarrow> addr list \<Rightarrow> bool" where
  "last_at h i u r zs \<longleftrightarrow>
     (\<exists>p q. zs = p @ u # q \<and> i < ht h u \<and> (\<forall>z\<in>set q. ht h z \<le> i) \<and> r = int (length p))"

lemma last_at_0:
  assumes "last_at h 0 u r zs" and "\<forall>z\<in>set zs. 1 \<le> ht h z"
  shows "u = last zs" and "r = int (length zs) - 1"
proof -
  obtain p q where s: "zs = p @ u # q" "\<forall>z\<in>set q. ht h z \<le> 0" "r = int (length p)"
    using assms(1) by (auto simp: last_at_def)
  have "q = []" using s(1,2) assms(2) by (cases q) fastforce+
  then show "u = last zs" "r = int (length zs) - 1" using s by simp_all
qed

lemma last_at_pos:
  assumes "last_at h i u r zs" and "distinct zs" and "zs = p @ x # q" and "i < ht h x"
  shows "u = x \<longleftrightarrow> (\<forall>z\<in>set q. ht h z \<le> i)" and "u = x \<Longrightarrow> r = int (length p)"
proof -
  obtain p' q' where s: "zs = p' @ u # q'" "i < ht h u" "\<forall>z\<in>set q'. ht h z \<le> i" "r = int (length p')"
    using assms(1) by (auto simp: last_at_def)
  have eq: "p' = p \<and> q' = q" if "u = x"
  proof -
    have "x \<notin> set p'" "x \<notin> set q'" "p' @ x # q' = p @ x # q"
      using that s(1) assms(2,3) by auto
    then show ?thesis using append_Cons_eq_iff by metis
  qed
  show "u = x \<Longrightarrow> r = int (length p)" using eq s(4) by simp
  show "u = x \<longleftrightarrow> (\<forall>z\<in>set q. ht h z \<le> i)"
  proof
    assume "u = x"
    then show "\<forall>z\<in>set q. ht h z \<le> i" using eq s(3) by simp
  next
    assume q: "\<forall>z\<in>set q. ht h z \<le> i"
    then have "u \<notin> set q" using s(2) by auto
    have "x \<notin> set q'" using s(3) assms(4) by auto
    have "p' @ u # q' = p @ x # q" using s(1) assms(3) by simp
    then show "u = x" using \<open>u \<notin> set q\<close> \<open>x \<notin> set q'\<close>
      by (auto simp: append_eq_append_conv2 append_eq_Cons_conv Cons_eq_append_conv)
  qed
qed

text \<open>
  The loop condition splits the sequence: it holds of the nodes of \<open>A\<close> after the first, and of
  none of \<open>B\<close>. The second argument of the condition is the position of the node.
\<close>

definition splits :: "(node \<Rightarrow> int \<Rightarrow> bool) \<Rightarrow> heap \<Rightarrow> addr list \<Rightarrow> addr list \<Rightarrow> bool" where
  "splits c h A B \<longleftrightarrow>
     (\<forall>p x q. A = p @ x # q \<longrightarrow> p \<noteq> [] \<longrightarrow> c (the (h x)) (int (length p))) \<and>
     (\<forall>p x q. B = p @ x # q \<longrightarrow> \<not> c (the (h x)) (int (length A + length p)))"

lemma walk_stops:
  assumes lv: "level_at h x i = Some (nxt h i (q @ B))" and sp: "splits c h A B" and B: "set B \<subseteq> dom h"
    and A: "length A = Suc (length p + length q)" and q: "\<forall>w\<in>set q. ht h w \<le> i"
  shows "walk h c i x (int (length p)) = Some (x, int (length p))"
proof (cases "\<exists>z\<in>set B. i < ht h z")
  case True
  then obtain b1 z b2 where b: "B = b1 @ z # b2" "\<forall>w\<in>set b1. ht h w \<le> i" "i < ht h z"
    using split_list_first_prop [of B "\<lambda>z. i < ht h z"] by (metis not_le)
  obtain nz where z: "h z = Some nz" using B b by auto
  have "\<not> c nz (int (length A + length b1))"
    using sp [unfolded splits_def, THEN conjunct2, rule_format, OF b(1)] z by simp
  moreover have "int (length p) + (int (length (q @ b1)) + 1) = int (length A + length b1)" using A by simp
  ultimately have "\<not> c nz (int (length p) + (int (length (q @ b1)) + 1))" by metis
  moreover have "nxt h i (q @ B) = \<lparr>forward = Some z, lspan = int (length (q @ b1)) + 1\<rparr>"
    using nxt_found [of "q @ b1" h i z b2] q b by auto
  ultimately show ?thesis by (subst walk.simps) (use lv z in simp)
next
  case False
  then have "nxt h i (q @ B) = \<lparr>forward = None, lspan = int (length (q @ B))\<rparr>"
    using q by (intro nxt_none) auto
  then show ?thesis by (subst walk.simps) (use lv in simp)
qed

lemma walk_spec:
  assumes "linked h L (A @ B)" "i < L" "splits c h A B" "set (A @ B) \<subseteq> dom h"
    and "A = p @ x # q" "i < ht h x"
  shows "\<exists>u r. walk h c i x (int (length p)) = Some (u, r) \<and> last_at h i u r A"
  using assms(5,6)
proof (induction "length q" arbitrary: p x q rule: less_induct)
  case less
  have lv: "level_at h x i = Some (nxt h i (q @ B))"
    using linked_split [of h L p x "q @ B" i] assms(1,2) less.prems by simp
  show ?case
  proof (cases "\<exists>z\<in>set q. i < ht h z")
    case True
    then obtain q1 z q2 where q: "q = q1 @ z # q2" "\<forall>w\<in>set q1. ht h w \<le> i" "i < ht h z"
      using split_list_first_prop [of q "\<lambda>z. i < ht h z"] by (metis not_le)
    let ?p = "p @ x # q1"
    have A: "A = ?p @ z # q2" using less.prems q by simp
    obtain nz where z: "h z = Some nz" using assms(4) A by auto
    have c: "c nz (int (length ?p))"
      using assms(3) [unfolded splits_def, THEN conjunct1, rule_format, OF A] z by simp
    have n: "nxt h i (q @ B) = \<lparr>forward = Some z, lspan = int (length q1) + 1\<rparr>"
      using nxt_found [OF q(2,3), of "q2 @ B"] q(1) by simp
    have "walk h c i x (int (length p)) = walk h c i z (int (length ?p))"
      by (subst walk.simps) (use lv n z c in \<open>simp add: algebra_simps\<close>)
    then show ?thesis using less.hyps [of q2 ?p z] A q by simp
  next
    case False
    then have q: "\<forall>w\<in>set q. ht h w \<le> i" by auto
    have last: "last_at h i x (int (length p)) A"
      using less.prems q by (auto simp: last_at_def)
    have "walk h c i x (int (length p)) = Some (x, int (length p))"
      by (rule walk_stops [OF lv assms(3) _ _ q]) (use assms(4) less.prems in auto)
    then show ?thesis using last by blast
  qed
qed

lemma scan_spec:
  assumes "linked h L (A @ B)" "k \<le> L" "splits c h A B" "set (A @ B) \<subseteq> dom h"
    and "A = p @ x # q" "k \<le> ht h x"
  shows "\<exists>us rs. scan h c k x (int (length p)) = Some (us, rs) \<and> length us = k \<and> length rs = k \<and>
    (\<forall>i<k. last_at h i (us ! i) (rs ! i) A)"
  using assms(2,5,6)
proof (induction k arbitrary: p x q)
  case (Suc k)
  obtain u r where w: "walk h c k x (int (length p)) = Some (u, r)" "last_at h k u r A"
    using walk_spec [of h L A B k c p x q] assms(1,3,4) Suc.prems by auto
  obtain p' q' where u: "A = p' @ u # q'" "k < ht h u" "r = int (length p')"
    using w(2) by (auto simp: last_at_def)
  obtain us rs where s: "scan h c k u r = Some (us, rs)" "length us = k" "length rs = k"
    "\<forall>i<k. last_at h i (us ! i) (rs ! i) A"
    using Suc.IH [of p' u q'] Suc.prems u by auto
  have "scan h c (Suc k) x (int (length p)) = Some (us @ [u], rs @ [r])"
    using w(1) s(1) by simp
  moreover have "\<forall>i<Suc k. last_at h i ((us @ [u]) ! i) ((rs @ [r]) ! i) A"
    using s w(2) by (auto simp: nth_append less_Suc_eq)
  ultimately show ?case using s(2,3) by auto
qed simp

section \<open>The invariant\<close>

definition sl_struct :: "skiplist \<Rightarrow> addr list \<Rightarrow> bool" where
  "sl_struct sl as \<longleftrightarrow>
     distinct (header sl # as) \<and>
     (\<forall>x\<in>set (header sl # as). x < brk sl) \<and>
     (\<forall>x. brk sl \<le> x \<longrightarrow> mem sl x = None) \<and>
     ht (mem sl) (header sl) = maxLevel \<and>
     Member (el (mem sl) (header sl)) = [] \<and>
     1 \<le> sllevel sl \<and> sllevel sl \<le> maxLevel \<and>
     (\<forall>a\<in>set as. 1 \<le> ht (mem sl) a \<and> ht (mem sl) a \<le> sllevel sl) \<and>
     (\<forall>i. sllevel sl \<le> i \<longrightarrow> i < maxLevel \<longrightarrow>
        map_option forward (level_at (mem sl) (header sl) i) = Some None) \<and>
     linked (mem sl) (sllevel sl) (header sl # as) \<and>
     backed (mem sl) None as \<and>
     tail sl = (if as = [] then None else Some (last as)) \<and>
     sllength sl = int (length as)"

text \<open>The order of the elements: by score, then by member.\<close>

definition elem_less :: "Element \<Rightarrow> Element \<Rightarrow> bool" where
  "elem_less a b \<longleftrightarrow> key_before (Score a) (Member a) (Score b) (Member b)"

definition elems_ok :: "Element list \<Rightarrow> bool" where
  "elems_ok es \<longleftrightarrow> sorted_wrt elem_less es \<and> (\<forall>e\<in>set es. Score e \<noteq> NaN)"

definition sl_rep :: "skiplist \<Rightarrow> Element list \<Rightarrow> bool" where
  "sl_rep sl es \<longleftrightarrow> (\<exists>as. sl_struct sl as \<and> es = map (el (mem sl)) as \<and> elems_ok es)"

lemma sl_structD:
  assumes "sl_struct sl as"
  shows "distinct (header sl # as)" "\<And>x. x \<in> set (header sl # as) \<Longrightarrow> x < brk sl"
    "\<And>x. brk sl \<le> x \<Longrightarrow> mem sl x = None" "ht (mem sl) (header sl) = maxLevel"
    "Member (el (mem sl) (header sl)) = []" "1 \<le> sllevel sl" "sllevel sl \<le> maxLevel"
    "\<And>a. a \<in> set as \<Longrightarrow> 1 \<le> ht (mem sl) a" "\<And>a. a \<in> set as \<Longrightarrow> ht (mem sl) a \<le> sllevel sl"
    "\<And>i. sllevel sl \<le> i \<Longrightarrow> i < maxLevel \<Longrightarrow>
        map_option forward (level_at (mem sl) (header sl) i) = Some None"
    "linked (mem sl) (sllevel sl) (header sl # as)" "backed (mem sl) None as"
    "tail sl = (if as = [] then None else Some (last as))" "sllength sl = int (length as)"
  using assms by (auto simp: sl_struct_def)

lemma sl_struct_dom: "sl_struct sl as \<Longrightarrow> set (header sl # as) \<subseteq> dom (mem sl)"
proof -
  assume s: "sl_struct sl as"
  have "\<And>x. x \<in> set (header sl # as) \<Longrightarrow> 0 < ht (mem sl) x"
    using sl_structD(4,8) [OF s] by (auto simp: maxLevel_def) (metis Suc_le_eq)
  then show ?thesis using ht_pos_dom by blast
qed

text \<open>The descent from the header, when the condition separates \<open>xs\<close> from \<open>ys\<close>.\<close>

lemma scan_header:
  assumes "sl_struct sl (xs @ ys)"
    and "\<And>p x q. xs = p @ x # q \<Longrightarrow> c (the (mem sl x)) (int (length p) + 1)"
    and "\<And>p x q. ys = p @ x # q \<Longrightarrow> \<not> c (the (mem sl x)) (int (length xs + length p) + 1)"
  shows "\<exists>us rs. scan (mem sl) c (sllevel sl) (header sl) 0 = Some (us, rs) \<and>
    length us = sllevel sl \<and> length rs = sllevel sl \<and>
    (\<forall>i<sllevel sl. last_at (mem sl) i (us ! i) (rs ! i) (header sl # xs))"
proof -
  have "splits c (mem sl) (header sl # xs) ys"
    unfolding splits_def
  proof (intro conjI allI impI)
    fix p x q assume "header sl # xs = p @ x # q" "p \<noteq> []"
    then obtain p' where "p = header sl # p'" "xs = p' @ x # q" by (cases p) auto
    then show "c (the (mem sl x)) (int (length p))" using assms(2) [of p' x q] by (simp add: add.commute)
  next
    fix p x q assume "ys = p @ x # q"
    from assms(3) [OF this] show "\<not> c (the (mem sl x)) (int (length (header sl # xs) + length p))"
      by (simp add: algebra_simps)
  qed
  then show ?thesis
    using scan_spec [of "mem sl" "sllevel sl" "header sl # xs" ys "sllevel sl" c "[]" "header sl" xs]
      sl_structD [OF assms(1)] sl_struct_dom [OF assms(1)] by simp
qed

lemma nxt_forward_in: "forward (nxt h i p) = Some z \<Longrightarrow> z \<in> set p"
  by (induction p) (auto simp: Let_def split: if_splits)

lemma nxt_forward_None: "forward (nxt h i p) = None \<longleftrightarrow> (\<forall>z\<in>set p. ht h z \<le> i)"
  by (induction p) (auto simp: Let_def)

lemma linked_mono: "linked h L zs \<Longrightarrow> L' \<le> L \<Longrightarrow> linked h L' zs"
  by (induction zs) auto

end
