(* ===== verification/SkipListOps.thy ===== *)
theory SkipListOps
  imports SkipListInv
begin

text \<open>
  The two operations that relink the skip list keep its invariant: \<open>insert_struct\<close> puts one new
  address between the nodes before its key and the others, \<open>removeNode_struct\<close> takes one address
  out. Both follow the code's order: arrays filled by the descent, then level by level, then the
  backward pointers and the tail.
\<close>

section \<open>Facts about the code's loops under the invariant\<close>

lemma last_at_shape: "ht h' = ht h \<Longrightarrow> last_at h' i u r zs = last_at h i u r zs"
  by (simp add: last_at_def)

lemma last_at_ht: "last_at h i u r zs \<Longrightarrow> i < ht h u"
  by (auto simp: last_at_def)

lemma last_at_in: "last_at h i u r zs \<Longrightarrow> u \<in> set zs"
  by (auto simp: last_at_def)

lemma nxt_ht_eq: "ht h' = ht h \<Longrightarrow> nxt h' i p = nxt h i p"
  by (rule nxt_cong) simp

lemma linked_same:
  assumes "level_at h' = level_at h" "ht h' = ht h"
  shows "linked h' L zs = linked h L zs"
  by (induction zs) (simp_all add: assms nxt_ht_eq [OF assms(2)])

lemma shrink_level_spec:
  "1 \<le> l \<Longrightarrow> l \<le> ht h hdr \<Longrightarrow> \<exists>l'. shrink_level h hdr l = Some l' \<and> 1 \<le> l' \<and> l' \<le> l \<and>
    (\<forall>i. l' \<le> i \<longrightarrow> i < l \<longrightarrow> map_option forward (level_at h hdr i) = Some None)"
proof (induction l)
  case (Suc l)
  show ?case
  proof (cases "1 \<le> l")
    case True
    obtain lv where lv: "level_at h hdr l = Some lv" using Suc.prems level_at_ex [of l h hdr] by auto
    show ?thesis
    proof (cases "forward lv = None")
      case f: True
      obtain l' where "shrink_level h hdr l = Some l'" "1 \<le> l'" "l' \<le> l"
        "\<forall>i. l' \<le> i \<longrightarrow> i < l \<longrightarrow> map_option forward (level_at h hdr i) = Some None"
        using Suc True by auto
      then show ?thesis using True lv f by (auto simp: less_Suc_eq)
    qed (use True lv in auto)
  qed simp
qed simp

text \<open>Raising the list's level keeps the invariant: the new levels hold nil and the length.\<close>

lemma open_levels_struct:
  assumes "sl_struct sl as" and "sllevel sl + k \<le> maxLevel"
  shows "\<exists>h1. open_levels (mem sl) (header sl) (sllength sl) (sllevel sl) k = Some h1 \<and>
    same_shape (mem sl) h1 \<and> sl_struct (sl\<lparr>mem := h1, sllevel := sllevel sl + k\<rparr>) as"
proof -
  let ?h = "mem sl" and ?H = "header sl" and ?L = "sllevel sl"
  note st = sl_structD [OF assms(1)]
  obtain h1 where h1: "open_levels ?h ?H (sllength sl) ?L k = Some h1" "same_shape ?h h1"
    "\<And>y j. level_at h1 y j =
      (if y = ?H \<and> ?L \<le> j \<and> j < ?L + k then map_option (\<lambda>lv. lv\<lparr>lspan := sllength sl\<rparr>) (level_at ?h y j)
       else level_at ?h y j)"
    using open_levels_spec [of ?L k ?h ?H "sllength sl"] assms(2) st(4) by auto
  have sh: "ht h1 = ht ?h" "el h1 = el ?h" "backp h1 = backp ?h" "dom h1 = dom ?h"
    using h1(2) by (auto simp: same_shape_def)
  have None: "\<And>x. brk sl \<le> x \<Longrightarrow> h1 x = None" using st(3) sh(4) by (metis domIff)
  have "linked h1 (?L + k) (?H # as)"
  proof (rule linkedI)
    fix p x q i
    assume z: "?H # as = p @ x # q" and i: "i < ?L + k" "i < ht h1 x"
    show "level_at h1 x i = Some (nxt h1 i q)"
    proof (cases "i < ?L")
      case True
      then show ?thesis
        using linked_split [of ?h ?L p x q i] st(11) z i h1(3) by (simp add: sh nxt_ht_eq [OF sh(1)])
    next
      case False
      have x: "x = ?H"
      proof (rule ccontr)
        assume "x \<noteq> ?H"
        then have "x \<in> set as" using z by (cases p) auto
        then show False using st(9) [of x] i False by (simp add: sh)
      qed
      then have q: "q = as" using z st(1) by (cases p) auto
      have lo: "\<forall>w\<in>set as. ht ?h w \<le> i" using st(9) False by force
      obtain s where "level_at ?h ?H i = Some s" "forward s = None"
        using st(10) [of i] False i(1) assms(2) by auto
      then show ?thesis
        using h1(3) x q i(1) False nxt_none [OF lo] st(14) by (simp add: nxt_ht_eq [OF sh(1)])
    qed
  qed
  then have "sl_struct (sl\<lparr>mem := h1, sllevel := ?L + k\<rparr>) as"
    using st assms(2) None backed_cong [of as ?h h1 None]
    by (fastforce simp: sl_struct_def sh h1(3))
  then show ?thesis using h1(1,2) by blast
qed

section \<open>Linking a node\<close>

text \<open>
  The state after the linking loop and the loop above it: \<open>h'\<close> has the new node \<open>a\<close> of height \<open>lv\<close>
  between \<open>Z\<close> (the header and the nodes before) and \<open>ys\<close>.
\<close>

lemma link_before:
  assumes ht': "ht h' = (ht h)(a := lv)" and xa: "x \<noteq> a" and aq: "a \<notin> set q" and ays: "a \<notin> set ys"
    and old: "level_at h x i = Some (nxt h i (q @ ys))" and pos: "u = x \<longleftrightarrow> (\<forall>z\<in>set q. ht h z \<le> i)"
    and d: "u = x \<Longrightarrow> d = int (length q)"
    and lev: "level_at h' x i = (if u = x then
         (if i < lv then Some \<lparr>forward = Some a, lspan = d + 1\<rparr>
          else map_option (\<lambda>l. l\<lparr>lspan := lspan l + 1\<rparr>) (level_at h x i))
       else level_at h x i)"
  shows "level_at h' x i = Some (nxt h' i (q @ a # ys))"
proof -
  have hta: "ht h' a = lv" and hts: "\<And>w. w \<noteq> a \<Longrightarrow> ht h' w = ht h w" by (simp_all add: ht')
  have nx: "\<And>w j. a \<notin> set w \<Longrightarrow> nxt h' j w = nxt h j w" by (rule nxt_cong) (auto simp: ht')
  show ?thesis
  proof (cases "u = x")
    case True
    then have low: "\<forall>z\<in>set q. ht h z \<le> i" using pos by simp
    have low': "\<forall>w\<in>set q. ht h' w \<le> i" using low aq hts by metis
    show ?thesis
    proof (cases "i < lv")
      case t: True
      then show ?thesis using lev True d nxt_found [OF low', of a ys] hta by simp
    next
      case False
      then have low2: "\<forall>w\<in>set (q @ [a]). ht h' w \<le> i" using low' hta by auto
      have "nxt h' i (q @ a # ys) = (nxt h i ys)\<lparr>lspan := lspan (nxt h i ys) + (int (length q) + 1)\<rparr>"
        using nxt_skip [OF low2, of ys] nx [OF ays] by simp
      moreover have "nxt h i (q @ ys) = (nxt h i ys)\<lparr>lspan := lspan (nxt h i ys) + int (length q)\<rparr>"
        by (rule nxt_skip [OF low])
      ultimately show ?thesis using lev True False old by simp
    qed
  next
    case False
    then have ex: "\<exists>z\<in>set q. i < ht h z" using pos not_le by blast
    then have "\<exists>z\<in>set q. i < ht h' z" using aq hts by metis
    then have "nxt h' i (q @ a # ys) = nxt h i q" using nxt_prefix nx [OF aq] by metis
    moreover have "nxt h i (q @ ys) = nxt h i q" using nxt_prefix ex by metis
    ultimately show ?thesis using lev False old by simp
  qed
qed

lemma link_here:
  assumes old: "linked h L (Z @ ys)" and i: "i < L" and up: "last_at h i u r Z" and r0: "r0 = int (length Z) - 1"
    and nx: "nxt h' i ys = nxt h i ys"
    and lev: "level_at h' a i = map_option (\<lambda>l. \<lparr>forward = forward l, lspan = lspan l - (r0 - r)\<rparr>) (level_at h u i)"
  shows "level_at h' a i = Some (nxt h' i ys)"
proof -
  obtain p q where u: "Z = p @ u # q" "i < ht h u" "\<forall>z\<in>set q. ht h z \<le> i" "r = int (length p)"
    using up by (auto simp: last_at_def)
  have "level_at h u i = Some (nxt h i (q @ ys))"
    using linked_split [of h L p u "q @ ys" i] old u i by simp
  moreover have "r0 - r = int (length q)" using r0 u by simp
  ultimately show ?thesis using lev nxt_skip [OF u(3), of ys] nx by simp
qed

lemma link_linked:
  assumes old: "linked h L (Z @ ys)" and dist: "distinct (Z @ ys)" and a: "a \<notin> set (Z @ ys)"
    and ht': "ht h' = (ht h)(a := lv)" and Z1: "\<forall>z\<in>set Z. 1 \<le> ht h z" and lv: "1 \<le> lv" "lv \<le> L"
    and up: "\<And>i. i < L \<Longrightarrow> last_at h i (update ! i) (rank ! i) Z"
    and lev: "\<And>y j. j < L \<Longrightarrow> level_at h' y j =
      (if y = a then (if j < lv then map_option (\<lambda>l. \<lparr>forward = forward l, lspan = lspan l - (rank ! 0 - rank ! j)\<rparr>)
                          (level_at h (update ! j) j) else None)
       else if y = update ! j then
         (if j < lv then Some \<lparr>forward = Some a, lspan = (rank ! 0 - rank ! j) + 1\<rparr>
          else map_option (\<lambda>l. l\<lparr>lspan := lspan l + 1\<rparr>) (level_at h y j))
       else level_at h y j)"
  shows "linked h' L (Z @ a # ys)"
proof (rule linkedI)
  fix p x q i
  assume z: "Z @ a # ys = p @ x # q" and i: "i < L" "i < ht h' x"
  have hta: "ht h' a = lv" and hts: "\<And>w. w \<noteq> a \<Longrightarrow> ht h' w = ht h w" by (simp_all add: ht')
  have nx: "\<And>w j. a \<notin> set w \<Longrightarrow> nxt h' j w = nxt h j w"
    by (rule nxt_cong) (auto simp: ht')
  have ays: "a \<notin> set ys" and aZ: "a \<notin> set Z" using a by auto
  have r0: "rank ! 0 = int (length Z) - 1"
    using last_at_0(2) [OF up [of 0] Z1] i(1) by simp
  consider (before) q1 where "Z = p @ x # q1" "q = q1 @ a # ys" | (here) "x = a" "p = Z" "q = ys"
    | (after) p2 where "ys = p2 @ x # q"
    using z by (auto simp: append_eq_append_conv2 append_eq_Cons_conv Cons_eq_append_conv)
  then show "level_at h' x i = Some (nxt h' i q)"
  proof cases
    case before
    have xa: "x \<noteq> a" using before aZ by auto
    have aq: "a \<notin> set q1" using before aZ by auto
    have ix: "i < ht h x" using i hts [OF xa] by simp
    have o: "level_at h x i = Some (nxt h i (q1 @ ys))"
      using linked_split [of h L p x "q1 @ ys" i] old before i(1) ix by simp
    have pos: "update ! i = x \<longleftrightarrow> (\<forall>z\<in>set q1. ht h z \<le> i)" "update ! i = x \<Longrightarrow> rank ! i = int (length p)"
      using last_at_pos [OF up [OF i(1)] _ before(1) ix] dist by auto
    have d: "rank ! 0 - rank ! i = int (length q1)" if "update ! i = x" using pos(2) [OF that] r0 before by simp
    show ?thesis unfolding before(2)
      using link_before [OF ht' xa aq ays o pos(1) d] lev [OF i(1), of x] xa by auto
  next
    case here
    then have il: "i < lv" using i hta by simp
    show ?thesis unfolding here(1,3)
      by (rule link_here [OF old i(1) up [OF i(1)] r0 nx [OF ays]]) (use lev [OF i(1), of a] il in simp)
  next
    case after
    have xa: "x \<noteq> a" using after ays by auto
    have "update ! i \<noteq> x" using last_at_in [OF up [OF i(1)]] dist after by auto
    moreover have "level_at h x i = Some (nxt h i q)"
      using linked_split [of h L "Z @ p2" x q i] old after i hts [OF xa] by simp
    ultimately show ?thesis
      using lev [OF i(1), of x] xa nx [of q i] ays after by simp
  qed
qed

section \<open>insert\<close>

text \<open>
  The arrays \<^verbatim>\<open>update\<close> and \<^verbatim>\<open>rank\<close> after the level was raised: the header and 0 are right for the
  new levels too, because no node is that high.
\<close>

lemma update_extended:
  assumes st: "sl_struct sl (xs @ ys)" and ext: "sllevel sl + k \<le> maxLevel"
    and len: "length us = sllevel sl" "length rs = sllevel sl"
    and up: "\<And>i. i < sllevel sl \<Longrightarrow> last_at (mem sl) i (us ! i) (rs ! i) (header sl # xs)"
    and i: "i < sllevel sl + k"
  shows "last_at (mem sl) i ((us @ replicate k (header sl)) ! i) ((rs @ replicate k 0) ! i) (header sl # xs)"
proof (cases "i < sllevel sl")
  case True
  then show ?thesis using up len by (simp add: nth_append)
next
  case False
  have "\<forall>z\<in>set xs. ht (mem sl) z \<le> i" using sl_structD(9) [OF st] False by fastforce
  moreover have "i < ht (mem sl) (header sl)" using sl_structD(4) [OF st] ext i by simp
  ultimately have "last_at (mem sl) i (header sl) 0 (header sl # xs)"
    by (auto simp: last_at_def intro!: exI [of _ "[]"])
  then show ?thesis using False len i by (simp add: nth_append)
qed

text \<open>The last steps of \<open>insert\<close> and \<open>removeNode\<close>: the backward pointer of the node after, or the tail.\<close>

lemma fix_forward:
  assumes "\<forall>y\<in>set ys. 1 \<le> ht h y"
  shows "\<exists>h' tl. (case forward (nxt h 0 ys) of None \<Rightarrow> Some (h, t0)
                  | Some y \<Rightarrow> do { h2 \<leftarrow> set_backward h y b; Some (h2, t1) }) = Some (h', tl) \<and>
    level_at h' = level_at h \<and> ht h' = ht h \<and> el h' = el h \<and> dom h' = dom h \<and>
    backp h' = (if ys = [] then backp h else (backp h)(hd ys := b)) \<and>
    tl = (if ys = [] then t0 else t1)"
proof (cases ys)
  case (Cons y ys')
  then have "forward (nxt h 0 ys) = Some y" "y \<in> dom h" using assms ht_pos_dom [of 0 h y] by auto
  then show ?thesis using set_backward_spec [of y h b] Cons by auto
qed simp

lemma backed_insert:
  assumes "backed h None (xs @ ys)" and "distinct (xs @ ys)" and "a \<notin> set (xs @ ys)"
    and "b' = (if ys = [] then backp h else (backp h)(hd ys := Some a))(a := (if xs = [] then None else Some (last xs)))"
    and "backp h' = b'"
  shows "backed h' None (xs @ a # ys)"
proof -
  let ?p = "if xs = [] then None else Some (last xs)"
  have "backed h None xs" "backed h ?p ys" using assms(1) by (simp_all add: backed_append)
  moreover have "\<forall>x\<in>set xs. backp h' x = backp h x" using assms by (cases ys) auto
  ultimately have "backed h' None xs" using backed_cong [of xs h' h None] by simp
  moreover have "backp h' a = ?p" using assms by simp
  moreover have "backed h' (Some a) ys"
  proof (cases ys)
    case (Cons y ys')
    then have "\<forall>x\<in>set ys'. backp h' x = backp h x" "backp h' y = Some a" using assms by auto
    then show ?thesis using \<open>backed h ?p ys\<close> Cons backed_cong [of ys' h' h "Some y"] by simp
  qed simp
  ultimately show ?thesis by (simp add: backed_append)
qed

text \<open>The linking loop and the loop above it, on the arrays the descent filled.\<close>

lemma link_new_node:
  assumes old: "linked h L (Z @ ys)" and dist: "distinct (Z @ ys)" and a: "a \<notin> set (Z @ ys)" "h a = None"
    and Z1: "\<forall>z\<in>set Z. 1 \<le> ht h z" and lv: "1 \<le> lv" "lv \<le> L" and len: "length U = L" "length R = L"
    and up: "\<And>i. i < L \<Longrightarrow> last_at h i (U ! i) (R ! i) Z"
  obtains h3 h4 where "link_levels (h(a \<mapsto> makeNode lv sc m)) a U R 0 lv = Some h3" "bump_levels h3 U lv (L - lv) = Some h4"
    "ht h4 = (ht h)(a := lv)" "el h4 = (el h)(a := \<lparr>Member = m, Score = sc\<rparr>)" "backp h4 = (backp h)(a := None)"
    "dom h4 = Set.insert a (dom h)" "linked h4 L (Z @ a # ys)" "\<And>y j. L \<le> j \<Longrightarrow> y \<noteq> a \<Longrightarrow> level_at h4 y j = level_at h y j"
proof -
  let ?h2 = "h(a \<mapsto> makeNode lv sc m)"
  note nn = new_node_spec [of h a lv sc m, OF a(2)]
  have upa: "U ! i \<noteq> a" if "i < L" for i using last_at_in [OF up [OF that]] a(1) by auto
  have uph: "\<And>i. i < L \<Longrightarrow> i < ht h (U ! i)" using last_at_ht [OF up] by simp
  obtain h3 where h3: "link_levels ?h2 a U R 0 lv = Some h3" "same_shape ?h2 h3"
    "\<And>y j. level_at h3 y j =
      (if j < lv then
         (if y = a then map_option (\<lambda>l. \<lparr>forward = forward l, lspan = lspan l - (R ! 0 - R ! j)\<rparr>) (level_at ?h2 (U ! j) j)
          else if y = U ! j then Some \<lparr>forward = Some a, lspan = (R ! 0 - R ! j) + 1\<rparr>
          else level_at ?h2 y j)
       else level_at ?h2 y j)"
    using link_levels_spec [of 0 lv U R ?h2 a] len lv(2) uph upa nn(2) by force
  have sh3: "ht h3 = (ht h)(a := lv)" "el h3 = (el h)(a := \<lparr>Member = m, Score = sc\<rparr>)"
    "backp h3 = (backp h)(a := None)" "dom h3 = Set.insert a (dom h)"
    using h3(2) nn by (auto simp: same_shape_def)
  obtain h4 where h4: "bump_levels h3 U lv (L - lv) = Some h4" "same_shape h3 h4"
    "\<And>y j. level_at h4 y j =
      (if lv \<le> j \<and> j < L \<and> y = U ! j
       then map_option (\<lambda>l. l\<lparr>lspan := lspan l + 1\<rparr>) (level_at h3 y j) else level_at h3 y j)"
    using bump_levels_spec [of lv "L - lv" U h3] len lv(2) uph upa sh3(1) by force
  have sh4: "ht h4 = (ht h)(a := lv)" "el h4 = (el h)(a := \<lparr>Member = m, Score = sc\<rparr>)"
    "backp h4 = (backp h)(a := None)" "dom h4 = Set.insert a (dom h)"
    using h4(2) sh3 by (auto simp: same_shape_def)
  have lev4: "level_at h4 y j =
      (if y = a then (if j < lv then map_option (\<lambda>l. \<lparr>forward = forward l, lspan = lspan l - (R ! 0 - R ! j)\<rparr>)
                          (level_at h (U ! j) j) else None)
       else if y = U ! j then
         (if j < lv then Some \<lparr>forward = Some a, lspan = (R ! 0 - R ! j) + 1\<rparr>
          else map_option (\<lambda>l. l\<lparr>lspan := lspan l + 1\<rparr>) (level_at h y j))
       else level_at h y j)" if "j < L" for y j
    using h4(3) h3(3) nn(1) upa [OF that] that by auto
  show ?thesis
  proof (rule that [OF h3(1) h4(1) sh4])
    show "linked h4 L (Z @ a # ys)"
      by (rule link_linked [OF old dist a(1) sh4(1) Z1 lv up lev4])
    show "level_at h4 y j = level_at h y j" if "L \<le> j" "y \<noteq> a" for y j
      using h4(3) h3(3) nn(1) lv(2) that by auto
  qed
qed

text \<open>The backward pointers of the new node and of the node after it.\<close>

lemma set_back_new:
  assumes lk: "linked h L (pre @ a # ys)" and L: "0 < L" "0 < ht h a" and ys: "\<forall>y\<in>set ys. 1 \<le> ht h y" and a: "a \<in> dom h"
  obtains h5 f0 h6 tl where "set_backward h a bp = Some h5" "level_at h5 a 0 = Some f0"
    "(case forward f0 of None \<Rightarrow> Some (h5, t0)
      | Some y \<Rightarrow> do { h2 \<leftarrow> set_backward h5 y (Some a); Some (h2, t1) }) = Some (h6, tl)"
    "level_at h6 = level_at h" "ht h6 = ht h" "el h6 = el h" "dom h6 = dom h"
    "backp h6 = (if ys = [] then (backp h)(a := bp) else (backp h)(a := bp, hd ys := Some a))" "tl = (if ys = [] then t0 else t1)"
proof -
  obtain h5 where h5: "set_backward h a bp = Some h5" "level_at h5 = level_at h" "ht h5 = ht h"
    "el h5 = el h" "dom h5 = dom h" "backp h5 = (backp h)(a := bp)"
    using set_backward_spec [of a h bp] a by auto
  have lk5: "linked h5 L (pre @ a # ys)" using lk by (simp only: linked_same [OF h5(2,3)])
  obtain f0 where f0: "level_at h5 a 0 = Some f0" using level_at_ex [of 0 h5 a] h5(3) L(2) by auto
  then show ?thesis
    using fix_forward [of ys h5 t0 "Some a" t1] linked_split [OF lk5 L(1)] h5 L(2) ys that [OF h5(1) f0] by auto
qed

text \<open>The descent of \<open>insert\<close>, with the arrays extended to the new levels.\<close>

lemma insert_descend:
  assumes st: "sl_struct sl (xs @ ys)" and ext: "sllevel sl + k \<le> maxLevel"
    and xs: "\<And>x. x \<in> set xs \<Longrightarrow> key_before (Score (el (mem sl) x)) (Member (el (mem sl) x)) sc m"
    and ys: "\<And>y. y \<in> set ys \<Longrightarrow> \<not> key_before (Score (el (mem sl) y)) (Member (el (mem sl) y)) sc m"
  obtains us rs h1 where "scan (mem sl) (\<lambda>n r. key_before (Score n) (Member n) sc m) (sllevel sl) (header sl) 0 = Some (us, rs)"
    "length us = sllevel sl" "length rs = sllevel sl"
    "open_levels (mem sl) (header sl) (sllength sl) (sllevel sl) k = Some h1" "same_shape (mem sl) h1"
    "sl_struct (sl\<lparr>mem := h1, sllevel := sllevel sl + k\<rparr>) (xs @ ys)"
    "\<And>i. i < sllevel sl + k \<Longrightarrow>
       last_at h1 i ((us @ replicate k (header sl)) ! i) ((rs @ replicate k 0) ! i) (header sl # xs)"
proof -
  obtain us rs where sc: "scan (mem sl) (\<lambda>n r. key_before (Score n) (Member n) sc m) (sllevel sl) (header sl) 0 = Some (us, rs)"
    and len: "length us = sllevel sl" "length rs = sllevel sl"
    and up0: "\<And>i. i < sllevel sl \<Longrightarrow> last_at (mem sl) i (us ! i) (rs ! i) (header sl # xs)"
    using scan_header [OF st, of "\<lambda>n r. key_before (Score n) (Member n) sc m"] xs ys by (fastforce simp: el_def element_of_def)
  obtain h1 where h1: "open_levels (mem sl) (header sl) (sllength sl) (sllevel sl) k = Some h1" "same_shape (mem sl) h1"
    "sl_struct (sl\<lparr>mem := h1, sllevel := sllevel sl + k\<rparr>) (xs @ ys)"
    using open_levels_struct [OF st ext] by blast
  then have ht: "ht h1 = ht (mem sl)" by (simp add: same_shape_def)
  from that [OF sc len h1] update_extended [OF st ext len up0] show ?thesis unfolding last_at_shape [OF ht] by blast
qed

text \<open>What is left to check for the invariant after a node was linked in.\<close>

lemma sl_struct_linked_in:
  assumes st: "sl_struct (sl\<lparr>mem := h1, sllevel := L\<rparr>) (xs @ ys)" and a: "a = brk sl" and lv: "1 \<le> lv" "lv \<le> L"
    and ht: "ht h = (ht h1)(a := lv)" and el: "el h = (el h1)(a := e)" and dom: "dom h = Set.insert a (dom h1)"
    and lk: "linked h L ((header sl # xs) @ a # ys)" and above: "\<And>y j. L \<le> j \<Longrightarrow> y \<noteq> a \<Longrightarrow> level_at h y j = level_at h1 y j"
    and bp: "backp h = (if ys = [] then backp h1 else (backp h1)(hd ys := Some a))(a := (if xs = [] then None else Some (last xs)))"
    and tl: "t = (if ys = [] then Some a else tail sl)"
  shows "sl_struct (sl\<lparr>mem := h, brk := a + 1, tail := t, sllength := sllength sl + 1, sllevel := L\<rparr>) (xs @ a # ys)"
proof -
  note s1 = sl_structD [OF st, simplified]
  have anew: "a \<notin> set (header sl # xs @ ys)" using s1(2) a by fastforce
  have bk: "backed h None (xs @ a # ys)"
    by (rule backed_insert [OF s1(12) _ _ refl bp]) (use s1(1) anew in auto)
  have hi: "map_option forward (level_at h (header sl) i) = Some None" if "L \<le> i" "i < maxLevel" for i
    using above [OF that(1), of "header sl"] anew s1(10) that by simp
  have fresh: "h x = None" if "a + 1 \<le> x" for x
  proof -
    have "x \<notin> dom h" using dom s1(3) [of x] that a by auto
    then show ?thesis by (simp add: domIff)
  qed
  have tl': "t = Some (last (a # ys))" using tl s1(13) by auto
  have els: "Member (el h (header sl)) = []" using el s1(5) anew by auto
  have lk': "linked h L (header sl # xs @ a # ys)" using lk by simp
  show ?thesis
    unfolding sl_struct_def
    using s1(1,2,4,6,7,8,9,14) anew ht lk' bk hi fresh tl' els lv a by (auto simp: less_Suc_eq)
qed

lemma insert_struct:
  assumes st: "sl_struct sl (xs @ ys)"
    and xs: "\<And>x. x \<in> set xs \<Longrightarrow> key_before (Score (el (mem sl) x)) (Member (el (mem sl) x)) sc m"
    and ys: "\<And>y. y \<in> set ys \<Longrightarrow> \<not> key_before (Score (el (mem sl) y)) (Member (el (mem sl) y)) sc m"
    and lv: "randomLevel rnd = Some lv" "1 \<le> lv" "lv \<le> maxLevel"
  shows "\<exists>sl'. insert sl m sc rnd = Some (sl', brk sl) \<and> sl_struct sl' (xs @ brk sl # ys) \<and>
    el (mem sl') = (el (mem sl))(brk sl := \<lparr>Member = m, Score = sc\<rparr>)"
proof -
  let ?H = "header sl" and ?L = "sllevel sl" and ?a = "brk sl"
  define k where "k = lv - ?L"
  define L' where "L' = max lv ?L"
  have kL: "?L + k = L'" "L' \<le> maxLevel" using sl_structD(7) [OF st] lv(3) by (auto simp: k_def L'_def)
  obtain us rs h1 where sc: "scan (mem sl) (\<lambda>n r. key_before (Score n) (Member n) sc m) ?L ?H 0 = Some (us, rs)"
    and len: "length us = ?L" "length rs = ?L" and h1: "open_levels (mem sl) ?H (sllength sl) ?L k = Some h1" "same_shape (mem sl) h1"
    and st1: "sl_struct (sl\<lparr>mem := h1, sllevel := L'\<rparr>) (xs @ ys)"
    and up0: "\<And>i. i < L' \<Longrightarrow> last_at h1 i ((us @ replicate k ?H) ! i) ((rs @ replicate k 0) ! i) (?H # xs)"
    using insert_descend [OF st _ xs ys, of k, unfolded kL(1), OF kL(2)] by blast
  define U where "U = us @ replicate k ?H"
  define R where "R = rs @ replicate k (0 :: int)"
  have sh: "ht h1 = ht (mem sl)" "el h1 = el (mem sl)" "backp h1 = backp (mem sl)" "dom h1 = dom (mem sl)"
    using h1(2) by (auto simp: same_shape_def)
  note up = up0 [folded U_def R_def]
  have lenU: "length U = L'" "length R = L'" using len kL by (simp_all add: U_def R_def)
  note s1 = sl_structD [OF st1, simplified]
  have a1: "h1 ?a = None" using s1(3) by simp
  have anew: "?a \<notin> set (?H # xs @ ys)" using s1(2) by fastforce
  have lv': "lv \<le> L'" and L'0: "0 < L'" using lv(2) by (simp_all add: L'_def)
  have ht1: "\<forall>z\<in>set (?H # xs). 1 \<le> ht h1 z" using s1(4,8) by (auto simp: maxLevel_def)
  obtain h3 h4 where h34: "link_levels (h1(?a \<mapsto> makeNode lv sc m)) ?a U R 0 lv = Some h3" "bump_levels h3 U lv (L' - lv) = Some h4"
    and sh4: "ht h4 = (ht h1)(?a := lv)" "el h4 = (el h1)(?a := \<lparr>Member = m, Score = sc\<rparr>)"
      "backp h4 = (backp h1)(?a := None)" "dom h4 = Set.insert ?a (dom h1)"
    and lk4: "linked h4 L' ((?H # xs) @ ?a # ys)" and above: "\<And>y j. L' \<le> j \<Longrightarrow> y \<noteq> ?a \<Longrightarrow> level_at h4 y j = level_at h1 y j"
    by (rule link_new_node [of h1 L' "?H # xs" ys ?a lv U R sc m])
      (use s1(1,11) anew a1 ht1 lv(2) lv' lenU up in auto)
  have u0: "U ! 0 = last (?H # xs)" using last_at_0(1) [OF up [OF L'0]] ht1 by simp
  have "?H \<notin> set xs" using s1(1) by auto
  then have u0H: "U ! 0 = ?H \<longleftrightarrow> xs = []" using u0 last_in_set [of xs] by (cases "xs = []") (simp, metis last_ConsR)
  let ?bp = "if U ! 0 = ?H then None else Some (U ! 0)"
  have pos: "0 < ht h4 ?a" "\<forall>y\<in>set ys. 1 \<le> ht h4 y" "?a \<in> dom h4" using s1(8) sh4(1,4) lv(2) by auto
  obtain h5 f0 h6 tl where h5: "set_backward h4 ?a ?bp = Some h5" "level_at h5 ?a 0 = Some f0"
    and h6: "(case forward f0 of None \<Rightarrow> Some (h5, Some ?a)
        | Some y \<Rightarrow> do { h2 \<leftarrow> set_backward h5 y (Some ?a); Some (h2, tail sl) }) = Some (h6, tl)"
      "level_at h6 = level_at h4" "ht h6 = ht h4" "el h6 = el h4" "dom h6 = dom h4"
      "backp h6 = (if ys = [] then (backp h4)(?a := ?bp) else (backp h4)(?a := ?bp, hd ys := Some ?a))"
      "tl = (if ys = [] then Some ?a else tail sl)"
    by (rule set_back_new [OF lk4 L'0 pos])
  let ?sl' = "sl\<lparr>mem := h6, brk := ?a + 1, tail := tl, sllength := sllength sl + 1, sllevel := L'\<rparr>"
  have "insert sl m sc rnd = Some (?sl', ?a)"
    by (simp add: insert_def Let_def sc lv(1) k_def [symmetric] U_def [symmetric] R_def [symmetric]
        L'_def [symmetric] h1(1) h34 idx_Some lenU(1) L'0 h5 h6(1) split del: if_split)
  moreover have "el (mem ?sl') = (el (mem sl))(?a := \<lparr>Member = m, Score = sc\<rparr>)"
    using h6(4) sh4(2) sh(2) by simp
  moreover have "sl_struct ?sl' (xs @ ?a # ys)"
  proof (rule sl_struct_linked_in [OF st1 refl lv(2) lv'])
    show "linked h6 L' ((?H # xs) @ ?a # ys)" using lk4 by (simp only: linked_same [OF h6(2,3)])
    show "backp h6 = (if ys = [] then backp h1 else (backp h1)(hd ys := Some ?a))
        (?a := (if xs = [] then None else Some (last xs)))"
      using h6(6) sh4(3) u0H u0 anew by (cases ys) (auto simp: fun_upd_twist)
  qed (use h6 sh4 above in simp_all)
  ultimately show ?thesis by blast
qed

section \<open>removeNode\<close>

text \<open>The state after the unlinking loop: \<open>a\<close> is skipped on every level.\<close>

lemma unlink_before:
  assumes ht': "ht h' = ht h" and ays: "a \<notin> set ys"
    and old: "level_at h x i = Some (nxt h i (q @ a # ys))" and pos: "u = x \<longleftrightarrow> (\<forall>z\<in>set q. ht h z \<le> i)"
    and ata: "i < ht h a \<Longrightarrow> level_at h a i = Some (nxt h i ys)"
    and lev: "level_at h' x i = (if x = u then
         map_option (\<lambda>l. if forward l = Some a
           then \<lparr>forward = forward (the (level_at h a i)), lspan = lspan l + (lspan (the (level_at h a i)) - 1)\<rparr>
           else l\<lparr>lspan := lspan l - 1\<rparr>) (level_at h x i)
       else level_at h x i)"
  shows "level_at h' x i = Some (nxt h' i (q @ ys))"
proof (cases "u = x")
  case True
  then have low: "\<forall>z\<in>set q. ht h z \<le> i" using pos by simp
  have new: "nxt h i (q @ ys) = (nxt h i ys)\<lparr>lspan := lspan (nxt h i ys) + int (length q)\<rparr>"
    by (rule nxt_skip [OF low])
  show ?thesis
  proof (cases "i < ht h a")
    case ia: True
    then show ?thesis using lev True old nxt_found [OF low ia, of ys] new ata by (simp add: nxt_ht_eq [OF ht'])
  next
    case False
    then have low2: "\<forall>z\<in>set (q @ [a]). ht h z \<le> i" using low by simp
    have "nxt h i (q @ a # ys) = (nxt h i ys)\<lparr>lspan := lspan (nxt h i ys) + (int (length q) + 1)\<rparr>"
      using nxt_skip [OF low2, of ys] by simp
    moreover have "forward (nxt h i ys) \<noteq> Some a" using nxt_forward_in ays by metis
    ultimately show ?thesis using lev True old new by (simp add: nxt_ht_eq [OF ht'])
  qed
next
  case False
  then have "\<exists>z\<in>set q. i < ht h z" using pos not_le by blast
  then have "nxt h i (q @ a # ys) = nxt h i (q @ ys)" using nxt_prefix by simp
  then show ?thesis using lev False old by (simp add: nxt_ht_eq [OF ht'])
qed

lemma unlink_linked:
  assumes old: "linked h L (Z @ a # ys)" and dist: "distinct (Z @ a # ys)"
    and ht': "ht h' = ht h" and Lmax: "ht h a \<le> L"
    and up: "\<And>i. i < L \<Longrightarrow> last_at h i (update ! i) (rank i) Z"
    and lev: "\<And>y j. j < L \<Longrightarrow> level_at h' y j =
      (if y = update ! j then
         map_option (\<lambda>l. if forward l = Some a
           then \<lparr>forward = forward (the (level_at h a j)), lspan = lspan l + (lspan (the (level_at h a j)) - 1)\<rparr>
           else l\<lparr>lspan := lspan l - 1\<rparr>) (level_at h y j)
       else level_at h y j)"
  shows "linked h' L (Z @ ys)"
proof (rule linkedI)
  fix p x q i
  assume z: "Z @ ys = p @ x # q" and i: "i < L" "i < ht h' x"
  have ix: "i < ht h x" using i ht' by simp
  have aZ: "a \<notin> set Z" "a \<notin> set ys" using dist by auto
  consider (before) q1 where "Z = p @ x # q1" "q = q1 @ ys" | (after) p2 where "ys = p2 @ x # q"
    using z by (auto simp: append_eq_append_conv2 append_eq_Cons_conv Cons_eq_append_conv)
  then show "level_at h' x i = Some (nxt h' i q)"
  proof cases
    case before
    have o: "level_at h x i = Some (nxt h i (q1 @ a # ys))"
      using linked_split [of h L p x "q1 @ a # ys" i] old before i(1) ix by simp
    have pos: "update ! i = x \<longleftrightarrow> (\<forall>z\<in>set q1. ht h z \<le> i)"
      using last_at_pos(1) [OF up [OF i(1)] _ before(1) ix] dist by auto
    have ata: "level_at h a i = Some (nxt h i ys)" if "i < ht h a"
      using linked_split [of h L Z a ys i] old i(1) that by simp
    show ?thesis unfolding before(2)
      by (rule unlink_before [OF ht' aZ(2) o pos ata lev [OF i(1)]])
  next
    case after
    have "update ! i \<noteq> x" using last_at_in [OF up [OF i(1)]] dist after by auto
    moreover have "level_at h x i = Some (nxt h i q)"
      using linked_split [of h L "Z @ a # p2" x q i] old after i(1) ix by simp
    ultimately show ?thesis using lev [OF i(1), of x] by (simp add: nxt_ht_eq [OF ht'])
  qed
qed

lemma backed_remove:
  assumes "backed h None (xs @ a # ys)" and "distinct (xs @ a # ys)"
    and "backp h' = (if ys = [] then backp h else (backp h)(hd ys := backp h a))"
  shows "backed h' None (xs @ ys)"
proof -
  let ?p = "if xs = [] then None else Some (last xs)"
  have o: "backed h None xs" "backp h a = ?p" "backed h (Some a) ys"
    using assms(1) by (simp_all add: backed_append)
  have "\<forall>x\<in>set xs. backp h' x = backp h x" using assms by (cases ys) auto
  then have "backed h' None xs" using backed_cong [of xs h' h None] o by simp
  moreover have "backed h' ?p ys"
  proof (cases ys)
    case (Cons y ys')
    then have "\<forall>x\<in>set ys'. backp h' x = backp h x" "backp h' y = ?p" using assms o by auto
    then show ?thesis using o(3) Cons backed_cong [of ys' h' h "Some y"] by simp
  qed simp
  ultimately show ?thesis by (simp add: backed_append)
qed

lemma forward_low:
  assumes lk: "linked h L (Z @ a # ys)" and dist: "distinct (Z @ a # ys)" and j: "j < L" "last_at h j u r Z"
    and f: "map_option forward (level_at h u j) = Some (Some a)"
  shows "j < ht h a"
proof (rule ccontr)
  obtain p q where z: "Z = p @ u # q" "j < ht h u" "\<forall>z\<in>set q. ht h z \<le> j" using j(2) by (auto simp: last_at_def)
  have e: "level_at h u j = Some (nxt h j (q @ a # ys))"
    using linked_split [of h L p u "q @ a # ys" j] lk z j(1) by simp
  assume "\<not> j < ht h a"
  then have "\<forall>w\<in>set (q @ [a]). ht h w \<le> j" using z(3) by auto
  from nxt_skip [OF this, of ys] have "forward (nxt h j ys) = Some a" using f e by simp
  then show False using nxt_forward_in [of h j ys a] dist by simp
qed

text \<open>What is left to check for the invariant after a node was taken out and the empty levels were dropped.\<close>

lemma sl_struct_taken_out:
  assumes st: "sl_struct sl (xs @ a # ys)" and same: "ht h = ht (mem sl)" "el h = el (mem sl)" "dom h = dom (mem sl)"
    and lk: "linked h (sllevel sl) ((header sl # xs) @ ys)"
    and l: "1 \<le> l" "l \<le> sllevel sl" "\<And>i. l \<le> i \<Longrightarrow> i < sllevel sl \<Longrightarrow> map_option forward (level_at h (header sl) i) = Some None"
    and above: "\<And>i. sllevel sl \<le> i \<Longrightarrow> level_at h (header sl) i = level_at (mem sl) (header sl) i"
    and bp: "backp h = (if ys = [] then backp (mem sl) else (backp (mem sl))(hd ys := backp (mem sl) a))"
    and tl: "t = (if ys = [] then backp (mem sl) a else tail sl)"
  shows "sl_struct (sl\<lparr>mem := h, tail := t, sllength := sllength sl - 1, sllevel := l\<rparr>) (xs @ ys)"
proof -
  note s = sl_structD [OF st]
  have lk2: "linked h (sllevel sl) (header sl # xs @ ys)" using lk by simp
  have low: "ht (mem sl) x \<le> l" if x: "x \<in> set (xs @ ys)" for x
  proof (rule ccontr)
    assume c: "\<not> ht (mem sl) x \<le> l"
    then have "l < sllevel sl" using s(9) [of x] x by auto
    then have "level_at h (header sl) l = Some (nxt h l (xs @ ys))" "map_option forward (level_at h (header sl) l) = Some None"
      using lk2 s(4,7) same(1) l(3) [of l] by auto
    then have "\<forall>z\<in>set (xs @ ys). ht h z \<le> l" by (simp add: nxt_forward_None)
    then show False using x c same(1) by auto
  qed
  have hi: "map_option forward (level_at h (header sl) i) = Some None" if "l \<le> i" "i < maxLevel" for i
    using above [of i] s(10) [of i] l(3) [of i] that by (cases "i < sllevel sl") simp_all
  have tl': "t = (if xs @ ys = [] then None else Some (last (xs @ ys)))"
    using tl s(12,13) by (auto simp: backed_append)
  have bk: "backed h None (xs @ ys)"
    by (rule backed_remove [OF s(12)]) (use s(1) bp in auto)
  have fresh: "h x = None" if "brk sl \<le> x" for x
    using s(3) [OF that] same(3) by (metis domIff)
  show ?thesis
    unfolding sl_struct_def
    using s(1,2,4,5,7,8,14) fresh low hi linked_mono [OF lk2 l(2)] bk tl' l(1,2) same by auto
qed

lemma removeNode_struct:
  assumes st: "sl_struct sl (xs @ a # ys)"
    and up: "\<And>i. i < sllevel sl \<Longrightarrow> i < length update \<and>
               last_at (mem sl) i (update ! i) (rank i) (header sl # xs)"
  shows "\<exists>sl'. removeNode sl a update = Some sl' \<and> sl_struct sl' (xs @ ys) \<and>
    el (mem sl') = el (mem sl) \<and> ht (mem sl') = ht (mem sl) \<and> header sl' = header sl \<and>
    sllevel sl' \<le> sllevel sl \<and> dom (mem sl') = dom (mem sl)"
proof -
  let ?h = "mem sl" and ?H = "header sl" and ?L = "sllevel sl"
  note s = sl_structD [OF st]
  have lk: "linked ?h ?L ((?H # xs) @ a # ys)" using s(11) by simp
  have dist: "distinct ((?H # xs) @ a # ys)" using s(1) by simp
  have hta: "1 \<le> ht ?h a" "ht ?h a \<le> ?L" using s(8,9) by auto
  have ua: "update ! i \<noteq> a" if "i < ?L" for i using last_at_in up [OF that] dist by fastforce
  have fa: "j < ht ?h a" if j: "j < ?L" and f: "map_option forward (level_at ?h (update ! j) j) = Some (Some a)" for j
    using forward_low [OF lk dist j _ f] up [OF j] by blast
  obtain h1 where h1: "unlink_levels ?h a update 0 ?L = Some h1" "same_shape ?h h1"
    "\<And>y j. level_at h1 y j =
      (if j < ?L \<and> y = update ! j then
         map_option (\<lambda>lv. if forward lv = Some a
           then \<lparr>forward = forward (the (level_at ?h a j)), lspan = lspan lv + (lspan (the (level_at ?h a j)) - 1)\<rparr>
           else lv\<lparr>lspan := lspan lv - 1\<rparr>) (level_at ?h y j)
       else level_at ?h y j)"
    using unlink_levels_spec [of 0 ?L update ?h a] up ua fa last_at_ht by fastforce
  have sh: "ht h1 = ht ?h" "el h1 = el ?h" "backp h1 = backp ?h" "dom h1 = dom ?h"
    using h1(2) by (auto simp: same_shape_def)
  have lk1: "linked h1 ?L ((?H # xs) @ ys)"
    by (rule unlink_linked [OF lk dist sh(1) hta(2), of update rank]) (use up h1(3) in auto)
  have a1: "level_at h1 a 0 = Some (nxt h1 0 ys)"
    using linked_split [OF lk, of 0] h1(3) [of a 0] ua [of 0] s(6) hta(1)
    by (simp add: nxt_ht_eq [OF sh(1)])
  then obtain n where n: "h1 a = Some n" "idx (levels n) 0 = Some (nxt h1 0 ys)"
    by (auto simp: level_at_def split: option.splits)
  have bn: "backward n = backp ?h a" using n(1) sh(3) by (metis backp_def option.sel)
  have L0: "0 < ?L" using s(6) by simp
  have hts: "\<forall>y\<in>set ys. 1 \<le> ht h1 y" using s(8) sh(1) by simp
  obtain h2 tl where h2: "(case forward (nxt h1 0 ys) of None \<Rightarrow> Some (h1, backward n)
        | Some y \<Rightarrow> do { h2 \<leftarrow> set_backward h1 y (backward n); Some (h2, tail sl) }) = Some (h2, tl)"
    "level_at h2 = level_at h1" "ht h2 = ht h1" "el h2 = el h1" "dom h2 = dom h1"
    "backp h2 = (if ys = [] then backp h1 else (backp h1)(hd ys := backward n))"
    "tl = (if ys = [] then backward n else tail sl)"
    using fix_forward [OF hts, of "backward n" "backward n" "tail sl"] by blast
  obtain l where l: "shrink_level h2 ?H ?L = Some l" "1 \<le> l" "l \<le> ?L"
    "\<And>i. l \<le> i \<Longrightarrow> i < ?L \<Longrightarrow> map_option forward (level_at h2 ?H i) = Some None"
    using shrink_level_spec [of ?L h2 ?H] s(4,6,7) h2(3) sh(1) by auto
  let ?sl' = "sl\<lparr>mem := h2, tail := tl, sllength := sllength sl - 1, sllevel := l\<rparr>"
  have "removeNode sl a update = Some ?sl'"
    by (simp add: removeNode_def h1(1) n h2(1) l(1))
  moreover have "sl_struct ?sl' (xs @ ys)"
  proof (rule sl_struct_taken_out [OF st _ _ _ _ l(2,3,4)])
    show "linked h2 ?L ((?H # xs) @ ys)" using lk1 by (simp only: linked_same [OF h2(2,3)])
  qed (use h2 h1(3) sh bn in simp_all)
  ultimately show ?thesis using h2(3-5) sh l(3) by auto
qed

end
