(* ===== verification/SkipListFun.thy ===== *)
theory SkipListFun
  imports SkipListOps
begin

text \<open>
  The functional behaviour of every skip-list operation, on the sorted list of elements the list
  represents. \<open>sl_reps sl as es\<close> gives both views: the addresses \<open>as\<close> in order and the elements \<open>es\<close>
  they hold; each lemma says what the code returns (never \<^term>\<open>None\<close>: no nil dereference, no index
  out of range, no endless loop) and which list it leaves.
\<close>

definition sl_reps :: "skiplist \<Rightarrow> addr list \<Rightarrow> Element list \<Rightarrow> bool" where
  "sl_reps sl as es \<longleftrightarrow> sl_struct sl as \<and> es = map (el (mem sl)) as \<and> elems_ok es"

lemma sl_rep_iff: "sl_rep sl es \<longleftrightarrow> (\<exists>as. sl_reps sl as es)"
  by (simp add: sl_rep_def sl_reps_def)

lemma sl_repsD:
  assumes "sl_reps sl as es"
  shows "sl_struct sl as" "es = map (el (mem sl)) as" "elems_ok es" "length as = length es"
    "sllength sl = int (length es)"
  using assms sl_structD(14) by (auto simp: sl_reps_def)

section \<open>The order of the elements\<close>

lemma elem_less_irrefl [simp]: "\<not> elem_less e e"
  by (simp add: elem_less_def key_before_def f64_eq_def)

lemma elem_less_trans: "elem_less a b \<Longrightarrow> elem_less b c \<Longrightarrow> elem_less a c"
  by (auto simp: elem_less_def key_before_def f64_eq_def dest: f64_less_trans less_trans)

lemma elem_less_total:
  "Score a \<noteq> NaN \<Longrightarrow> Score b \<noteq> NaN \<Longrightarrow> elem_less a b \<or> a = b \<or> elem_less b a"
  using f64_total [of "Score a" "Score b"]
  by (cases a; cases b) (auto simp: elem_less_def key_before_def f64_eq_def)

lemma elem_less_asym: "elem_less a b \<Longrightarrow> \<not> elem_less b a"
  using elem_less_trans elem_less_irrefl by blast

lemma key_upto_iff:
  "Score a \<noteq> NaN \<Longrightarrow> key_upto (Score a) (Member a) (Score b) (Member b) \<longleftrightarrow> elem_less a b \<or> a = b"
  by (cases a; cases b) (auto simp: key_upto_def elem_less_def key_before_def f64_eq_def)

lemma elem_less_Score: "elem_less a b \<Longrightarrow> Score a \<le> Score b"
  by (auto simp: elem_less_def key_before_def f64_eq_def f64_le_iff)

lemma elems_ok_Nil [simp]: "elems_ok []"
  by (simp add: elems_ok_def)

lemma elems_ok_Cons:
  "elems_ok (e # es) \<longleftrightarrow> Score e \<noteq> NaN \<and> (\<forall>x\<in>set es. elem_less e x) \<and> elems_ok es"
  by (auto simp: elems_ok_def)

lemma elems_ok_append:
  "elems_ok (xs @ ys) \<longleftrightarrow> elems_ok xs \<and> elems_ok ys \<and> (\<forall>x\<in>set xs. \<forall>y\<in>set ys. elem_less x y)"
  by (auto simp: elems_ok_def sorted_wrt_append)

lemma elems_ok_distinct: "elems_ok es \<Longrightarrow> distinct es"
  by (induction es) (auto simp: elems_ok_Cons)

lemma elems_ok_Score_mono:
  assumes "elems_ok es" "i \<le> j" "j < length es"
  shows "Score (es ! i) \<le> Score (es ! j)"
proof (cases "i = j")
  case True
  then show ?thesis using assms by (auto simp: elems_ok_def f64_le_iff)
next
  case False
  then show ?thesis using assms elem_less_Score sorted_wrt_nth_less [of elem_less es i j]
    by (simp add: elems_ok_def)
qed

text \<open>A predicate that the order turns off for good splits the list in two.\<close>

definition down_closed :: "(Element \<Rightarrow> bool) \<Rightarrow> Element list \<Rightarrow> bool" where
  "down_closed P es \<longleftrightarrow> (\<forall>a\<in>set es. \<forall>b\<in>set es. elem_less a b \<longrightarrow> P b \<longrightarrow> P a)"

lemma down_closed_split:
  assumes "elems_ok es" "down_closed P es"
  shows "\<forall>y\<in>set (dropWhile P es). \<not> P y"
  using assms
proof (induction es)
  case (Cons e es)
  then have IH: "\<forall>y\<in>set (dropWhile P es). \<not> P y" by (auto simp: elems_ok_Cons down_closed_def)
  show ?case
  proof (cases "P e")
    case False
    then have "\<forall>y\<in>set es. \<not> P y" using Cons.prems by (auto simp: elems_ok_Cons down_closed_def)
    with False show ?thesis by simp
  qed (use IH in simp)
qed simp

lemma down_closed_filter:
  assumes "elems_ok es" "down_closed P es"
  shows "takeWhile P es = filter P es" "dropWhile P es = filter (\<lambda>e. \<not> P e) es"
proof -
  have e: "es = takeWhile P es @ dropWhile P es" by simp
  have t: "\<forall>x\<in>set (takeWhile P es). P x" using set_takeWhileD by fastforce
  have d: "\<forall>y\<in>set (dropWhile P es). \<not> P y" by (rule down_closed_split [OF assms])
  have "filter P es = filter P (takeWhile P es @ dropWhile P es)" by simp
  also have "\<dots> = takeWhile P es" using t d by (simp del: takeWhile_dropWhile_id)
  finally show "takeWhile P es = filter P es" by simp
  have "filter (\<lambda>e. \<not> P e) es = filter (\<lambda>e. \<not> P e) (takeWhile P es @ dropWhile P es)" by simp
  also have "\<dots> = dropWhile P es" using t d by (simp del: takeWhile_dropWhile_id)
  finally show "dropWhile P es = filter (\<lambda>e. \<not> P e) es" by simp
qed

lemma down_closed_elem_less: "down_closed (\<lambda>x. elem_less x e) es"
  by (auto simp: down_closed_def intro: elem_less_trans)

lemma down_closed_upto: "down_closed (\<lambda>x. elem_less x e \<or> x = e) es"
  by (auto simp: down_closed_def intro: elem_less_trans)

lemma down_closed_not_less: "down_closed (\<lambda>e. \<not> less mn (Score e)) es"
proof -
  have "less mn (Score a) \<Longrightarrow> elem_less a b \<Longrightarrow> less mn (Score b)" for a b
    using elem_less_Score [of a b] f64_less_le_trans f64_le_trans by (auto simp: less_def split: if_splits)
  then show ?thesis by (auto simp: down_closed_def)
qed

lemma down_closed_greater: "down_closed (\<lambda>e. greater mx (Score e)) es"
proof -
  have "greater mx (Score b) \<Longrightarrow> elem_less a b \<Longrightarrow> greater mx (Score a)" for a b
    using elem_less_Score [of a b] f64_le_less_trans f64_le_trans by (auto simp: greater_def split: if_splits)
  then show ?thesis by (auto simp: down_closed_def)
qed

section \<open>The descent on elements\<close>

text \<open>
  A descent whose condition depends on the element only and is down-closed stops, on every level,
  at the last node of the prefix on which the condition holds.
\<close>

lemma scan_elems:
  assumes r: "sl_reps sl as es" and P: "down_closed P es" and c: "\<And>n q. c n q = P (element_of n)"
  defines "k \<equiv> length (takeWhile P es)"
  shows "\<exists>us rs. scan (mem sl) c (sllevel sl) (header sl) 0 = Some (us, rs) \<and>
    length us = sllevel sl \<and> length rs = sllevel sl \<and>
    (\<forall>i<sllevel sl. last_at (mem sl) i (us ! i) (rs ! i) (header sl # take k as))"
proof -
  note rr = sl_repsD [OF r]
  have split: "as = take k as @ drop k as" by simp
  have el: "map (el (mem sl)) (take k as) = takeWhile P es" "map (el (mem sl)) (drop k as) = dropWhile P es"
    using rr(2) by (simp_all add: k_def take_map [symmetric] drop_map [symmetric] takeWhile_eq_take [symmetric]
        dropWhile_eq_drop [symmetric])
  have "\<forall>x\<in>set (take k as). P (el (mem sl) x)" using el(1) set_takeWhileD by (metis (no_types, lifting) imageI list.set_map)
  moreover have "\<forall>x\<in>set (drop k as). \<not> P (el (mem sl) x)"
    using el(2) down_closed_split [OF rr(3) P] by (metis (no_types, lifting) imageI list.set_map)
  ultimately show ?thesis
    using scan_header [of sl "take k as" "drop k as" c] rr(1) split by (simp add: c el_def)
qed

lemma struct_forward0:
  assumes st: "sl_struct sl as" and k: "k \<le> length as" and x: "x = last (header sl # take k as)"
  shows "\<exists>f0. level_at (mem sl) x 0 = Some f0 \<and> forward f0 = (if k < length as then Some (as ! k) else None)"
proof -
  note s = sl_structD [OF st]
  obtain p where p: "header sl # take k as = p @ [x]"
    using x by (metis append_butlast_last_id list.distinct(1))
  then have z: "header sl # as = p @ x # drop k as"
    by (metis append.assoc append_Cons append_Nil append_take_drop_id)
  have "x \<in> set (header sl # as)" using z by simp
  then have "0 < ht (mem sl) x" using s(4,8) by (fastforce simp: maxLevel_def)
  then have "level_at (mem sl) x 0 = Some (nxt (mem sl) 0 (drop k as))"
    using linked_split [of "mem sl" "sllevel sl" p x "drop k as" 0] s(6,11) z by simp
  moreover have "forward (nxt (mem sl) 0 (drop k as)) = (if k < length as then Some (as ! k) else None)"
  proof (cases "k < length as")
    case True
    then have "drop k as = as ! k # drop (Suc k) as" by (simp add: Cons_nth_drop_Suc)
    moreover have "0 < ht (mem sl) (as ! k)" using s(8) True by (simp add: Suc_le_eq)
    ultimately show ?thesis using True by simp
  qed simp
  ultimately show ?thesis by blast
qed

text \<open>The node at a position holds the element at that position.\<close>

lemma reps_node:
  assumes "sl_reps sl as es" "k < length es"
  shows "\<exists>n. mem sl (as ! k) = Some n \<and> element_of n = es ! k \<and> Score n = Score (es ! k) \<and>
    Member n = Member (es ! k)"
proof -
  note r = sl_repsD [OF assms(1)]
  have "as ! k \<in> set as" using assms(2) r(4) by simp
  then have "as ! k \<in> dom (mem sl)" using sl_struct_dom [OF r(1)] by auto
  then obtain n where "mem sl (as ! k) = Some n" by blast
  moreover have "es ! k = el (mem sl) (as ! k)" using r(2,4) assms(2) by simp
  ultimately show ?thesis by (simp add: el_def element_of_def)
qed

text \<open>
  \<open>upd_ok\<close>: the array \<^verbatim>\<open>update\<close> holds, for every level in use, the last node before a position.
\<close>

definition upd_ok :: "skiplist \<Rightarrow> addr list \<Rightarrow> addr list \<Rightarrow> bool" where
  "upd_ok sl update pre \<longleftrightarrow>
     (\<exists>rank. \<forall>i<sllevel sl. i < length update \<and> last_at (mem sl) i (update ! i) (rank i) (header sl # pre))"

text \<open>The list cut at a position: what the descents need to know of the two parts.\<close>

lemma reps_cut:
  assumes "sl_reps sl as es"
  shows "linked (mem sl) (sllevel sl) ((header sl # take k as) @ drop k as)"
    "set ((header sl # take k as) @ drop k as) \<subseteq> dom (mem sl)"
    "\<forall>z\<in>set (header sl # take k as). 1 \<le> ht (mem sl) z" "distinct (header sl # take k as)"
proof -
  note st = sl_repsD(1) [OF assms] and s = sl_structD [OF sl_repsD(1) [OF assms]]
  have z: "(header sl # take k as) @ drop k as = header sl # as" by simp
  show "linked (mem sl) (sllevel sl) ((header sl # take k as) @ drop k as)" unfolding z by (rule s(11))
  show "set ((header sl # take k as) @ drop k as) \<subseteq> dom (mem sl)" unfolding z by (rule sl_struct_dom [OF st])
  show "\<forall>z\<in>set (header sl # take k as). 1 \<le> ht (mem sl) z"
    using s(4,8) set_take_subset [of k as] by (auto simp: maxLevel_def)
  show "distinct (header sl # take k as)" using s(1) set_take_subset [of k as] by auto
qed

lemma scan_elems0:
  assumes r: "sl_reps sl as es" and P: "down_closed P es" and c: "\<And>n q. c n q = P (element_of n)"
    and k: "k = length (takeWhile P es)"
  shows "\<exists>us rs f0. scan (mem sl) c (sllevel sl) (header sl) 0 = Some (us, rs) \<and> upd_ok sl us (take k as) \<and>
    idx us 0 = Some (last (header sl # take k as)) \<and>
    level_at (mem sl) (last (header sl # take k as)) 0 = Some f0 \<and>
    forward f0 = (if k < length as then Some (as ! k) else None)"
proof -
  note rr = sl_repsD [OF r] and s = sl_structD [OF sl_repsD(1) [OF r]]
  obtain us rs where u: "scan (mem sl) c (sllevel sl) (header sl) 0 = Some (us, rs)"
    "length us = sllevel sl" "\<forall>i<sllevel sl. last_at (mem sl) i (us ! i) (rs ! i) (header sl # take k as)"
    using scan_elems [of sl as es P c, OF r P c] by (auto simp: k)
  have L0: "0 < sllevel sl" using s(6) by simp
  then have "us ! 0 = last (header sl # take k as)" using last_at_0(1) [OF _ reps_cut(3) [OF r]] u(3) by blast
  then have "idx us 0 = Some (last (header sl # take k as))" using u(2) L0 by (simp add: idx_Some)
  moreover have "k \<le> length as" using rr(4) length_takeWhile_le by (simp add: k)
  moreover have "upd_ok sl us (take k as)" unfolding upd_ok_def using u(2,3) by (intro exI [of _ "\<lambda>i. rs ! i"]) auto
  ultimately show ?thesis
    using u(1) struct_forward0 [OF rr(1), of k "last (header sl # take k as)"] by blast
qed

section \<open>insert and remove\<close>

definition ins_elem :: "Element \<Rightarrow> Element list \<Rightarrow> Element list" where
  "ins_elem e es = takeWhile (\<lambda>x. elem_less x e) es @ e # dropWhile (\<lambda>x. elem_less x e) es"

lemma set_ins_elem: "set (ins_elem e es) = Set.insert e (set es)"
proof -
  have "set es = set (takeWhile (\<lambda>x. elem_less x e) es @ dropWhile (\<lambda>x. elem_less x e) es)" by simp
  then show ?thesis unfolding ins_elem_def set_append by auto
qed

lemma length_ins_elem [simp]: "length (ins_elem e es) = Suc (length es)"
proof -
  have "length es = length (takeWhile (\<lambda>x. elem_less x e) es @ dropWhile (\<lambda>x. elem_less x e) es)" by simp
  then show ?thesis unfolding ins_elem_def length_append by simp
qed

lemma elems_ok_mid:
  "elems_ok T \<Longrightarrow> elems_ok D \<Longrightarrow> (\<forall>x\<in>set T. \<forall>y\<in>set D. elem_less x y) \<Longrightarrow> (\<forall>x\<in>set T. elem_less x e) \<Longrightarrow>
   (\<forall>y\<in>set D. elem_less e y) \<Longrightarrow> Score e \<noteq> NaN \<Longrightarrow> elems_ok (T @ e # D)"
  by (auto simp: elems_ok_append elems_ok_Cons)

lemma elems_ok_ins_elem:
  assumes ok: "elems_ok es" and e: "Score e \<noteq> NaN" "e \<notin> set es"
  shows "elems_ok (ins_elem e es)"
proof -
  let ?P = "\<lambda>x. elem_less x e"
  have "elems_ok (takeWhile ?P es @ dropWhile ?P es)" using ok by simp
  then have s: "elems_ok (takeWhile ?P es) \<and> elems_ok (dropWhile ?P es) \<and>
    (\<forall>x\<in>set (takeWhile ?P es). \<forall>y\<in>set (dropWhile ?P es). elem_less x y)"
    unfolding elems_ok_append .
  have t: "\<forall>x\<in>set (takeWhile ?P es). elem_less x e" using set_takeWhileD by fastforce
  have "elem_less e y" if "y \<in> set (dropWhile ?P es)" for y
  proof -
    have "y \<in> set es" using that by (rule set_dropWhileD)
    moreover have "\<not> elem_less y e" using down_closed_split [OF ok down_closed_elem_less] that by blast
    moreover have "Score y \<noteq> NaN" using calculation(1) ok by (auto simp: elems_ok_def)
    ultimately show ?thesis using elem_less_total [of y e] e by auto
  qed
  then show ?thesis unfolding ins_elem_def by (intro elems_ok_mid ballI) (use s t e(1) in blast)+
qed

lemma randomLevel_loop_pos:
  "1 \<le> l0 \<Longrightarrow> l0 + int (length rs) < 2 ^ 15 \<Longrightarrow> randomLevel_loop l0 rs = Some l \<Longrightarrow> 1 \<le> l"
proof (induction rs arbitrary: l0)
  case (Cons r rs)
  then show ?case using Cons.IH [of "l0 + 1"] by (auto simp: i16_id split: if_splits)
qed simp

lemma randomLevel_bounds:
  assumes "randomLevel rs = Some lv" and "length rs < 2 ^ 15 - 1"
  shows "1 \<le> lv \<and> lv \<le> maxLevel"
proof -
  obtain l where "randomLevel_loop 1 rs = Some l"
    using assms(1) by (auto simp: randomLevel_def split: option.splits)
  moreover from this have "1 \<le> l" using randomLevel_loop_pos [of 1 rs l] assms(2) by simp
  ultimately show ?thesis
    using assms(1) by (auto simp: randomLevel_def maxLevel_def split: if_splits)
qed

text \<open>The draws of one call are usable if the loop ends before \<^verbatim>\<open>int16\<close> can wrap.\<close>

definition draws_ok :: "nat list \<Rightarrow> bool" where
  "draws_ok rs \<longleftrightarrow> length rs < 2 ^ 15 - 1 \<and> list_ex (\<lambda>r. \<not> low_draw r) rs"

lemma draws_ok_level: "draws_ok rs \<Longrightarrow> \<exists>lv. randomLevel rs = Some lv \<and> 1 \<le> lv \<and> lv \<le> maxLevel"
proof -
  assume ok: "draws_ok rs"
  have "list_ex (\<lambda>r. \<not> low_draw r) rs \<Longrightarrow> \<exists>l. randomLevel_loop l0 rs = Some l" for l0 rs
    by (induction rs arbitrary: l0) auto
  then obtain l where l: "randomLevel_loop 1 rs = Some l" using ok by (auto simp: draws_ok_def)
  have "1 \<le> l" using randomLevel_loop_pos [OF _ _ l] ok by (simp add: draws_ok_def)
  then have "\<exists>lv. randomLevel rs = Some lv" using l by (auto simp: randomLevel_def)
  then show ?thesis using randomLevel_bounds ok by (auto simp: draws_ok_def)
qed

lemma insert_reps:
  assumes r: "sl_reps sl as es" and sc: "sc \<noteq> NaN" and new: "\<lparr>Member = m, Score = sc\<rparr> \<notin> set es"
    and d: "draws_ok rnd"
  shows "\<exists>sl' as' a. insert sl m sc rnd = Some (sl', a) \<and>
    sl_reps sl' as' (ins_elem \<lparr>Member = m, Score = sc\<rparr> es)"
proof -
  let ?e = "\<lparr>Member = m, Score = sc\<rparr>" and ?h = "mem sl"
  let ?P = "\<lambda>x. elem_less x ?e"
  note rr = sl_repsD [OF r]
  obtain lv where lv: "randomLevel rnd = Some lv" "1 \<le> lv" "lv \<le> maxLevel" using draws_ok_level [OF d] by blast
  define k where "k = length (takeWhile ?P es)"
  have el: "map (el ?h) (take k as) = takeWhile ?P es" "map (el ?h) (drop k as) = dropWhile ?P es"
    using rr(2) by (simp_all add: k_def take_map [symmetric] drop_map [symmetric] takeWhile_eq_take [symmetric]
        dropWhile_eq_drop [symmetric])
  have x: "key_before (Score (el ?h x)) (Member (el ?h x)) sc m" if "x \<in> set (take k as)" for x
  proof -
    have "el ?h x \<in> set (takeWhile ?P es)" using el(1) that by (metis (no_types, lifting) imageI list.set_map)
    then show ?thesis by (auto dest: set_takeWhileD simp: elem_less_def)
  qed
  have y: "\<not> key_before (Score (el ?h y)) (Member (el ?h y)) sc m" if "y \<in> set (drop k as)" for y
  proof -
    have "el ?h y \<in> set (dropWhile ?P es)" using el(2) that by (metis (no_types, lifting) imageI list.set_map)
    from bspec [OF down_closed_split [OF rr(3) down_closed_elem_less [of ?e]] this]
    show ?thesis by (simp add: elem_less_def)
  qed
  have st: "sl_struct sl (take k as @ drop k as)" using rr(1) by simp
  obtain sl' where sl': "insert sl m sc rnd = Some (sl', brk sl)"
    "sl_struct sl' (take k as @ brk sl # drop k as)" "el (mem sl') = (el ?h)(brk sl := ?e)"
    using insert_struct [OF st x y lv] by blast
  have fresh: "brk sl \<notin> set as" using sl_structD(2) [OF rr(1)] by fastforce
  have "map (el (mem sl')) (take k as @ brk sl # drop k as) = ins_elem ?e es"
  proof -
    have "map (el (mem sl')) (take k as) = takeWhile ?P es" "map (el (mem sl')) (drop k as) = dropWhile ?P es"
      using el fresh sl'(3) set_take_subset [of k as] set_drop_subset [of k as]
      by (auto simp: map_fun_upd intro!: trans [OF map_fun_upd])
    then show ?thesis using sl'(3) by (simp add: ins_elem_def)
  qed
  moreover have "elems_ok (ins_elem ?e es)" by (rule elems_ok_ins_elem [OF rr(3) _ new]) (simp add: sc)
  ultimately show ?thesis using sl'(1,2) by (auto simp: sl_reps_def)
qed

lemma removeNode_reps:
  assumes r: "sl_reps sl as es" and k: "k < length es" and u: "upd_ok sl update (take k as)"
  shows "\<exists>sl'. removeNode sl (as ! k) update = Some sl' \<and>
    sl_reps sl' (take k as @ drop (Suc k) as) (take k es @ drop (Suc k) es) \<and>
    upd_ok sl' update (take k as)"
proof -
  note rr = sl_repsD [OF r]
  have as: "as = take k as @ as ! k # drop (Suc k) as" using k rr(4) by (simp add: id_take_nth_drop)
  have es: "es = take k es @ es ! k # drop (Suc k) es" using k by (simp add: id_take_nth_drop)
  obtain rank where up: "\<And>i. i < sllevel sl \<Longrightarrow> i < length update \<and>
      last_at (mem sl) i (update ! i) (rank i) (header sl # take k as)"
    using u by (auto simp: upd_ok_def)
  have st: "sl_struct sl (take k as @ as ! k # drop (Suc k) as)" using rr(1) as by simp
  obtain sl' where sl': "removeNode sl (as ! k) update = Some sl'"
    "sl_struct sl' (take k as @ drop (Suc k) as)" "el (mem sl') = el (mem sl)" "ht (mem sl') = ht (mem sl)"
    "header sl' = header sl" "sllevel sl' \<le> sllevel sl"
    using removeNode_struct [OF st up] by blast
  have "elems_ok (take k es @ drop (Suc k) es)"
    using rr(3) es by (metis elems_ok_append elems_ok_Cons list.set_intros(2))
  moreover have "map (el (mem sl')) (take k as @ drop (Suc k) as) = take k es @ drop (Suc k) es"
    using rr(2) sl'(3) by (simp add: take_map drop_map)
  moreover have "upd_ok sl' update (take k as)"
    unfolding upd_ok_def last_at_shape [OF sl'(4)] using up sl'(5,6) by (intro exI [of _ rank]) auto
  ultimately show ?thesis using sl'(1,2) by (auto simp: sl_reps_def)
qed

lemma dropWhile_nth0:
  assumes "length (takeWhile P es) < length es"
  shows "\<not> P (es ! length (takeWhile P es))"
  using assms nth_length_takeWhile by blast

lemma removed_elem:
  assumes ok: "elems_ok es" and k: "k = length (takeWhile (\<lambda>x. elem_less x e) es)"
  shows "k < length es \<Longrightarrow> es ! k = e \<Longrightarrow> filter (\<lambda>x. x \<noteq> e) es = take k es @ drop (Suc k) es"
    and "k < length es \<Longrightarrow> es ! k \<noteq> e \<Longrightarrow> e \<notin> set es" and "length es \<le> k \<Longrightarrow> e \<notin> set es"
proof -
  have T: "\<forall>x\<in>set (take k es). elem_less x e"
    unfolding k takeWhile_eq_take [symmetric] using set_takeWhileD by fastforce
  show "e \<notin> set es" if "length es \<le> k" using T that by auto
  assume l: "k < length es"
  have es: "es = take k es @ es ! k # drop (Suc k) es" using l by (simp add: id_take_nth_drop)
  then have ok': "elems_ok (take k es @ es ! k # drop (Suc k) es)" using ok by simp
  show "filter (\<lambda>x. x \<noteq> e) es = take k es @ drop (Suc k) es" if "es ! k = e"
  proof -
    have "e \<notin> set (take k es)" "e \<notin> set (drop (Suc k) es)" using ok' that by (auto simp: elems_ok_append elems_ok_Cons)
    then have "filter (\<lambda>x. x \<noteq> e) (take k es @ es ! k # drop (Suc k) es) = take k es @ drop (Suc k) es"
      using that by (simp add: filter_neq_id)
    then show ?thesis using es by simp
  qed
  show "e \<notin> set es" if miss: "es ! k \<noteq> e"
  proof -
    have "\<not> elem_less (es ! k) e" using dropWhile_nth0 [of "\<lambda>x. elem_less x e" es] l by (simp add: k)
    then have "e \<notin> set (drop (Suc k) es)" using ok' by (auto simp: elems_ok_append elems_ok_Cons)
    then have "e \<notin> set (take k es @ es ! k # drop (Suc k) es)" using T miss by auto
    then show ?thesis using es by simp
  qed
qed

lemma remove_reps:
  assumes r: "sl_reps sl as es" and sc: "sc \<noteq> NaN"
  shows "\<exists>sl' as'. remove sl m sc = Some (sl', \<lparr>Member = m, Score = sc\<rparr> \<in> set es) \<and>
    sl_reps sl' as' (filter (\<lambda>x. x \<noteq> \<lparr>Member = m, Score = sc\<rparr>) es)"
proof -
  let ?e = "\<lparr>Member = m, Score = sc\<rparr>"
  define k where "k = length (takeWhile (\<lambda>x. elem_less x ?e) es)"
  note rr = sl_repsD [OF r]
  note taken = removed_elem [OF rr(3) k_def]
  have c: "key_before (Score n) (Member n) sc m = elem_less (element_of n) ?e" for n :: node
    by (simp add: elem_less_def element_of_def)
  obtain us rs f0 where s: "scan (mem sl) (\<lambda>n r. key_before (Score n) (Member n) sc m) (sllevel sl) (header sl) 0 = Some (us, rs)"
    "upd_ok sl us (take k as)" "idx us 0 = Some (last (header sl # take k as))"
    "level_at (mem sl) (last (header sl # take k as)) 0 = Some f0"
    "forward f0 = (if k < length as then Some (as ! k) else None)"
    using scan_elems0 [OF r down_closed_elem_less c k_def] by blast
  show ?thesis
  proof (cases "k < length es")
    case False
    then have "?e \<notin> set es" using taken(3) by simp
    then show ?thesis using s r False rr(4) by (auto simp: remove_def filter_neq_id)
  next
    case True
    obtain n where n: "mem sl (as ! k) = Some n" "Score n = Score (es ! k)" "Member n = Member (es ! k)"
      using reps_node [OF r True] by auto
    have test: "f64_eq sc (Score n) \<and> Member n = m \<longleftrightarrow> es ! k = ?e"
      using n(2,3) sc by (cases "es ! k") (auto simp: f64_eq_def)
    show ?thesis
    proof (cases "es ! k = ?e")
      case hit: True
      obtain sl' where sl': "removeNode sl (as ! k) us = Some sl'"
        "sl_reps sl' (take k as @ drop (Suc k) as) (take k es @ drop (Suc k) es)"
        using removeNode_reps [OF r True s(2)] by blast
      have "?e \<in> set es" using hit True nth_mem by metis
      then show ?thesis using s sl' n test hit True rr(4) taken(1) by (auto simp: remove_def)
    next
      case miss: False
      have "?e \<notin> set es" by (rule taken(2) [OF True miss])
      then show ?thesis using s r n test miss True rr(4) by (auto simp: remove_def filter_neq_id)
    qed
  qed
qed

section \<open>Range removals\<close>

text \<open>A node's level 0 leads to the next position.\<close>

lemma reps_next:
  assumes r: "sl_reps sl as es" and k: "k < length es" and n: "mem sl (as ! k) = Some n"
  shows "\<exists>f0. idx (levels n) 0 = Some f0 \<and> forward f0 = (if Suc k < length es then Some (as ! Suc k) else None)"
proof -
  note rr = sl_repsD [OF r]
  have "as ! k = last (header sl # take (Suc k) as)" using k rr(4) by (simp add: take_Suc_conv_app_nth)
  from struct_forward0 [OF rr(1) _ this] obtain f0 where "level_at (mem sl) (as ! k) 0 = Some f0"
    "forward f0 = (if Suc k < length as then Some (as ! Suc k) else None)"
    using k rr(4) by auto
  then show ?thesis using n rr(4) by (simp add: level_at_def)
qed

definition cut :: "int \<Rightarrow> 'a list \<Rightarrow> 'a list" where
  "cut limit xs = (if 0 < limit then take (nat limit) xs else xs)"

text \<open>One round of the removal loops: the node at position \<open>k\<close> goes, its successor takes the position.\<close>

lemma remove_nth_reps:
  assumes r: "sl_reps sl as es" and k: "k < length es" and u: "upd_ok sl update (take k as)"
  obtains n f0 sl1 as1 es1 where "mem sl (as ! k) = Some n" "element_of n = es ! k" "Score n = Score (es ! k)"
    "idx (levels n) 0 = Some f0" "forward f0 = (if k < length es1 then Some (as1 ! k) else None)"
    "removeNode sl (as ! k) update = Some sl1" "sl_reps sl1 as1 es1" "upd_ok sl1 update (take k as1)"
    "length es - k = Suc (length es1 - k)" "k \<le> length es1" "drop k es1 = drop (Suc k) es"
    "\<And>j. take k es1 @ drop (k + j) es1 = take k es @ drop (k + Suc j) es"
proof -
  note rr = sl_repsD [OF r]
  obtain n where n: "mem sl (as ! k) = Some n" "element_of n = es ! k" "Score n = Score (es ! k)"
    using reps_node [OF r k] by auto
  obtain f0 where f0: "idx (levels n) 0 = Some f0"
    "forward f0 = (if Suc k < length es then Some (as ! Suc k) else None)"
    using reps_next [OF r k n(1)] by blast
  let ?as = "take k as @ drop (Suc k) as" and ?es = "take k es @ drop (Suc k) es"
  obtain sl1 where sl1: "removeNode sl (as ! k) update = Some sl1" "sl_reps sl1 ?as ?es" "upd_ok sl1 update (take k as)"
    using removeNode_reps [OF r k u] by blast
  have fwd: "forward f0 = (if k < length ?es then Some (?as ! k) else None)"
    using f0(2) k rr(4) by (cases "Suc k < length es") (simp_all add: nth_append)
  have "take k ?as = take k as" using k rr(4) by simp
  then have upd: "upd_ok sl1 update (take k ?as)" using sl1(3) by (simp only:)
  have len: "length es - k = Suc (length ?es - k)" "k \<le> length ?es" "drop k ?es = drop (Suc k) es" using k by simp_all
  have "take k ?es @ drop (k + j) ?es = take k es @ drop (k + Suc j) es" for j
    using k by (simp add: add.commute)
  then show ?thesis by (rule that [OF n f0(1) fwd sl1(1,2) upd len])
qed

lemma removeByScore_loop_reps:
  assumes "sl_reps sl as es" "k \<le> length es" "upd_ok sl update (take k as)"
    and "0 < limit \<longrightarrow> int (length removed) < limit"
  shows "\<exists>sl' as' rem. removeByScore_loop mx limit update sl (if k < length es then Some (as ! k) else None) removed
      = Some (sl', removed @ rem) \<and>
    rem = (if 0 < limit then take (nat (limit - int (length removed))) else id)
            (takeWhile (\<lambda>e. greater mx (Score e)) (drop k es)) \<and>
    sl_reps sl' as' (take k es @ drop (k + length rem) es)"
  using assms
proof (induction "length es - k" arbitrary: sl as es removed)
  case 0
  then have "k = length es" by simp
  then show ?case using 0 by (subst removeByScore_loop.simps) auto
next
  case (Suc d)
  then have k: "k < length es" by simp
  obtain n f0 sl1 as1 es1 where n: "mem sl (as ! k) = Some n" "element_of n = es ! k" "Score n = Score (es ! k)"
    "idx (levels n) 0 = Some f0" and f0: "forward f0 = (if k < length es1 then Some (as1 ! k) else None)"
    and sl1: "removeNode sl (as ! k) update = Some sl1" "sl_reps sl1 as1 es1" "upd_ok sl1 update (take k as1)"
    and len: "length es - k = Suc (length es1 - k)" "k \<le> length es1" "drop k es1 = drop (Suc k) es"
    and glue: "\<And>j. take k es1 @ drop (k + j) es1 = take k es @ drop (k + Suc j) es"
    by (rule remove_nth_reps [OF Suc.prems(1) k Suc.prems(3)]) (rule that)
  have dk: "drop k es = es ! k # drop k es1" using k by (simp add: len(3) Cons_nth_drop_Suc)
  have tid: "take k es @ es ! k # drop k es1 = es" using k by (simp add: len(3) id_take_nth_drop [symmetric])
  have d: "d = length es1 - k" using len(1) Suc.hyps(2) by simp
  let ?rem = "removed @ [es ! k]" and ?run = "removeByScore_loop mx limit update sl (Some (as ! k)) removed"
  consider (miss) "\<not> greater mx (Score (es ! k))" | (stop) "greater mx (Score (es ! k))" "0 < limit \<and> int (length ?rem) = limit"
    | (go) "greater mx (Score (es ! k))" "\<not> (0 < limit \<and> int (length ?rem) = limit)" by blast
  then show ?case
  proof cases
    case miss
    then have "?run = Some (sl, removed)" using n by (subst removeByScore_loop.simps) auto
    then show ?thesis using miss k dk tid Suc.prems(1) by auto
  next
    case stop
    then have "?run = Some (sl1, ?rem)" using n sl1(1) by (subst removeByScore_loop.simps) auto
    moreover have "limit - int (length removed) = 1" using stop(2) by auto
    then have one: "nat (limit - int (length removed)) = Suc 0" by simp
    ultimately show ?thesis using one stop sl1(2) k dk glue [of 0] by (intro exI [of _ sl1] exI [of _ as1] exI [of _ "[es ! k]"]) auto
  next
    case go
    then have lim: "0 < limit \<longrightarrow> int (length ?rem) < limit" using Suc.prems(4) by auto
    from Suc.hyps(1) [OF d sl1(2) len(2) sl1(3) lim, folded f0]
    obtain sl' as' rem where l: "removeByScore_loop mx limit update sl1 (forward f0) ?rem = Some (sl', ?rem @ rem)"
      "rem = (if 0 < limit then take (nat (limit - int (length ?rem))) else id)
          (takeWhile (\<lambda>e. greater mx (Score e)) (drop k es1))"
      "sl_reps sl' as' (take k es1 @ drop (k + length rem) es1)"
      by (elim exE conjE) (rule that)
    have "?run = Some (sl', removed @ (es ! k # rem))" using n sl1(1) go l(1) by (subst removeByScore_loop.simps) auto
    moreover have "nat (limit - int (length removed)) = Suc (nat (limit - int (length ?rem)))" if "0 < limit"
      using lim that by simp
    ultimately show ?thesis using l(2,3) glue k dk go(1)
      by (intro exI [of _ sl'] exI [of _ as'] exI [of _ "es ! k # rem"]) auto
  qed
qed

lemma removeByRank_loop_reps:
  assumes "sl_reps sl as es" "k \<le> length es" "upd_ok sl update (take k as)"
  shows "\<exists>sl' as' rem. removeByRank_loop stop update i sl (if k < length es then Some (as ! k) else None) removed
      = Some (sl', removed @ rem) \<and>
    rem = take (nat (stop - i)) (drop k es) \<and>
    sl_reps sl' as' (take k es @ drop (k + length rem) es)"
  using assms
proof (induction "length es - k" arbitrary: sl as es removed i)
  case 0
  then have "k = length es" by simp
  then show ?case using 0 by (subst removeByRank_loop.simps) auto
next
  case (Suc d)
  then have k: "k < length es" by simp
  obtain n f0 sl1 as1 es1 where n: "mem sl (as ! k) = Some n" "element_of n = es ! k" "Score n = Score (es ! k)"
    "idx (levels n) 0 = Some f0" and f0: "forward f0 = (if k < length es1 then Some (as1 ! k) else None)"
    and sl1: "removeNode sl (as ! k) update = Some sl1" "sl_reps sl1 as1 es1" "upd_ok sl1 update (take k as1)"
    and len: "length es - k = Suc (length es1 - k)" "k \<le> length es1" "drop k es1 = drop (Suc k) es"
    and glue: "\<And>j. take k es1 @ drop (k + j) es1 = take k es @ drop (k + Suc j) es"
    by (rule remove_nth_reps [OF Suc.prems(1) k Suc.prems(3)]) (rule that)
  have dk: "drop k es = es ! k # drop k es1" using k by (simp add: len(3) Cons_nth_drop_Suc)
  have tid: "take k es @ es ! k # drop k es1 = es" using k by (simp add: len(3) id_take_nth_drop [symmetric])
  have d: "d = length es1 - k" using len(1) Suc.hyps(2) by simp
  show ?case
  proof (cases "i < stop")
    case False
    then show ?thesis using k dk tid Suc.prems(1) by (subst removeByRank_loop.simps) auto
  next
    case True
    from Suc.hyps(1) [OF d sl1(2) len(2) sl1(3), of "i + 1" "removed @ [es ! k]", folded f0]
    obtain sl' as' rem where l: "removeByRank_loop stop update (i + 1) sl1 (forward f0) (removed @ [es ! k])
        = Some (sl', (removed @ [es ! k]) @ rem)"
      "rem = take (nat (stop - (i + 1))) (drop k es1)"
      "sl_reps sl' as' (take k es1 @ drop (k + length rem) es1)"
      by (elim exE conjE) (rule that)
    have "removeByRank_loop stop update i sl (Some (as ! k)) removed = Some (sl', removed @ (es ! k # rem))"
      using n sl1(1) True l(1) by (subst removeByRank_loop.simps) auto
    moreover have "nat (stop - i) = Suc (nat (stop - (i + 1)))" using True by simp
    ultimately show ?thesis using l(2,3) glue k dk
      by (intro exI [of _ sl'] exI [of _ as'] exI [of _ "es ! k # rem"]) auto
  qed
qed

lemma filter_cut_out: "distinct (xs @ ys @ zs) \<Longrightarrow> filter (\<lambda>x. x \<notin> set ys) (xs @ ys @ zs) = xs @ zs"
proof -
  assume d: "distinct (xs @ ys @ zs)"
  have "filter (\<lambda>x. x \<notin> set ys) xs = xs" "filter (\<lambda>x. x \<notin> set ys) zs = zs" using d by (auto intro!: filter_True)
  then show ?thesis by simp
qed

lemma RemoveRangeByScore_reps:
  assumes r: "sl_reps sl as es"
    and gone_def: "gone = cut limit (filter (\<lambda>e. less mn (Score e) \<and> greater mx (Score e)) es)"
  shows "\<exists>sl' as'. RemoveRangeByScore sl mn mx limit = Some (sl', gone) \<and>
    sl_reps sl' as' (filter (\<lambda>e. e \<notin> set gone) es)"
proof -
  let ?P = "\<lambda>e. \<not> less mn (Score e)" and ?Q = "\<lambda>e. greater mx (Score e)"
  note rr = sl_repsD [OF r]
  define k where "k = length (takeWhile ?P es)"
  have kl: "k \<le> length es" by (simp add: k_def length_takeWhile_le)
  have c: "(\<not> less mn (Score n)) = ?P (element_of n)" for n :: node by (simp add: element_of_def)
  obtain us rs f0 where s: "scan (mem sl) (\<lambda>n r. \<not> less mn (Score n)) (sllevel sl) (header sl) 0 = Some (us, rs)"
    "upd_ok sl us (take k as)" "idx us 0 = Some (last (header sl # take k as))"
    "level_at (mem sl) (last (header sl # take k as)) 0 = Some f0"
    "forward f0 = (if k < length es then Some (as ! k) else None)"
    using scan_elems0 [OF r down_closed_not_less c k_def] rr(4) by auto
  have lim0: "0 < limit \<longrightarrow> int (length ([] :: Element list)) < limit" by simp
  obtain sl' as' rem where l: "removeByScore_loop mx limit us sl (forward f0) [] = Some (sl', [] @ rem)"
    "rem = (if 0 < limit then take (nat (limit - int (length ([] :: Element list)))) else id) (takeWhile ?Q (drop k es))"
    "sl_reps sl' as' (take k es @ drop (k + length rem) es)"
    using removeByScore_loop_reps [OF r kl s(2) lim0, of mx, folded s(5)] by (elim exE conjE) (rule that)
  have dk: "drop k es = filter (\<lambda>e. less mn (Score e)) es"
    using down_closed_filter(2) [OF rr(3) down_closed_not_less [of mn]] by (simp add: k_def dropWhile_eq_drop)
  have okd: "elems_ok (drop k es)" using rr(3) append_take_drop_id [of k es] elems_ok_append by metis
  have "takeWhile ?Q (drop k es) = filter ?Q (drop k es)"
    by (rule down_closed_filter(1) [OF okd down_closed_greater])
  then have g: "rem = gone" using l(2) dk by (simp add: gone_def cut_def conj_commute)
  obtain zs where "takeWhile ?Q (drop k es) = rem @ zs"
    using append_take_drop_id [of _ "takeWhile ?Q (drop k es)", symmetric] unfolding l(2)
    by (cases "0 < limit") (simp_all only: if_True if_False id_apply append_Nil2, blast, blast)
  then obtain zs where "drop k es = rem @ zs"
    using takeWhile_dropWhile_id [of ?Q "drop k es"] by (metis append.assoc)
  then have "drop k es = rem @ drop (k + length rem) es"
    by (metis append_eq_conv_conj drop_drop add.commute)
  then have e: "es = take k es @ rem @ drop (k + length rem) es"
    by (metis append_take_drop_id)
  have "distinct (take k es @ rem @ drop (k + length rem) es)" using elems_ok_distinct [OF rr(3)] e by simp
  from filter_cut_out [OF this] have "filter (\<lambda>x. x \<notin> set rem) es = take k es @ drop (k + length rem) es" using e by simp
  then show ?thesis using s(1,3,4) l(1,3) g by (auto simp: RemoveRangeByScore_def)
qed

section \<open>Descents by rank\<close>

lemma scan_rank0:
  assumes r: "sl_reps sl as es" and c: "\<And>n q. c n q = (q < start)" and k: "k = min (length es) (nat (start - 1))"
  shows "\<exists>us rs f0. scan (mem sl) c (sllevel sl) (header sl) 0 = Some (us, rs) \<and> upd_ok sl us (take k as) \<and>
    idx us 0 = Some (last (header sl # take k as)) \<and> idx rs 0 = Some (int k) \<and>
    level_at (mem sl) (last (header sl # take k as)) 0 = Some f0 \<and>
    forward f0 = (if k < length as then Some (as ! k) else None)"
proof -
  note rr = sl_repsD [OF r] and s = sl_structD [OF sl_repsD(1) [OF r]]
  have st: "sl_struct sl (take k as @ drop k as)" using rr(1) by simp
  have kl: "k \<le> length as" using k rr(4) by simp
  have lo: "c (the (mem sl x)) (int (length p) + 1)" if "take k as = p @ x # q" for p x q
  proof -
    have "length p < k" using arg_cong [OF that, of length] kl by simp
    then have "length p < nat (start - 1)" using k by simp
    then have "int (length p) < start - 1" by (simp only: zless_nat_eq_int_zless)
    then show ?thesis by (simp add: c)
  qed
  have hi: "\<not> c (the (mem sl x)) (int (length (take k as) + length p) + 1)" if "drop k as = p @ x # q" for p x q
  proof -
    have "k < length as" using arg_cong [OF that, of length] by simp
    then show ?thesis using k kl rr(4) by (simp add: c)
  qed
  obtain us rs where u: "scan (mem sl) c (sllevel sl) (header sl) 0 = Some (us, rs)"
    "length us = sllevel sl" "length rs = sllevel sl"
    "\<forall>i<sllevel sl. last_at (mem sl) i (us ! i) (rs ! i) (header sl # take k as)"
    using scan_header [OF st, of c] lo hi by blast
  have L0: "0 < sllevel sl" using s(6) by simp
  have "us ! 0 = last (header sl # take k as)" "rs ! 0 = int k"
    using last_at_0 [of "mem sl" "us ! 0" "rs ! 0", OF _ reps_cut(3) [OF r, of k]] u(4) L0 kl by auto
  then have "idx us 0 = Some (last (header sl # take k as))" "idx rs 0 = Some (int k)"
    using u(2,3) L0 by (simp_all add: idx_Some)
  moreover have "upd_ok sl us (take k as)" unfolding upd_ok_def using u(2,4) by (intro exI [of _ "\<lambda>i. rs ! i"]) auto
  ultimately show ?thesis
    using u(1) struct_forward0 [OF rr(1) kl, of "last (header sl # take k as)"] by blast
qed

lemma RemoveRangeByRank_reps:
  assumes r: "sl_reps sl as es" and k: "k = min (length es) (nat (start - 1))"
    and gone_def: "gone = take (nat (stop - (int k + 1))) (drop k es)"
  shows "\<exists>sl' as'. RemoveRangeByRank sl start stop = Some (sl', gone) \<and>
    sl_reps sl' as' (take k es @ drop (k + length gone) es)"
proof -
  note rr = sl_repsD [OF r]
  obtain us rs f0 where s: "scan (mem sl) (\<lambda>n r. r < start) (sllevel sl) (header sl) 0 = Some (us, rs)"
    "upd_ok sl us (take k as)" "idx us 0 = Some (last (header sl # take k as))" "idx rs 0 = Some (int k)"
    "level_at (mem sl) (last (header sl # take k as)) 0 = Some f0"
    "forward f0 = (if k < length es then Some (as ! k) else None)"
    using scan_rank0 [OF r _ k, of "\<lambda>n r. r < start"] rr(4) by auto
  have "k \<le> length es" using k by simp
  from removeByRank_loop_reps [OF r this s(2), of stop "int k + 1" "[]"]
  show ?thesis using s by (auto simp: RemoveRangeByRank_def gone_def)
qed

text \<open>\<open>getByRank\<close>: the node at a 1-based rank; rank 0 is the header itself.\<close>

text \<open>The nodes a rank is compared with: the header and the first \<open>min (length as) (nat rank)\<close>.\<close>

lemma rank_splits:
  assumes k: "k = min (length as) (nat rank)"
  shows "splits (\<lambda>n r. r \<le> rank) h (hdr # take k as) (drop k as)"
  unfolding splits_def
proof (intro conjI allI impI)
  fix p x q assume a: "hdr # take k as = p @ x # q" "p \<noteq> []"
  have "Suc (min (length as) k) = Suc (length p + length q)" using arg_cong [OF a(1), of length] by simp
  then have "length p \<le> k" using k by simp
  then show "int (length p) \<le> rank" using a(2) k by (cases p) auto
next
  fix p x q assume "drop k as = p @ x # q"
  then have "k < length as" by (metis drop_eq_Nil list.distinct(1) not_le append_is_Nil_conv)
  then show "\<not> int (length (hdr # take k as) + length p) \<le> rank" using k by auto
qed

lemma getByRank_loop_reps:
  assumes r: "sl_reps sl as es" and k: "k = min (length as) (nat rank)" and A: "A = header sl # take k as"
  shows "Suc i \<le> sllevel sl \<Longrightarrow> A = p @ x # q \<Longrightarrow> i < ht (mem sl) x \<Longrightarrow>
    getByRank_loop (mem sl) rank (Suc i) x (int (length p)) = Some (if int k = rank then Some (last A) else None)"
proof (induction i arbitrary: p x q)
  case 0
  note walks = walk_spec [OF reps_cut(1) [OF r, of k, folded A] _ rank_splits [OF k, of "mem sl" "header sl", folded A] reps_cut(2) [OF r, of k, folded A]]
  obtain u t where w: "walk (mem sl) (\<lambda>n r. r \<le> rank) 0 x (int (length p)) = Some (u, t)" "last_at (mem sl) 0 u t A"
    using walks [OF _ 0(2,3)] 0(1) by auto
  then show ?case using last_at_0 [OF w(2)] reps_cut(3) [OF r, of k] A k by simp
next
  case (Suc i)
  note walks = walk_spec [OF reps_cut(1) [OF r, of k, folded A] _ rank_splits [OF k, of "mem sl" "header sl", folded A] reps_cut(2) [OF r, of k, folded A]]
  obtain u t where w: "walk (mem sl) (\<lambda>n r. r \<le> rank) (Suc i) x (int (length p)) = Some (u, t)" "last_at (mem sl) (Suc i) u t A"
    using walks [OF _ Suc.prems(2,3)] Suc.prems(1) by auto
  obtain p' q' where u: "A = p' @ u # q'" "Suc i < ht (mem sl) u" "t = int (length p')"
    using w(2) by (auto simp: last_at_def)
  show ?case
  proof (cases "t = rank")
    case True
    have "length A = Suc (length p' + length q')" using u(1) by simp
    then have "k = length p' + length q'" using A k by simp
    moreover have "k \<le> length p'" using True u(3) k by simp
    ultimately have "q' = []" "int k = rank" using True u(3) by auto
    then show ?thesis using w(1) True u(1) by simp
  next
    case False
    then show ?thesis using w(1) Suc.IH [of p' u q'] Suc.prems(1) u by simp
  qed
qed

lemma getByRank_reps:
  assumes r: "sl_reps sl as es"
  shows "getByRank sl rank = Some (if rank = 0 then Some (header sl)
    else if 1 \<le> rank \<and> rank \<le> int (length es) then Some (as ! nat (rank - 1)) else None)"
proof -
  note rr = sl_repsD [OF r] and s = sl_structD [OF sl_repsD(1) [OF r]]
  define k where "k = min (length as) (nat rank)"
  let ?A = "header sl # take k as"
  obtain l where l: "sllevel sl = Suc l" using s(6) by (cases "sllevel sl") auto
  have "getByRank sl rank = Some (if int k = rank then Some (last ?A) else None)"
    unfolding getByRank_def l
    using getByRank_loop_reps [OF r k_def refl, of l "[]" "header sl" "take k as"] l s(4,7) by simp
  moreover have "int k = rank \<longleftrightarrow> 0 \<le> rank \<and> rank \<le> int (length es)" using rr(4) by (auto simp: k_def)
  moreover have "last ?A = as ! nat (rank - 1)" if "1 \<le> rank" "rank \<le> int (length es)"
  proof -
    have "k = Suc (nat (rank - 1))" using that rr(4) by (auto simp: k_def)
    moreover have "k \<le> length as" by (simp add: k_def)
    ultimately show ?thesis by (simp add: take_Suc_conv_app_nth)
  qed
  moreover have "last ?A = header sl" if "rank = 0" using that by (simp add: k_def)
  ultimately show ?thesis by auto
qed

end
