(* ===== verification/SkipListQueries.thy ===== *)
theory SkipListQueries
  imports SkipListFun
begin

text \<open>
  The queries of the skip list that leave it as it is: the rank of a member (\<open>getRank\<close>), and the
  first and last node whose score lies within two borders (\<open>hasInRange\<close>, \<open>getFirstInScoreRange\<close>,
  \<open>getLastInScoreRange\<close>), on the sorted list of elements the list represents.
\<close>

section \<open>The rank of a member\<close>

lemma splits_elems:
  assumes r: "sl_reps sl as es" and P: "down_closed P es" and c: "\<And>n q. c n q = P (element_of n)"
    and k: "k = length (takeWhile P es)"
  shows "splits c (mem sl) (header sl # take k as) (drop k as)"
proof -
  note rr = sl_repsD [OF r]
  have el: "map (el (mem sl)) (take k as) = takeWhile P es" "map (el (mem sl)) (drop k as) = dropWhile P es"
    using rr(2) by (simp_all add: k take_map [symmetric] drop_map [symmetric] takeWhile_eq_take [symmetric]
        dropWhile_eq_drop [symmetric])
  have t: "P (el (mem sl) x)" if "x \<in> set (take k as)" for x
    using that el(1) set_takeWhileD by (metis (no_types, lifting) imageI list.set_map)
  have d: "\<not> P (el (mem sl) x)" if "x \<in> set (drop k as)" for x
    using that el(2) down_closed_split [OF rr(3) P] by (metis (no_types, lifting) imageI list.set_map)
  show ?thesis
    unfolding splits_def
  proof (intro conjI allI impI)
    fix p x q assume a: "header sl # take k as = p @ x # q" "p \<noteq> []"
    then have "x \<in> set (take k as)" by (cases p) auto
    from t [OF this] show "c (the (mem sl x)) (int (length p))" by (simp add: c el_def)
  next
    fix p x q assume "drop k as = p @ x # q"
    then have "x \<in> set (drop k as)" by simp
    from d [OF this] show "\<not> c (the (mem sl x)) (int (length (header sl # take k as) + length p))"
      by (simp add: c el_def)
  qed
qed

lemma down_closed_key_upto:
  assumes "elems_ok es" "sc \<noteq> NaN"
  shows "down_closed (\<lambda>x. key_upto (Score x) (Member x) sc m) es"
proof -
  let ?e = "\<lparr>Member = m, Score = sc\<rparr>"
  have "key_upto (Score x) (Member x) sc m \<longleftrightarrow> elem_less x ?e \<or> x = ?e" if "x \<in> set es" for x
    using key_upto_iff [of x ?e] assms that by (auto simp: elems_ok_def)
  then show ?thesis using down_closed_upto [of ?e es] unfolding down_closed_def by blast
qed

text \<open>
  The descent of \<open>getRank\<close> through the prefix \<open>A\<close> of nodes up to the key: it returns at the first
  node with the member on its way. The node of the key is the only one with the member, except
  that the header's member is the empty string.
\<close>

lemma getRank_loop_spec:
  assumes lk: "linked (mem sl) L (A @ B)"
    and sp: "splits (\<lambda>n q. key_upto (Score n) (Member n) sc m) (mem sl) A B"
    and dm: "set (A @ B) \<subseteq> dom (mem sl)" and h1: "\<forall>z\<in>set A. 1 \<le> ht (mem sl) z"
    and only: "\<forall>p z q. A = p @ z # q \<longrightarrow> Member (el (mem sl) z) = m \<longrightarrow> q = []"
  shows "Suc i \<le> L \<Longrightarrow> A = p @ x # q \<Longrightarrow> i < ht (mem sl) x \<Longrightarrow>
    getRank_loop (mem sl) m sc (Suc i) x (int (length p)) =
      Some (if Member (el (mem sl) (last A)) = m then int (length A) - 1 else 0)"
proof (induction i arbitrary: p x q)
  case 0
  have "A \<noteq> []" using 0(2) by simp
  then obtain n where n: "mem sl (last A) = Some n" using dm by (metis Un_iff domD last_in_set set_append subsetD)
  obtain u t where w: "walk (mem sl) (\<lambda>n q. key_upto (Score n) (Member n) sc m) 0 x (int (length p)) = Some (u, t)"
    "last_at (mem sl) 0 u t A"
    using walk_spec [OF lk _ sp dm 0(2,3)] 0(1) by auto
  have "u = last A" "t = int (length A) - 1" using last_at_0 [OF w(2) h1] by simp_all
  then show ?case using w(1) n by (simp add: el_def element_of_def)
next
  case (Suc i)
  obtain u t where w: "walk (mem sl) (\<lambda>n q. key_upto (Score n) (Member n) sc m) (Suc i) x (int (length p)) = Some (u, t)"
    "last_at (mem sl) (Suc i) u t A"
    using walk_spec [OF lk _ sp dm Suc.prems(2,3)] Suc.prems(1) by auto
  obtain p' q' where u: "A = p' @ u # q'" "Suc i < ht (mem sl) u" "t = int (length p')"
    using w(2) by (auto simp: last_at_def)
  obtain n where n: "mem sl u = Some n" using dm u(1) by auto
  show ?case
  proof (cases "Member n = m")
    case True
    then have "q' = []" using only u(1) n by (auto simp: el_def element_of_def)
    then show ?thesis using w(1) n True u by (simp add: el_def element_of_def)
  next
    case False
    then show ?thesis using w(1) n Suc.IH [of p' u q'] Suc.prems(1) u by simp
  qed
qed

text \<open>The elements up to \<open>e\<close> are those below it and, if it is there, \<open>e\<close> itself as the last.\<close>

lemma takeWhile_upto:
  assumes ok: "elems_ok es" and P: "\<And>x. x \<in> set es \<Longrightarrow> P x \<longleftrightarrow> elem_less x e \<or> x = e" and e: "e \<in> set es"
  shows "takeWhile P es = takeWhile (\<lambda>x. elem_less x e) es @ [e]"
proof -
  obtain xs ys where es: "es = xs @ e # ys" using e by (auto simp: in_set_conv_decomp)
  have "elems_ok (xs @ e # ys)" using ok es by simp
  then have o: "\<forall>x\<in>set xs. elem_less x e" "\<forall>y\<in>set ys. elem_less e y"
    by (auto simp: elems_ok_append elems_ok_Cons)
  have "\<forall>y\<in>set ys. \<not> P y" using P o(2) es elem_less_asym elem_less_irrefl by (metis Un_iff list.set_intros(2) set_append)
  then have "takeWhile P ys = []" by (cases ys) auto
  moreover have "takeWhile P (xs @ [e] @ ys) = xs @ [e] @ takeWhile P ys"
    using o(1) P es P [OF e] by (simp add: takeWhile_append2)
  moreover have "takeWhile (\<lambda>x. elem_less x e) es = xs" using o(1) elem_less_irrefl unfolding es by (simp add: takeWhile_append2)
  ultimately show ?thesis using es by simp
qed

text \<open>Nothing comes after \<open>e\<close> among the elements up to it.\<close>

lemma last_upto:
  assumes "elems_ok es" and P: "\<And>x. x \<in> set es \<Longrightarrow> P x \<longleftrightarrow> elem_less x e \<or> x = e" and "takeWhile P es = xs @ e # ys"
  shows "ys = []"
proof (rule ccontr)
  assume y: "ys \<noteq> []"
  have "elems_ok (takeWhile P es)" using assms(1) elems_ok_append takeWhile_dropWhile_id by metis
  then have "elem_less e (hd ys)" using y unfolding assms(3) by (auto simp: elems_ok_append elems_ok_Cons)
  moreover have "hd ys \<in> set (takeWhile P es)" using y unfolding assms(3) by simp
  then have "hd ys \<in> set es \<and> P (hd ys)" by (rule set_takeWhileD)
  ultimately show False using P [of "hd ys"] elem_less_asym elem_less_irrefl by metis
qed

lemma getRank_reps:
  assumes r: "sl_reps sl as es" and sc: "sc \<noteq> NaN" and m: "m \<noteq> []"
    and only: "\<forall>x\<in>set es. Member x = m \<longrightarrow> x = \<lparr>Member = m, Score = sc\<rparr>"
  shows "getRank sl m sc = Some (if \<lparr>Member = m, Score = sc\<rparr> \<in> set es
     then int (length (takeWhile (\<lambda>x. elem_less x \<lparr>Member = m, Score = sc\<rparr>) es)) + 1 else 0)"
proof -
  let ?e = "\<lparr>Member = m, Score = sc\<rparr>" and ?h = "mem sl"
  let ?P = "\<lambda>x. key_upto (Score x) (Member x) sc m"
  note rr = sl_repsD [OF r] and s = sl_structD [OF sl_repsD(1) [OF r]]
  have P: "?P x \<longleftrightarrow> elem_less x ?e \<or> x = ?e" if "x \<in> set es" for x
    using key_upto_iff [of x ?e] sc rr(3) that by (auto simp: elems_ok_def)
  define k where "k = length (takeWhile ?P es)"
  let ?A = "header sl # take k as"
  have kl: "k \<le> length as" using rr(4) length_takeWhile_le by (simp add: k_def)
  have tk: "map (el ?h) (take k as) = takeWhile ?P es"
    using rr(2) by (simp add: k_def take_map [symmetric] takeWhile_eq_take [symmetric])
  note lk = reps_cut(1) [OF r, of k] and dm = reps_cut(2) [OF r, of k] and h1 = reps_cut(3) [OF r, of k]
  have sp: "splits (\<lambda>n q. key_upto (Score n) (Member n) sc m) ?h ?A (drop k as)"
    by (rule splits_elems [OF r down_closed_key_upto [OF rr(3) sc, of m] _ k_def]) (simp add: element_of_def)
  have only': "q = []" if A: "?A = p @ z # q" and mz: "Member (el ?h z) = m" for p z q
  proof -
    have "p \<noteq> []" using A mz m s(5) by (cases p) auto
    then obtain p' where "take k as = p' @ z # q" using A by (cases p) auto
    then have T: "takeWhile ?P es = map (el ?h) p' @ el ?h z # map (el ?h) q" using tk by simp
    then have "el ?h z = ?e" using only mz set_takeWhileD by (metis in_set_conv_decomp)
    then show ?thesis using last_upto [OF rr(3) P, of "map (el ?h) p'" "map (el ?h) q"] T by simp
  qed
  obtain l where l: "sllevel sl = Suc l" using s(6) by (cases "sllevel sl") auto
  have run: "getRank sl m sc = Some (if Member (el ?h (last ?A)) = m then int k else 0)"
    unfolding getRank_def l
    using getRank_loop_spec [OF lk sp dm h1, of l "[]" "header sl" "take k as"] only' l s(4,7) kl by simp
  have last: "el ?h (last ?A) = (if takeWhile ?P es = [] then el ?h (header sl) else last (takeWhile ?P es))"
    using tk last_map [of "take k as" "el ?h"] by (cases "take k as = []") auto
  show ?thesis
  proof (cases "?e \<in> set es")
    case True
    then show ?thesis using run last takeWhile_upto [OF rr(3) P True] by (simp add: k_def)
  next
    case False
    have "Member (last (takeWhile ?P es)) \<noteq> m" if "takeWhile ?P es \<noteq> []"
    proof
      assume "Member (last (takeWhile ?P es)) = m"
      moreover have "last (takeWhile ?P es) \<in> set es" by (rule set_takeWhileD [THEN conjunct1, OF last_in_set [OF that]])
      ultimately show False using only False by metis
    qed
    then have "Member (el ?h (last ?A)) \<noteq> m" unfolding last using m s(5) by (simp del: takeWhile_eq_Nil_iff)
    then show ?thesis using run False by simp
  qed
qed

text \<open>
  The member "" is the header's member as well: when no node before the key reaches the top level,
  the descent still is at the header there, and \<open>getRank\<close> takes it for the member.
\<close>

lemma getRank_empty_member:
  assumes r: "sl_reps sl as es" and sc: "sc \<noteq> NaN" and l: "sllevel sl = Suc l"
    and low: "\<forall>i<length es. key_upto (Score (es ! i)) (Member (es ! i)) sc [] \<longrightarrow> ht (mem sl) (as ! i) \<le> l"
  shows "getRank sl [] sc = Some 0"
proof -
  let ?h = "mem sl" and ?P = "\<lambda>x. key_upto (Score x) (Member x) sc []"
  note rr = sl_repsD [OF r] and s = sl_structD [OF sl_repsD(1) [OF r]]
  define k where "k = length (takeWhile ?P es)"
  let ?A = "header sl # take k as"
  have kl: "k \<le> length es" using length_takeWhile_le by (simp add: k_def)
  note lk = reps_cut(1) [OF r, of k] and dm = reps_cut(2) [OF r, of k]
  have sp: "splits (\<lambda>n q. key_upto (Score n) (Member n) sc []) ?h ?A (drop k as)"
    by (rule splits_elems [OF r down_closed_key_upto [OF rr(3) sc, of "[]"] _ k_def]) (simp add: element_of_def)
  have lowA: "ht ?h x \<le> l" if x: "x \<in> set (take k as)" for x
  proof -
    obtain i where i: "i < k" "x = as ! i" using x kl rr(4) by (auto simp: in_set_conv_nth)
    have "?P (es ! i)" using i(1) nth_mem [of i "takeWhile ?P es"] takeWhile_nth [of i ?P es] set_takeWhileD [of _ ?P es]
      by (simp add: k_def)
    then show ?thesis using low i kl by simp
  qed
  have l16: "l < ht ?h (header sl)" using s(4,7) l by simp
  obtain u t where w: "walk ?h (\<lambda>n q. key_upto (Score n) (Member n) sc []) l (header sl) (int (length [])) = Some (u, t)"
    "last_at ?h l u t ?A"
    using walk_spec [OF lk _ sp dm _ l16, of "[]" "take k as"] l by auto
  have "u = header sl" using last_at_pos(1) [OF w(2) _ _ l16, of "[]" "take k as"] s(1) lowA set_take_subset [of k as] by auto
  moreover from this have "t = 0" using last_at_pos(2) [OF w(2) _ _ l16, of "[]" "take k as"] s(1) set_take_subset [of k as] by auto
  moreover obtain n where "?h (header sl) = Some n" "Member n = []"
    using dm s(5) by (auto simp: el_def element_of_def)
  ultimately show ?thesis using w(1) unfolding getRank_def l by simp
qed

section \<open>The nodes within two borders\<close>

definition in_borders :: "ScoreBorder \<Rightarrow> ScoreBorder \<Rightarrow> Element \<Rightarrow> bool" where
  "in_borders mn mx e \<longleftrightarrow> less mn (Score e) \<and> greater mx (Score e)"

text \<open>The first test of \<open>hasInRange\<close>: the code takes the pair of borders for an empty range.\<close>

definition borders_empty :: "ScoreBorder \<Rightarrow> ScoreBorder \<Rightarrow> bool" where
  "borders_empty mn mx \<longleftrightarrow>
     (bValue mx < bValue mn \<and> bInf mx \<noteq> positiveInf) \<or>
     (f64_eq (bValue mn) (bValue mx) \<and> (bExclude mn \<or> bExclude mx))"

lemma hasInRange_reps:
  assumes r: "sl_reps sl as es"
  shows "hasInRange sl mn mx = Some (\<not> borders_empty mn mx \<and> es \<noteq> [] \<and>
    less mn (Score (last es)) \<and> greater mx (Score (hd es)))"
proof -
  note rr = sl_repsD [OF r] and s = sl_structD [OF sl_repsD(1) [OF r]]
  show ?thesis
  proof (cases "es = []")
    case True
    then show ?thesis using rr(4) s(13) by (simp add: hasInRange_def borders_empty_def)
  next
    case False
    then have as: "as \<noteq> []" using rr(4) by auto
    have t: "tail sl = Some (as ! (length es - 1))" using s(13) as rr(4) by (simp add: last_conv_nth)
    obtain tn where tn: "mem sl (as ! (length es - 1)) = Some tn" "Score tn = Score (last es)"
      using reps_node [OF r, of "length es - 1"] False by (auto simp: last_conv_nth)
    obtain f0 where f0: "level_at (mem sl) (header sl) 0 = Some f0" "forward f0 = Some (as ! 0)"
      using struct_forward0 [OF rr(1), of 0 "header sl"] as by auto
    obtain n where n: "mem sl (as ! 0) = Some n" "Score n = Score (hd es)"
      using reps_node [OF r, of 0] False by (auto simp: hd_conv_nth)
    show ?thesis using False t tn f0 n by (auto simp: hasInRange_def borders_empty_def)
  qed
qed

lemma less_mono: "less mn a \<Longrightarrow> a \<le> b \<Longrightarrow> less mn b"
  using f64_less_le_trans f64_le_trans by (auto simp: less_def split: if_splits)

lemma greater_mono: "greater mx b \<Longrightarrow> a \<le> b \<Longrightarrow> greater mx a"
  using f64_le_less_trans f64_le_trans by (auto simp: greater_def split: if_splits)

lemma not_hasInRange:
  assumes r: "sl_reps sl as es" and no: "hasInRange sl mn mx = Some False" and b: "\<not> borders_empty mn mx"
    and e: "e \<in> set es"
  shows "\<not> in_borders mn mx e"
proof
  assume w: "in_borders mn mx e"
  note rr = sl_repsD [OF r]
  obtain i where i: "i < length es" "es ! i = e" using e by (auto simp: in_set_conv_nth)
  have ends: "last es = es ! (length es - 1)" "hd es = es ! 0"
    using i(1) by (cases "es = []"; simp add: last_conv_nth hd_conv_nth)+
  have "Score (es ! i) \<le> Score (last es)" "Score (hd es) \<le> Score (es ! i)"
    unfolding ends using elems_ok_Score_mono [OF rr(3), of i "length es - 1"] elems_ok_Score_mono [OF rr(3), of 0 i] i(1)
    by simp_all
  then have "less mn (Score (last es))" "greater mx (Score (hd es))"
    using w i(2) less_mono greater_mono by (auto simp: in_borders_def)
  then show False using hasInRange_reps [OF r, of mn mx] no b i(1) by auto
qed

text \<open>\<open>getFirstInScoreRange\<close> returns the first node within the borders.\<close>

lemma first_in_borders:
  assumes ok: "elems_ok es" and k: "k = length (takeWhile (\<lambda>e. \<not> less mn (Score e)) es)" "k < length es"
  shows "(\<exists>e\<in>set es. in_borders mn mx e) \<longleftrightarrow> greater mx (Score (es ! k))"
proof
  let ?P = "\<lambda>e. \<not> less mn (Score e)"
  have "\<forall>y\<in>set (drop k es). less mn (Score y)"
    using down_closed_split [OF ok down_closed_not_less [of mn]]
    unfolding k(1) dropWhile_eq_drop [symmetric] not_not .
  then have "less mn (Score (es ! k))" using k(2) by (metis Cons_nth_drop_Suc list.set_intros(1))
  then show "\<exists>e\<in>set es. in_borders mn mx e" if "greater mx (Score (es ! k))" using that k(2) by (auto simp: in_borders_def)
  assume "\<exists>e\<in>set es. in_borders mn mx e"
  then obtain i where i: "i < length es" "in_borders mn mx (es ! i)" by (auto simp: in_set_conv_nth)
  have "k \<le> i"
  proof (rule ccontr)
    assume "\<not> k \<le> i"
    then have "es ! i \<in> set (takeWhile ?P es)" using nth_mem [of i "takeWhile ?P es"] takeWhile_nth [of i ?P es]
      by (simp add: k(1))
    then show False using i(2) set_takeWhileD by (fastforce simp: in_borders_def)
  qed
  then have "Score (es ! k) \<le> Score (es ! i)" using elems_ok_Score_mono [OF ok] i(1) by blast
  then show "greater mx (Score (es ! k))" using i(2) f64_le_less_trans f64_le_trans
    by (auto simp: in_borders_def greater_def split: if_splits)
qed

lemma getFirst_reps:
  assumes r: "sl_reps sl as es"
  shows "getFirstInScoreRange sl mn mx = Some (if \<not> borders_empty mn mx \<and> (\<exists>e\<in>set es. in_borders mn mx e)
    then Some (as ! length (takeWhile (\<lambda>e. \<not> less mn (Score e)) es)) else None)"
proof -
  let ?P = "\<lambda>e. \<not> less mn (Score e)"
  note rr = sl_repsD [OF r]
  define k where "k = length (takeWhile ?P es)"
  have c: "(\<not> less mn (Score n)) = ?P (element_of n)" for n :: node by (simp add: element_of_def)
  obtain us rs f0 where sc: "scan (mem sl) (\<lambda>n r. \<not> less mn (Score n)) (sllevel sl) (header sl) 0 = Some (us, rs)"
    "idx us 0 = Some (last (header sl # take k as))"
    "level_at (mem sl) (last (header sl # take k as)) 0 = Some f0"
    "forward f0 = (if k < length es then Some (as ! k) else None)"
    using scan_elems0 [OF r down_closed_not_less c k_def] rr(4) by auto
  show ?thesis
  proof (cases "hasInRange sl mn mx = Some True")
    case False
    then have no: "hasInRange sl mn mx = Some False" using hasInRange_reps [OF r, of mn mx] by auto
    then show ?thesis using not_hasInRange [OF r no] by (auto simp: getFirstInScoreRange_def)
  next
    case True
    then have ok: "\<not> borders_empty mn mx" "es \<noteq> []" "less mn (Score (last es))"
      using hasInRange_reps [OF r, of mn mx] by auto
    have "last es \<notin> set (takeWhile ?P es)" using ok(3) by (blast dest: set_takeWhileD)
    then have "takeWhile ?P es \<noteq> es" using ok(2) last_in_set by metis
    then have k: "k < length es" unfolding k_def
      by (metis append_Nil2 append_eq_conv_conj le_neq_implies_less length_takeWhile_le takeWhile_dropWhile_id)
    obtain n where n: "mem sl (as ! k) = Some n" "Score n = Score (es ! k)" using reps_node [OF r k] by auto
    from first_in_borders [OF rr(3) k_def k, of mx] show ?thesis using True ok(1) sc k n by (simp add: getFirstInScoreRange_def k_def [symmetric])
  qed
qed

text \<open>\<open>getLastInScoreRange\<close> returns the last one.\<close>

lemma last_in_borders:
  assumes ok: "elems_ok es" and k: "k = length (takeWhile (\<lambda>e. greater mx (Score e)) es)" "0 < k"
  shows "(\<exists>e\<in>set es. in_borders mn mx e) \<longleftrightarrow> less mn (Score (es ! (k - 1)))"
proof
  let ?P = "\<lambda>e. greater mx (Score e)"
  have kl: "k \<le> length es" using length_takeWhile_le by (simp add: k(1))
  have "?P (es ! i)" if "i < k" for i
    using that nth_mem [of i "takeWhile ?P es"] takeWhile_nth [of i ?P es] set_takeWhileD [of _ ?P es] by (simp add: k(1))
  then show "\<exists>e\<in>set es. in_borders mn mx e" if "less mn (Score (es ! (k - 1)))"
    using that k(2) kl by (intro bexI [of _ "es ! (k - 1)"]) (auto simp: in_borders_def)
  have post: "\<not> ?P (es ! i)" if "k \<le> i" "i < length es" for i
  proof -
    have "es ! i = drop k es ! (i - k)" "i - k < length (drop k es)" using that kl by auto
    then have "es ! i \<in> set (dropWhile ?P es)" by (metis k(1) dropWhile_eq_drop nth_mem)
    then show ?thesis using down_closed_split [OF ok down_closed_greater [of mx]] by blast
  qed
  assume "\<exists>e\<in>set es. in_borders mn mx e"
  then obtain i where i: "i < length es" "in_borders mn mx (es ! i)" by (auto simp: in_set_conv_nth)
  have "i < k" using post i by (meson in_borders_def not_le)
  then have "Score (es ! i) \<le> Score (es ! (k - 1))" using elems_ok_Score_mono [OF ok, of i "k - 1"] kl k(2) by simp
  then show "less mn (Score (es ! (k - 1)))" using i(2) less_mono by (auto simp: in_borders_def)
qed

lemma getLast_reps:
  assumes r: "sl_reps sl as es"
  shows "getLastInScoreRange sl mn mx = Some (if \<not> borders_empty mn mx \<and> (\<exists>e\<in>set es. in_borders mn mx e)
    then Some (as ! (length (takeWhile (\<lambda>e. greater mx (Score e)) es) - 1)) else None)"
proof -
  let ?P = "\<lambda>e. greater mx (Score e)"
  note rr = sl_repsD [OF r]
  define k where "k = length (takeWhile ?P es)"
  have c: "greater mx (Score n) = ?P (element_of n)" for n :: node by (simp add: element_of_def)
  obtain us rs where sc: "scan (mem sl) (\<lambda>n r. greater mx (Score n)) (sllevel sl) (header sl) 0 = Some (us, rs)"
    "idx us 0 = Some (last (header sl # take k as))"
    using scan_elems0 [OF r down_closed_greater c k_def] by auto
  have kl: "k \<le> length es" using length_takeWhile_le by (simp add: k_def)
  show ?thesis
  proof (cases "hasInRange sl mn mx = Some True")
    case False
    then have no: "hasInRange sl mn mx = Some False" using hasInRange_reps [OF r, of mn mx] by auto
    then show ?thesis using not_hasInRange [OF r no] by (auto simp: getLastInScoreRange_def)
  next
    case True
    then have ok: "\<not> borders_empty mn mx" "es \<noteq> []" "greater mx (Score (hd es))"
      using hasInRange_reps [OF r, of mn mx] by auto
    have k0: "0 < k" using ok(2,3) by (cases es) (auto simp: k_def)
    then have k1: "k - 1 < length es" using kl by simp
    have lst: "last (header sl # take k as) = as ! (k - 1)"
      using k0 kl rr(4) by (cases k) (auto simp: take_Suc_conv_app_nth)
    obtain n where n: "mem sl (as ! (k - 1)) = Some n" "Score n = Score (es ! (k - 1))" using reps_node [OF r k1] by auto
    from last_in_borders [OF rr(3) k_def k0, of mn] show ?thesis using True ok(1) sc n lst by (simp add: getLastInScoreRange_def k_def [symmetric])
  qed
qed

end
