(* ===== verification/SortedSet.thy ===== *)
theory SortedSet
  imports SkipListQueries "HOL-Library.Mapping" "HOL-Library.AList_Mapping"
begin

text \<open>
  \<^verbatim>\<open>src/util/zset.go\<close>, lines 443-677: the sorted set, a dictionary from members to elements beside
  the skip list that keeps them in order. The operations are translated one by one; the callbacks
  of \<open>ForEach\<close> and \<open>ForEachByScore\<close> are functions on the state the closure captures. A run-time
  panic of the code is a value of \<open>panic\<close>.
\<close>

section \<open>The operations\<close>

record SortedSet =
  dict :: "(string, Element) mapping"
  zskip :: skiplist

datatype panic = IllegalStart int | IllegalEnd int | RuntimeError

type_synonym 's consumer = "Element \<Rightarrow> 's \<Rightarrow> bool \<times> 's"

definition MakeSortedSet :: SortedSet where
  "MakeSortedSet = \<lparr>dict = Mapping.empty, zskip = makeSkiplist\<rparr>"

text \<open>\<open>rnd\<close>: the values \<^verbatim>\<open>rand.Int31()\<close> returns to the one \<open>insert\<close> the operation may run.\<close>

definition Add :: "SortedSet \<Rightarrow> string \<Rightarrow> f64 \<Rightarrow> nat list \<Rightarrow> (SortedSet \<times> bool) option" where
  "Add ss m sc rnd =
     (let d = Mapping.update m \<lparr>Member = m, Score = sc\<rparr> (dict ss)
      in case Mapping.lookup (dict ss) m of
           Some e \<Rightarrow>
             if \<not> f64_eq sc (Score e)
             then do { (sl1, _) \<leftarrow> remove (zskip ss) m (Score e);
                       (sl2, _) \<leftarrow> insert sl1 m sc rnd;
                       Some (\<lparr>dict = d, zskip = sl2\<rparr>, False) }
             else Some (ss\<lparr>dict := d\<rparr>, False)
         | None \<Rightarrow>
             do { (sl1, _) \<leftarrow> insert (zskip ss) m sc rnd;
                  Some (\<lparr>dict = d, zskip = sl1\<rparr>, True) })"

definition Len :: "SortedSet \<Rightarrow> int" where
  "Len ss = int (Mapping.size (dict ss))"

definition Get :: "SortedSet \<Rightarrow> string \<Rightarrow> Element option" where
  "Get ss m = Mapping.lookup (dict ss) m"

definition Remove :: "SortedSet \<Rightarrow> string \<Rightarrow> (SortedSet \<times> bool) option" where
  "Remove ss m =
     (case Mapping.lookup (dict ss) m of
        Some v \<Rightarrow> do { (sl1, _) \<leftarrow> remove (zskip ss) m (Score v);
                       Some (\<lparr>dict = Mapping.delete m (dict ss), zskip = sl1\<rparr>, True) }
      | None \<Rightarrow> Some (ss, False))"

definition GetRank :: "SortedSet \<Rightarrow> string \<Rightarrow> bool \<Rightarrow> int option" where
  "GetRank ss m desc =
     (case Mapping.lookup (dict ss) m of
        None \<Rightarrow> Some (-1)
      | Some e \<Rightarrow> do { r \<leftarrow> getRank (zskip ss) m (Score e);
                       Some (if desc then sllength (zskip ss) - r else r - 1) })"

text \<open>\<^verbatim>\<open>node = node.backward\<close> or \<^verbatim>\<open>node = node.level[0].forward\<close>.\<close>

definition step_node :: "bool \<Rightarrow> node \<Rightarrow> addr option option" where
  "step_node desc n =
     (if desc then Some (backward n) else do { f0 \<leftarrow> idx (levels n) 0; Some (forward f0) })"

fun ForEach_loop :: "heap \<Rightarrow> bool \<Rightarrow> 's consumer \<Rightarrow> nat \<Rightarrow> addr option \<Rightarrow> 's \<Rightarrow> 's option" where
  "ForEach_loop h desc c 0 p s = Some s"
| "ForEach_loop h desc c (Suc k) p s =
     do { a \<leftarrow> p;
          n \<leftarrow> h a;
          (case c (element_of n) s of
             (go, s') \<Rightarrow> if \<not> go then Some s'
                         else do { p' \<leftarrow> step_node desc n; ForEach_loop h desc c k p' s' }) }"

definition ForEach :: "SortedSet \<Rightarrow> int \<Rightarrow> int \<Rightarrow> bool \<Rightarrow> 's consumer \<Rightarrow> 's \<Rightarrow> panic + 's" where
  "ForEach ss start stop desc c s =
     (let size = Len ss; sl = zskip ss
      in if start < 0 \<or> start \<ge> size then Inl (IllegalStart start)
         else if stop < start \<or> stop > size then Inl (IllegalEnd stop)
         else case do { node \<leftarrow>
                          (if desc
                           then if start > 0 then getByRank sl (size - start) else Some (tail sl)
                           else if start > 0 then getByRank sl (start + 1)
                                else do { f0 \<leftarrow> level_at (mem sl) (header sl) 0; Some (forward f0) });
                        ForEach_loop (mem sl) desc c (nat (stop - start)) node s }
              of Some s' \<Rightarrow> Inr s' | None \<Rightarrow> Inl RuntimeError)"

text \<open>
  \<open>Range\<close> allocates \<^verbatim>\<open>stop - start\<close> slots first (a negative size panics) and fills them one by
  one; a slot that the loop does not reach keeps nil. The captured state is the slice and \<^verbatim>\<open>i\<close>.
\<close>

definition Range :: "SortedSet \<Rightarrow> int \<Rightarrow> int \<Rightarrow> bool \<Rightarrow> panic + Element option list" where
  "Range ss start stop desc =
     (let size = i64 (stop - start)
      in if size < 0 then Inl RuntimeError
         else case ForEach ss start stop desc
                     (\<lambda>e (slice, i). (True, slice[i := Some e], Suc i)) (replicate (nat size) None, 0)
              of Inl p \<Rightarrow> Inl p | Inr (slice, i) \<Rightarrow> Inr slice)"

definition Count :: "SortedSet \<Rightarrow> ScoreBorder \<Rightarrow> ScoreBorder \<Rightarrow> panic + int" where
  "Count ss mn mx =
     ForEach ss 0 (Len ss) False
       (\<lambda>e i. if \<not> less mn (Score e) then (True, i)
              else if \<not> greater mx (Score e) then (False, i)
              else (True, i + 1)) 0"

fun skip_nodes :: "heap \<Rightarrow> bool \<Rightarrow> nat \<Rightarrow> addr option \<Rightarrow> addr option option" where
  "skip_nodes h desc 0 p = Some p"
| "skip_nodes h desc (Suc k) p =
     (case p of None \<Rightarrow> Some None
      | Some a \<Rightarrow> do { n \<leftarrow> h a; p' \<leftarrow> step_node desc n; skip_nodes h desc k p' })"

partial_function (option) ForEachByScore_loop ::
  "heap \<Rightarrow> ScoreBorder \<Rightarrow> ScoreBorder \<Rightarrow> int \<Rightarrow> bool \<Rightarrow> 's consumer \<Rightarrow> int \<Rightarrow> addr option \<Rightarrow> 's \<Rightarrow> 's option"
where
  "ForEachByScore_loop h mn mx limit desc c i p s =
     (case p of None \<Rightarrow> Some s
      | Some a \<Rightarrow>
        if \<not> (i < limit \<or> limit < 0) then Some s
        else (case h a of None \<Rightarrow> None
              | Some n \<Rightarrow>
                (case c (element_of n) s of
                   (go, s') \<Rightarrow>
                     if \<not> go then Some s'
                     else (case step_node desc n of None \<Rightarrow> None
                           | Some p' \<Rightarrow>
                             (case p' of None \<Rightarrow> Some s'
                              | Some b \<Rightarrow>
                                (case h b of None \<Rightarrow> None
                                 | Some nb \<Rightarrow>
                                   if \<not> less mn (Score nb) \<or> \<not> greater mx (Score nb) then Some s'
                                   else ForEachByScore_loop h mn mx limit desc c (i + 1) p' s'))))))"

declare ForEachByScore_loop.simps [code]

definition ForEachByScore ::
  "SortedSet \<Rightarrow> ScoreBorder \<Rightarrow> ScoreBorder \<Rightarrow> int \<Rightarrow> int \<Rightarrow> bool \<Rightarrow> 's consumer \<Rightarrow> 's \<Rightarrow> 's option" where
  "ForEachByScore ss mn mx offset limit desc c s =
     do { p0 \<leftarrow> (if desc then getLastInScoreRange (zskip ss) mn mx else getFirstInScoreRange (zskip ss) mn mx);
          p \<leftarrow> skip_nodes (mem (zskip ss)) desc (nat offset) p0;
          ForEachByScore_loop (mem (zskip ss)) mn mx limit desc c 0 p s }"

definition RangeByScore ::
  "SortedSet \<Rightarrow> ScoreBorder \<Rightarrow> ScoreBorder \<Rightarrow> int \<Rightarrow> int \<Rightarrow> bool \<Rightarrow> Element list option" where
  "RangeByScore ss mn mx offset limit desc =
     (if limit = 0 \<or> offset < 0 then Some []
      else ForEachByScore ss mn mx offset limit desc (\<lambda>e slice. (True, slice @ [e])) [])"

text \<open>\<^verbatim>\<open>for _, element := range removed { delete(sortedSet.dict, element.Member) }\<close>\<close>

definition forget :: "Element list \<Rightarrow> (string, Element) mapping \<Rightarrow> (string, Element) mapping" where
  "forget removed d = fold (\<lambda>e. Mapping.delete (Member e)) removed d"

definition RemoveByScore :: "SortedSet \<Rightarrow> ScoreBorder \<Rightarrow> ScoreBorder \<Rightarrow> (SortedSet \<times> int) option" where
  "RemoveByScore ss mn mx =
     do { (sl1, removed) \<leftarrow> RemoveRangeByScore (zskip ss) mn mx 0;
          Some (\<lparr>dict = forget removed (dict ss), zskip = sl1\<rparr>, int (length removed)) }"

text \<open>\<open>PopMin\<close> returns a slice, nil (\<^term>\<open>None\<close>) when there is no first element.\<close>

definition PopMin :: "SortedSet \<Rightarrow> int \<Rightarrow> (SortedSet \<times> Element list option) option" where
  "PopMin ss count =
     do { first \<leftarrow> getFirstInScoreRange (zskip ss) negativeInfBorder positiveInfBorder;
          (case first of
             None \<Rightarrow> Some (ss, None)
           | Some a \<Rightarrow>
             do { n \<leftarrow> mem (zskip ss) a;
                  let border = \<lparr>bInf = 0, bValue = Score n, bExclude = False\<rparr>;
                  (sl1, removed) \<leftarrow> RemoveRangeByScore (zskip ss) border border count;
                  Some (\<lparr>dict = forget removed (dict ss), zskip = sl1\<rparr>, Some removed) }) }"

definition RemoveByRank :: "SortedSet \<Rightarrow> int \<Rightarrow> int \<Rightarrow> (SortedSet \<times> int) option" where
  "RemoveByRank ss start stop =
     do { (sl1, removed) \<leftarrow> RemoveRangeByRank (zskip ss) (i64 (start + 1)) (i64 (stop + 1));
          Some (\<lparr>dict = forget removed (dict ss), zskip = sl1\<rparr>, int (length removed)) }"

end
