(* ===== verification/SortedSetOps.thy ===== *)
theory SortedSetOps
  imports SortedSet
begin

text \<open>
  What the operations of the sorted set do, on the sorted list of its elements. \<open>zrep ss es\<close>: the
  skip list of \<open>ss\<close> holds \<open>es\<close> in order, and the dictionary maps exactly the members of \<open>es\<close>, each
  to its element. Every operation is total on such a set (no nil dereference, no endless loop),
  keeps the invariant and computes the list function its lemma names.
\<close>

section \<open>The invariant\<close>

definition zrep :: "SortedSet \<Rightarrow> Element list \<Rightarrow> bool" where
  "zrep ss es \<longleftrightarrow> sl_rep (zskip ss) es \<and> distinct (map Member es) \<and>
     (\<forall>m e. Mapping.lookup (dict ss) m = Some e \<longleftrightarrow> e \<in> set es \<and> Member e = m)"

definition without :: "string \<Rightarrow> Element list \<Rightarrow> Element list" where
  "without m es = filter (\<lambda>x. Member x \<noteq> m) es"

definition put :: "string \<Rightarrow> f64 \<Rightarrow> Element list \<Rightarrow> Element list" where
  "put m sc es = ins_elem \<lparr>Member = m, Score = sc\<rparr> (without m es)"

lemma zrepE:
  assumes "zrep ss es"
  obtains as where "sl_reps (zskip ss) as es"
  using assms by (auto simp: zrep_def sl_rep_iff)

lemma zrep_ok: "zrep ss es \<Longrightarrow> elems_ok es"
  by (auto simp: zrep_def sl_rep_def)

lemma zrep_lookup: "zrep ss es \<Longrightarrow> Mapping.lookup (dict ss) m = Some e \<longleftrightarrow> e \<in> set es \<and> Member e = m"
  by (simp add: zrep_def)

lemma zrep_lookup_None: "zrep ss es \<Longrightarrow> Mapping.lookup (dict ss) m = None \<longleftrightarrow> m \<notin> Member ` set es"
proof -
  assume z: "zrep ss es"
  have "(\<exists>e. Mapping.lookup (dict ss) m = Some e) \<longleftrightarrow> m \<in> Member ` set es"
    unfolding zrep_lookup [OF z] by blast
  then show ?thesis by (cases "Mapping.lookup (dict ss) m") simp_all
qed

lemma zrep_member_eq: "zrep ss es \<Longrightarrow> x \<in> set es \<Longrightarrow> y \<in> set es \<Longrightarrow> Member x = Member y \<Longrightarrow> x = y"
  by (auto simp: zrep_def distinct_map inj_on_def)

lemma zrep_Len: "zrep ss es \<Longrightarrow> Len ss = int (length es)"
proof -
  assume z: "zrep ss es"
  have "Mapping.keys (dict ss) = Member ` set es"
    using zrep_lookup [OF z] by (auto simp: keys_dom_lookup dom_def)
  moreover have "card (Member ` set es) = length es"
    using z distinct_card [of "map Member es"] by (simp add: zrep_def)
  ultimately show ?thesis by (simp add: Len_def Mapping.size_def)
qed

lemma zrep_empty: "zrep MakeSortedSet []"
proof -
  have "sl_struct makeSkiplist []"
    by (auto simp: sl_struct_def makeSkiplist_def makeNode_def ht_def el_def element_of_def maxLevel_def
        level_at_def idx_def)
  then show ?thesis by (simp add: zrep_def sl_rep_def MakeSortedSet_def)
qed

text \<open>The sorted list is determined by its set of elements.\<close>

lemma elems_ok_unique: "elems_ok xs \<Longrightarrow> elems_ok ys \<Longrightarrow> set xs = set ys \<Longrightarrow> xs = ys"
proof (induction xs arbitrary: ys)
  case (Cons x xs)
  then obtain y ys' where ys: "ys = y # ys'" by (cases ys) auto
  have o: "\<forall>z\<in>set xs. elem_less x z" "\<forall>z\<in>set ys'. elem_less y z" "elems_ok xs" "elems_ok ys'"
    using Cons.prems(1,2) ys by (auto simp: elems_ok_Cons)
  have xy: "x = y"
  proof (rule ccontr)
    assume "x \<noteq> y"
    then have "x \<in> set ys'" "y \<in> set xs" using Cons.prems(3) ys by auto
    then show False using o elem_less_asym by blast
  qed
  have "x \<notin> set xs" "y \<notin> set ys'" using o by auto
  then have "set xs = set ys'" using Cons.prems(3) ys xy by auto
  then show ?case using Cons.IH [OF o(3,4)] xy ys by simp
qed simp

lemma elems_ok_filter: "elems_ok es \<Longrightarrow> elems_ok (filter P es)"
  by (auto simp: elems_ok_def sorted_wrt_filter)

lemma put_same: "zrep ss es \<Longrightarrow> \<lparr>Member = m, Score = sc\<rparr> \<in> set es \<Longrightarrow> put m sc es = es"
proof (rule elems_ok_unique)
  assume z: "zrep ss es" and e: "\<lparr>Member = m, Score = sc\<rparr> \<in> set es"
  have "sc \<noteq> NaN" using bspec [OF conjunct2 [OF zrep_ok [OF z, unfolded elems_ok_def]] e] by simp
  then show "elems_ok (put m sc es)" unfolding put_def without_def
    by (intro elems_ok_ins_elem elems_ok_filter zrep_ok [OF z]) auto
  show "elems_ok es" by (rule zrep_ok [OF z])
  show "set (put m sc es) = set es"
    using e zrep_member_eq [OF z e] by (auto simp: put_def without_def set_ins_elem)
qed

lemma without_absent: "m \<notin> Member ` set es \<Longrightarrow> without m es = es"
  by (auto simp: without_def filter_id_conv)

lemma without_eq: "zrep ss es \<Longrightarrow> \<lparr>Member = m, Score = sc\<rparr> \<in> set es \<Longrightarrow>
    filter (\<lambda>x. x \<noteq> \<lparr>Member = m, Score = sc\<rparr>) es = without m es"
  unfolding without_def using zrep_member_eq by (intro filter_cong) fastforce+

lemma set_put: "set (put m sc es) = Set.insert \<lparr>Member = m, Score = sc\<rparr> {x \<in> set es. Member x \<noteq> m}"
  by (simp add: put_def without_def set_ins_elem)

lemma distinct_put: "distinct (map Member es) \<Longrightarrow> distinct (map Member (put m sc es))"
proof -
  assume d: "distinct (map Member es)"
  let ?e = "\<lparr>Member = m, Score = sc\<rparr>" and ?w = "without m es"
  let ?T = "takeWhile (\<lambda>x. elem_less x ?e) ?w" and ?D = "dropWhile (\<lambda>x. elem_less x ?e) ?w"
  have w: "distinct (map Member ?w)" using d by (simp add: without_def distinct_map_filter)
  have "m \<notin> Member ` set (?T @ ?D)" by (auto simp: without_def)
  moreover have "distinct (map Member (?T @ ?D))" using w by simp
  ultimately show ?thesis unfolding put_def ins_elem_def map_append set_append list.map distinct_append by auto
qed

lemma lookup_delete_if: "Mapping.lookup (Mapping.delete k m) k' = (if k' = k then None else Mapping.lookup m k')"
  by transfer simp

section \<open>Add, Remove\<close>

lemma Add_zrep [rep_intros]:
  assumes z: "zrep ss es" and sc: "sc \<noteq> NaN" and d: "draws_ok rnd"
  shows "\<exists>ss'. Add ss m sc rnd = Some (ss', m \<notin> Member ` set es) \<and> zrep ss' (put m sc es)"
proof -
  let ?e = "\<lparr>Member = m, Score = sc\<rparr>"
  obtain as where r: "sl_reps (zskip ss) as es" using z by (rule zrepE)
  note ok = zrep_ok [OF z]
  have res: "zrep \<lparr>dict = Mapping.update m ?e (dict ss), zskip = sl\<rparr> (put m sc es)"
    if "sl_reps sl as' (put m sc es)" for sl as'
    using that z sc distinct_put
    by (auto simp: zrep_def sl_rep_iff set_put lookup_update')
  show ?thesis
  proof (cases "Mapping.lookup (dict ss) m")
    case None
    then have m: "m \<notin> Member ` set es" using zrep_lookup_None [OF z] by simp
    then have "?e \<notin> set es" by (metis Element.select_convs(1) imageI)
    then obtain sl' as' a where i: "insert (zskip ss) m sc rnd = Some (sl', a)" "sl_reps sl' as' (put m sc es)"
      using insert_reps [OF r sc _ d, of m] without_absent [OF m] by (auto simp: put_def)
    show ?thesis using None m i res [OF i(2)] by (auto simp: Add_def Let_def)
  next
    case (Some e)
    then have e: "e \<in> set es" "Member e = m" using zrep_lookup [OF z] by auto
    then have m: "m \<in> Member ` set es" by auto
    have e': "\<lparr>Member = m, Score = Score e\<rparr> = e" using e(2) by (cases e) simp
    show ?thesis
    proof (cases "sc = Score e")
      case True
      then have "put m sc es = es" using put_same [OF z, of m sc] e e' by simp
      moreover have "zrep (ss\<lparr>dict := Mapping.update m ?e (dict ss)\<rparr>) es"
        using res [of "zskip ss" as] r calculation by (cases ss) simp
      ultimately show ?thesis using Some True sc m by (auto simp: Add_def Let_def)
    next
      case False
      have nan: "Score e \<noteq> NaN" using ok e(1) by (auto simp: elems_ok_def)
      have w: "filter (\<lambda>x. x \<noteq> e) es = without m es" using without_eq [OF z, of m "Score e"] e(1) e' by simp
      obtain sl1 as1 where r1: "remove (zskip ss) m (Score e) = Some (sl1, True)" "sl_reps sl1 as1 (without m es)"
        using remove_reps [OF r nan, of m] e(1) e' w by auto
      have "?e \<notin> set (without m es)" by (simp add: without_def)
      then obtain sl2 as2 a where i: "insert sl1 m sc rnd = Some (sl2, a)" "sl_reps sl2 as2 (put m sc es)"
        using insert_reps [OF r1(2) sc _ d, of m] by (auto simp: put_def)
      show ?thesis using Some False sc m r1(1) i res [OF i(2)] by (auto simp: Add_def Let_def)
    qed
  qed
qed

lemma Remove_zrep [rep_intros]:
  assumes z: "zrep ss es"
  shows "\<exists>ss'. Remove ss m = Some (ss', m \<in> Member ` set es) \<and> zrep ss' (without m es)"
proof -
  obtain as where r: "sl_reps (zskip ss) as es" using z by (rule zrepE)
  show ?thesis
  proof (cases "Mapping.lookup (dict ss) m")
    case None
    then have m: "m \<notin> Member ` set es" using zrep_lookup_None [OF z] by simp
    then show ?thesis using None z without_absent [OF m] by (auto simp: Remove_def)
  next
    case (Some e)
    then have e: "e \<in> set es" "Member e = m" using zrep_lookup [OF z] by auto
    have e': "\<lparr>Member = m, Score = Score e\<rparr> = e" using e(2) by (cases e) simp
    have nan: "Score e \<noteq> NaN" using zrep_ok [OF z] e(1) by (auto simp: elems_ok_def)
    have w: "filter (\<lambda>x. x \<noteq> e) es = without m es" using without_eq [OF z, of m "Score e"] e(1) e' by simp
    obtain sl1 as1 where r1: "remove (zskip ss) m (Score e) = Some (sl1, True)" "sl_reps sl1 as1 (without m es)"
      using remove_reps [OF r nan, of m] e(1) e' w by auto
    have "zrep \<lparr>dict = Mapping.delete m (dict ss), zskip = sl1\<rparr> (without m es)"
      using r1(2) z by (auto simp: zrep_def sl_rep_iff without_def lookup_delete_if distinct_map_filter)
    then show ?thesis using Some e r1(1) by (auto simp: Remove_def)
  qed
qed

lemma Get_zrep: "zrep ss es \<Longrightarrow> Get ss m = Some e \<longleftrightarrow> e \<in> set es \<and> Member e = m"
  by (simp add: Get_def zrep_lookup)

section \<open>Removals of a run of elements\<close>

lemma lookup_forget: "Mapping.lookup (forget removed d) m =
    (if m \<in> Member ` set removed then None else Mapping.lookup d m)"
  by (induction removed arbitrary: d) (auto simp: forget_def lookup_delete_if)

lemma forget_zrep:
  assumes z: "zrep ss es" and r: "sl_reps sl as (filter (\<lambda>e. e \<notin> set gone) es)" and g: "set gone \<subseteq> set es"
  shows "zrep \<lparr>dict = forget gone (dict ss), zskip = sl\<rparr> (filter (\<lambda>e. e \<notin> set gone) es)"
proof -
  have "x \<in> set gone" if "x \<in> set es" "Member x \<in> Member ` set gone" for x
    using that g zrep_member_eq [OF z] by auto
  then show ?thesis
    using z r by (auto simp: zrep_def sl_rep_iff lookup_forget distinct_map_filter)
qed

lemma set_cut: "set (cut n xs) \<subseteq> set xs"
  by (auto simp: cut_def dest: in_set_takeD)

lemma RemoveByScore_zrep [rep_intros]:
  assumes z: "zrep ss es"
  shows "\<exists>ss'. RemoveByScore ss mn mx = Some (ss', int (length (filter (in_borders mn mx) es))) \<and>
    zrep ss' (filter (\<lambda>e. \<not> in_borders mn mx e) es)"
proof -
  obtain as where r: "sl_reps (zskip ss) as es" using z by (rule zrepE)
  let ?g = "filter (in_borders mn mx) es"
  have g: "?g = cut 0 (filter (\<lambda>e. less mn (Score e) \<and> greater mx (Score e)) es)"
    by (simp add: cut_def in_borders_def [abs_def])
  have f: "filter (\<lambda>e. e \<notin> set ?g) es = filter (\<lambda>e. \<not> in_borders mn mx e) es"
    by (intro filter_cong) auto
  obtain sl' as' where s: "RemoveRangeByScore (zskip ss) mn mx 0 = Some (sl', ?g)"
    "sl_reps sl' as' (filter (\<lambda>e. e \<notin> set ?g) es)"
    using RemoveRangeByScore_reps [OF r g] by blast
  have "zrep \<lparr>dict = forget ?g (dict ss), zskip = sl'\<rparr> (filter (\<lambda>e. e \<notin> set ?g) es)"
    by (rule forget_zrep [OF z s(2)]) auto
  then show ?thesis using s(1) unfolding f by (simp add: RemoveByScore_def)
qed

text \<open>
  \<open>PopMin count\<close> removes at most \<open>count\<close> elements, all of the least score: the range is the
  closed interval from the first score to itself.
\<close>

lemma PopMin_zrep [rep_intros]:
  assumes z: "zrep ss es" and ne: "es \<noteq> []"
    and gone: "gone = cut count (filter (\<lambda>e. Score e = Score (hd es)) es)"
  shows "\<exists>ss'. PopMin ss count = Some (ss', Some gone) \<and> zrep ss' (filter (\<lambda>e. e \<notin> set gone) es)"
proof -
  obtain as where r: "sl_reps (zskip ss) as es" using z by (rule zrepE)
  have b: "\<not> borders_empty negativeInfBorder positiveInfBorder"
    by (simp add: borders_empty_def negativeInfBorder_def positiveInfBorder_def)
  have w: "less negativeInfBorder s" "greater positiveInfBorder s" for s
    by (simp_all add: less_def greater_def negativeInfBorder_def positiveInfBorder_def negativeInf_def positiveInf_def)
  have "takeWhile (\<lambda>e. \<not> less negativeInfBorder (Score e)) es = []" using ne w by (cases es) auto
  then have f: "getFirstInScoreRange (zskip ss) negativeInfBorder positiveInfBorder = Some (Some (as ! 0))"
    using getFirst_reps [OF r, of negativeInfBorder positiveInfBorder] b ne w
    by (cases es) (auto simp: in_borders_def)
  obtain n where n: "mem (zskip ss) (as ! 0) = Some n" "Score n = Score (hd es)"
    using reps_node [OF r, of 0] ne by (auto simp: hd_conv_nth)
  let ?b = "\<lparr>bInf = 0, bValue = Score n, bExclude = False\<rparr>"
  have eq: "less ?b s \<and> greater ?b s \<longleftrightarrow> s = Score (hd es)" if "s \<noteq> NaN" for s
    using that n(2) ne zrep_ok [OF z]
    by (cases s; cases "Score (hd es)") (auto simp: less_def greater_def negativeInf_def positiveInf_def elems_ok_def)
  have g: "gone = cut count (filter (\<lambda>e. less ?b (Score e) \<and> greater ?b (Score e)) es)"
    unfolding gone using eq zrep_ok [OF z] by (intro arg_cong [of _ _ "cut count"] filter_cong) (auto simp: elems_ok_def)
  obtain sl' as' where s: "RemoveRangeByScore (zskip ss) ?b ?b count = Some (sl', gone)"
    "sl_reps sl' as' (filter (\<lambda>e. e \<notin> set gone) es)"
    using RemoveRangeByScore_reps [OF r g] by blast
  have "set gone \<subseteq> set es" using set_cut [of count] unfolding gone by fastforce
  from forget_zrep [OF z s(2) this] show ?thesis using f n(1) s(1) by (simp add: PopMin_def)
qed

lemma PopMin_empty: "zrep ss [] \<Longrightarrow> PopMin ss count = Some (ss, None)"
  by (elim zrepE) (simp add: PopMin_def getFirst_reps)

lemma filter_notin_mid:
  assumes "distinct es" "es = xs @ gone @ ys"
  shows "filter (\<lambda>e. e \<notin> set gone) es = xs @ ys"
proof -
  have "filter (\<lambda>e. e \<notin> set gone) xs = xs" "filter (\<lambda>e. e \<notin> set gone) gone = []"
    "filter (\<lambda>e. e \<notin> set gone) ys = ys"
    using assms by (auto simp: filter_id_conv filter_empty_conv)
  then show ?thesis unfolding assms(2) filter_append by simp
qed

lemma RemoveByRank_zrep [rep_intros]:
  assumes z: "zrep ss es" and b: "is_i64 (start + 1)" "is_i64 (stop + 1)"
    and k: "k = min (length es) (nat start)"
  shows "\<exists>ss'. RemoveByRank ss start stop = Some (ss', int (length (take (nat (stop - int k)) (drop k es)))) \<and>
    zrep ss' (take k es @ drop (k + length (take (nat (stop - int k)) (drop k es))) es)"
proof -
  obtain as where r: "sl_reps (zskip ss) as es" using z by (rule zrepE)
  let ?g = "take (nat (stop - int k)) (drop k es)"
  have k': "k = min (length es) (nat (start + 1 - 1))" using k by simp
  have g: "?g = take (nat (stop + 1 - (int k + 1))) (drop k es)" by simp
  obtain sl' as' where s: "RemoveRangeByRank (zskip ss) (start + 1) (stop + 1) = Some (sl', ?g)"
    "sl_reps sl' as' (take k es @ drop (k + length ?g) es)"
    using RemoveRangeByRank_reps [OF r k' g] by blast
  have e: "es = take k es @ ?g @ drop (k + length ?g) es"
    by (metis append_take_drop_id append_eq_conv_conj drop_drop add.commute)
  have f: "filter (\<lambda>e. e \<notin> set ?g) es = take k es @ drop (k + length ?g) es"
    using filter_notin_mid [OF _ e] elems_ok_distinct [OF zrep_ok [OF z]] by blast
  have "set ?g \<subseteq> set es" by (meson in_set_dropD in_set_takeD subsetI)
  from forget_zrep [OF z _ this, unfolded f, OF s(2)] show ?thesis
    using s(1) b by (simp add: RemoveByRank_def i64_id)
qed

end
