(* ===== verification/SortedSetQueries.thy ===== *)
theory SortedSetQueries
  imports SortedSetOps
begin

text \<open>
  The operations of the sorted set that only read: ranks, walks over a range of ranks (\<open>ForEach\<close>,
  \<open>Range\<close>, \<open>Count\<close>) and over a range of scores (\<open>ForEachByScore\<close>, \<open>RangeByScore\<close>), in both
  directions. \<open>dir desc xs\<close> is the list in the direction of the walk.
\<close>

definition dir :: "bool \<Rightarrow> 'a list \<Rightarrow> 'a list" where
  "dir desc xs = (if desc then rev xs else xs)"

lemma length_dir [simp]: "length (dir desc xs) = length xs"
  by (simp add: dir_def)

lemma set_dir [simp]: "set (dir desc xs) = set xs"
  by (simp add: dir_def)

lemma filter_dir: "filter P (dir desc xs) = dir desc (filter P xs)"
  by (simp add: dir_def rev_filter)

section \<open>Following the pointers\<close>

definition ptr :: "bool \<Rightarrow> addr list \<Rightarrow> nat \<Rightarrow> addr option" where
  "ptr desc as j = (if j < length as then Some (dir desc as ! j) else None)"

lemma backed_nth: "backed h p xs \<Longrightarrow> k < length xs \<Longrightarrow> backp h (xs ! k) = (if k = 0 then p else Some (xs ! (k - 1)))"
  by (induction xs arbitrary: p k) (auto simp: nth_Cons split: nat.splits)

lemma ptr_node:
  assumes r: "sl_reps sl as es" and j: "j < length es"
  shows "\<exists>a n. ptr desc as j = Some a \<and> mem sl a = Some n \<and> element_of n = dir desc es ! j \<and>
    step_node desc n = Some (ptr desc as (Suc j))"
proof -
  note rr = sl_repsD [OF r] and s = sl_structD [OF sl_repsD(1) [OF r]]
  let ?k = "if desc then length es - Suc j else j"
  have k: "?k < length es" using j by (cases desc) auto
  obtain n where n: "mem sl (as ! ?k) = Some n" "element_of n = es ! ?k" using reps_node [OF r k] by auto
  have a: "dir desc as ! j = as ! ?k" "dir desc es ! j = es ! ?k"
    using j rr(4) by (simp_all add: dir_def rev_nth)
  have "step_node desc n = Some (ptr desc as (Suc j))"
  proof (cases desc)
    case True
    have "backward n = (if ?k = 0 then None else Some (as ! (?k - 1)))"
      using backed_nth [OF s(12), of ?k] n(1) k rr(4) by (simp add: backp_def)
    also have "\<dots> = ptr desc as (Suc j)" using True j rr(4) by (auto simp: ptr_def dir_def rev_nth)
    finally show ?thesis using True by (simp add: step_node_def)
  next
    case False
    then show ?thesis using reps_next [OF r k n(1)] rr(4) by (auto simp: step_node_def ptr_def dir_def)
  qed
  then show ?thesis using n a j rr(4) by (auto simp: ptr_def)
qed

lemma ForEach_loop_reps:
  assumes "sl_reps sl as es" "j + k \<le> length es"
  shows "ForEach_loop (mem sl) desc c k (ptr desc as j) s = Some (visit c s (take k (drop j (dir desc es))))"
  using assms(2)
proof (induction k arbitrary: j s)
  case (Suc k)
  obtain a n where n: "ptr desc as j = Some a" "mem sl a = Some n" "element_of n = dir desc es ! j"
    "step_node desc n = Some (ptr desc as (Suc j))"
    using ptr_node [OF assms(1), of j desc] Suc.prems by auto
  have d: "drop j (dir desc es) = dir desc es ! j # drop (Suc j) (dir desc es)"
    using Suc.prems by (simp add: Cons_nth_drop_Suc)
  show ?case using n d Suc.IH [of "Suc j"] Suc.prems by (auto split: prod.splits)
qed simp

lemma skip_nodes_reps:
  assumes "sl_reps sl as es"
  shows "skip_nodes (mem sl) desc k (ptr desc as j) = Some (ptr desc as (j + k))"
proof (induction k arbitrary: j)
  case (Suc k)
  show ?case
  proof (cases "j < length es")
    case True
    then show ?thesis using ptr_node [OF assms, of j desc] Suc by auto
  next
    case False
    then show ?thesis using sl_repsD(4) [OF assms] by (simp add: ptr_def)
  qed
qed simp

text \<open>
  From position \<open>j\<close> the score loop visits the element there whatever its score, then goes on while
  the elements lie within the borders, for at most \<open>limit\<close> elements in all.
\<close>

fun score_run :: "('e \<Rightarrow> bool) \<Rightarrow> 'e list \<Rightarrow> 'e list" where
  "score_run P [] = []"
| "score_run P (e # es) = e # takeWhile P es"

definition upto_limit :: "int \<Rightarrow> 'a list \<Rightarrow> 'a list" where
  "upto_limit limit xs = (if limit < 0 then xs else take (nat limit) xs)"

lemma ForEachByScore_loop_reps:
  assumes r: "sl_reps sl as es" and i: "0 \<le> i" "limit < 0 \<or> i \<le> limit"
  shows "ForEachByScore_loop (mem sl) mn mx limit desc c i (ptr desc as j) s =
    Some (visit c s (upto_limit (if limit < 0 then limit else limit - i)
      (score_run (in_borders mn mx) (drop j (dir desc es)))))"
  using i
proof (induction "length es - j" arbitrary: j i s)
  case 0
  then have "length es \<le> j" by simp
  then show ?case using sl_repsD(4) [OF r]
    by (subst ForEachByScore_loop.simps) (simp add: ptr_def upto_limit_def)
next
  case (Suc d)
  then have j: "j < length es" by simp
  obtain a n where n: "ptr desc as j = Some a" "mem sl a = Some n" "element_of n = dir desc es ! j"
    "step_node desc n = Some (ptr desc as (Suc j))"
    using ptr_node [OF r j, of desc] by auto
  have d: "drop j (dir desc es) = dir desc es ! j # drop (Suc j) (dir desc es)"
    using j by (simp add: Cons_nth_drop_Suc)
  show ?case
  proof (cases "i < limit \<or> limit < 0")
    case False
    then have "limit - i = 0" "\<not> limit < 0" using Suc.prems by auto
    then show ?thesis using n False by (subst ForEachByScore_loop.simps) (simp add: upto_limit_def)
  next
    case go: True
    have u: "upto_limit (if limit < 0 then limit else limit - i) (x # xs) =
        x # upto_limit (if limit < 0 then limit else limit - (i + 1)) xs" for x :: Element and xs
    proof -
      have "0 \<le> limit \<Longrightarrow> i < limit \<Longrightarrow> nat (limit - i) = Suc (nat (limit - (i + 1)))" by simp
      then show ?thesis using go by (auto simp: upto_limit_def)
    qed
    obtain more s' where c: "c (dir desc es ! j) s = (more, s')" by (cases "c (dir desc es ! j) s")
    show ?thesis
    proof (cases "more \<and> Suc j < length es")
      case False
      then show ?thesis using n d c go sl_repsD(4) [OF r] u
        by (subst ForEachByScore_loop.simps) (auto simp: ptr_def upto_limit_def)
    next
      case True
      obtain b nb where nb: "ptr desc as (Suc j) = Some b" "mem sl b = Some nb" "element_of nb = dir desc es ! Suc j"
        using ptr_node [OF r, of "Suc j" desc] True by auto
      have d2: "drop (Suc j) (dir desc es) = dir desc es ! Suc j # drop (Suc (Suc j)) (dir desc es)"
        using True by (simp add: Cons_nth_drop_Suc)
      have w: "(\<not> less mn (Score nb) \<or> \<not> greater mx (Score nb)) = (\<not> in_borders mn mx (dir desc es ! Suc j))"
        unfolding nb(3) [symmetric] by (simp add: in_borders_def element_of_def)
      have hyp: "d = length es - Suc j" "0 \<le> i + 1" "limit < 0 \<or> i + 1 \<le> limit"
        using Suc.hyps(2) Suc.prems go by auto
      show ?thesis using n c go True nb w d d2 Suc.hyps(1) [OF hyp] u
        by (subst ForEachByScore_loop.simps) (auto simp: upto_limit_def)
    qed
  qed
qed

section \<open>Ranks\<close>

lemma length_takeWhile_elem_less:
  assumes ok: "elems_ok es" and i: "i < length es"
  shows "length (takeWhile (\<lambda>x. elem_less x (es ! i)) es) = i"
proof -
  have e: "es = take i es @ es ! i # drop (Suc i) es" using i by (simp add: id_take_nth_drop [symmetric])
  have "elems_ok (take i es @ es ! i # drop (Suc i) es)" using ok e by simp
  then have o: "\<forall>x\<in>set (take i es). elem_less x (es ! i)" unfolding elems_ok_append by simp
  have "takeWhile (\<lambda>x. elem_less x (es ! i)) (take i es @ es ! i # drop (Suc i) es) = take i es"
    using o by (simp add: takeWhile_append2)
  then have "takeWhile (\<lambda>x. elem_less x (es ! i)) es = take i es" unfolding e [symmetric] .
  then show ?thesis using i by simp
qed

lemma GetRank_zrep:
  assumes z: "zrep ss es" and i: "i < length es" and m: "Member (es ! i) = m" "m \<noteq> []"
  shows "GetRank ss m desc = Some (if desc then int (length es) - 1 - int i else int i)"
proof -
  obtain as where r: "sl_reps (zskip ss) as es" using z by (rule zrepE)
  define e where "e = es ! i"
  have e: "e \<in> set es" "Member e = m" using i m(1) by (simp_all add: e_def)
  have e': "\<lparr>Member = m, Score = Score e\<rparr> = e" using e(2) by (cases e) simp
  have nan: "Score e \<noteq> NaN" using zrep_ok [OF z] e by (simp add: elems_ok_def)
  have only: "\<forall>x\<in>set es. Member x = m \<longrightarrow> x = \<lparr>Member = m, Score = Score e\<rparr>"
    unfolding e' using zrep_member_eq [OF z _ e(1)] by (simp add: e(2))
  have l: "length (takeWhile (\<lambda>x. elem_less x e) es) = i"
    unfolding e_def by (rule length_takeWhile_elem_less [OF zrep_ok [OF z] i])
  have "Mapping.lookup (dict ss) m = Some e" using zrep_lookup [OF z] e by simp
  moreover have "getRank (zskip ss) m (Score e) = Some (int i + 1)"
    using getRank_reps [OF r nan m(2) only] unfolding e' l if_P [OF e(1)] .
  ultimately show ?thesis using sl_repsD(5) [OF r] by (simp add: GetRank_def)
qed

lemma GetRank_absent: "zrep ss es \<Longrightarrow> m \<notin> Member ` set es \<Longrightarrow> GetRank ss m desc = Some (-1)"
  using zrep_lookup_None [of ss es m] by (simp add: GetRank_def)

section \<open>Walks over ranks\<close>

lemma ForEach_zrep:
  assumes z: "zrep ss es" and b: "0 \<le> start" "start < int (length es)" "start \<le> stop" "stop \<le> int (length es)"
  shows "ForEach ss start stop desc c s =
    Inr (visit c s (take (nat (stop - start)) (drop (nat start) (dir desc es))))"
proof -
  obtain as where r: "sl_reps (zskip ss) as es" using z by (rule zrepE)
  note rr = sl_repsD [OF r] and st = sl_structD [OF sl_repsD(1) [OF r]]
  obtain f0 where f0: "level_at (mem (zskip ss)) (header (zskip ss)) 0 = Some f0" "forward f0 = ptr False as 0"
    using struct_forward0 [OF rr(1), of 0 "header (zskip ss)"] by (auto simp: ptr_def dir_def)
  have t: "tail (zskip ss) = ptr True as 0" using st(13) by (simp add: ptr_def dir_def rev_nth last_conv_nth)
  have up: "getByRank (zskip ss) (start + 1) = Some (ptr False as (nat start))"
    using getByRank_reps [OF r] b rr(4) by (simp add: ptr_def dir_def)
  have down: "getByRank (zskip ss) (int (length es) - start) = Some (ptr True as (nat start))"
  proof -
    have "nat (int (length es) - start - 1) = length es - Suc (nat start)" using b by simp
    then show ?thesis using getByRank_reps [OF r] b rr(4) by (simp add: ptr_def dir_def rev_nth nat_less_iff)
  qed
  have bound: "nat start + nat (stop - start) \<le> length es" using b by simp
  note run = ForEach_loop_reps [OF r bound, of desc c s]
  show ?thesis
    using b run f0 t up down by (cases "0 < start"; cases desc) (auto simp: ForEach_def zrep_Len [OF z] Let_def)
qed

lemma ForEach_panic:
  assumes z: "zrep ss es"
  shows "start < 0 \<or> int (length es) \<le> start \<Longrightarrow> ForEach ss start stop desc c s = Inl (IllegalStart start)"
    and "0 \<le> start \<Longrightarrow> start < int (length es) \<Longrightarrow> stop < start \<or> int (length es) < stop \<Longrightarrow>
      ForEach ss start stop desc c s = Inl (IllegalEnd stop)"
  using zrep_Len [OF z] by (auto simp: ForEach_def)

lemma visit_fill:
  "i + length xs \<le> length slice \<Longrightarrow>
   visit (\<lambda>e (slice, i). (True, slice[i := Some e], Suc i)) (slice, i) xs =
     (take i slice @ map Some xs @ drop (i + length xs) slice, i + length xs)"
proof (induction xs arbitrary: slice i)
  case (Cons x xs)
  have "take (Suc i) (slice[i := Some x]) = take i slice @ [Some x]"
    using Cons.prems by (simp add: take_Suc_conv_app_nth)
  then show ?case using Cons.IH [of "Suc i" "slice[i := Some x]"] Cons.prems by simp
qed simp

lemma Range_zrep:
  assumes z: "zrep ss es" and b: "0 \<le> start" "start < int (length es)" "start \<le> stop" "stop \<le> int (length es)"
    and len: "is_i64 (int (length es))"
  shows "Range ss start stop desc = Inr (map Some (take (nat (stop - start)) (drop (nat start) (dir desc es))))"
proof -
  let ?xs = "take (nat (stop - start)) (drop (nat start) (dir desc es))"
  have "is_i64 (stop - start)" using b len by (auto simp: is_i64_def)
  moreover have "length ?xs = nat (stop - start)" using b by simp
  ultimately show ?thesis
    using b visit_fill [of 0 ?xs "replicate (nat (stop - start)) None"]
    by (simp add: Range_def i64_id ForEach_zrep [OF z])
qed

lemma visit_count:
  "elems_ok es \<Longrightarrow>
   visit (\<lambda>e i. if \<not> less mn (Score e) then (True, i)
              else if \<not> greater mx (Score e) then (False, i) else (True, i + 1)) (k :: int) es =
     k + int (length (filter (in_borders mn mx) es))"
proof (induction es arbitrary: k)
  case (Cons e es)
  then have ok: "elems_ok es" by (simp add: elems_ok_Cons)
  have stop: "filter (in_borders mn mx) es = []" if "\<not> greater mx (Score e)"
  proof -
    have "\<not> greater mx (Score x)" if x: "x \<in> set es" for x
      using down_closed_greater [of mx "e # es"] Cons.prems x \<open>\<not> greater mx (Score e)\<close>
      by (auto simp: down_closed_def elems_ok_Cons)
    then show ?thesis by (auto simp: filter_empty_conv in_borders_def)
  qed
  consider "\<not> less mn (Score e)" | "less mn (Score e)" "\<not> greater mx (Score e)" | "in_borders mn mx e"
    by (auto simp: in_borders_def)
  then show ?case
  proof cases
    case 2
    then show ?thesis using stop by (simp add: in_borders_def [of mn mx e])
  qed (use Cons.IH [OF ok] in \<open>simp_all add: in_borders_def [of mn mx e]\<close>)
qed simp

lemma Count_zrep:
  assumes z: "zrep ss es"
  shows "Count ss mn mx =
    (if es = [] then Inl (IllegalStart 0) else Inr (int (length (filter (in_borders mn mx) es))))"
proof (cases "es = []")
  case True
  then show ?thesis using ForEach_panic(1) [OF z, of 0] by (simp add: Count_def)
next
  case False
  then show ?thesis
    using visit_count [OF zrep_ok [OF z], of mn mx 0]
    by (simp add: Count_def zrep_Len [OF z] ForEach_zrep [OF z] dir_def)
qed

section \<open>Walks over scores\<close>

lemma dropWhile_borders:
  assumes ok: "elems_ok es"
  shows "drop (length (takeWhile (\<lambda>e. \<not> less mn (Score e)) es)) es = filter (\<lambda>e. less mn (Score e)) es"
    "drop (length (takeWhile (\<lambda>e. greater mx (Score e)) es)) es = filter (\<lambda>e. \<not> greater mx (Score e)) es"
  using down_closed_filter(2) [OF ok down_closed_not_less [of mn]] down_closed_filter(2) [OF ok down_closed_greater [of mx]]
  by (simp_all add: dropWhile_eq_drop)

lemma length_takeWhile_lt: "\<exists>x\<in>set xs. \<not> P x \<Longrightarrow> length (takeWhile P xs) < length xs"
  by (induction xs) auto

lemma length_takeWhile_rev:
  assumes "\<forall>x\<in>set (dropWhile P xs). \<not> P x"
  shows "length (takeWhile (\<lambda>x. \<not> P x) (rev xs)) = length xs - length (takeWhile P xs)" (is ?len)
    and "dropWhile (\<lambda>x. \<not> P x) (rev xs) = rev (takeWhile P xs)" (is ?drop)
proof -
  let ?T = "takeWhile P xs" and ?D = "dropWhile P xs"
  have "rev xs = rev ?D @ rev ?T" unfolding rev_append [symmetric] takeWhile_dropWhile_id ..
  moreover have "takeWhile (\<lambda>x. \<not> P x) (rev ?D @ rev ?T) = rev ?D @ takeWhile (\<lambda>x. \<not> P x) (rev ?T)"
    using assms by (intro takeWhile_append2) simp
  moreover have "takeWhile (\<lambda>x. \<not> P x) (rev ?T) = []"
  proof (cases "rev ?T")
    case (Cons a list)
    then have "a \<in> set ?T" by (metis list.set_intros(1) set_rev)
    then show ?thesis using Cons set_takeWhileD [of a P xs] by simp
  qed simp
  moreover have "length xs = length ?T + length ?D" by (metis length_append takeWhile_dropWhile_id)
  ultimately have t: "takeWhile (\<lambda>x. \<not> P x) (rev xs) = rev ?D" and l: "length xs = length ?T + length ?D"
    and e: "rev xs = rev ?D @ rev ?T" by simp_all
  show ?len using t l by simp
  show ?drop by (metis e t same_append_eq takeWhile_dropWhile_id)
qed

text \<open>The elements from the first one within the borders on, in the direction of the walk.\<close>

definition from_first :: "ScoreBorder \<Rightarrow> ScoreBorder \<Rightarrow> bool \<Rightarrow> Element list \<Rightarrow> Element list" where
  "from_first mn mx desc es =
     dropWhile (\<lambda>e. \<not> (if desc then greater mx (Score e) else less mn (Score e))) (dir desc es)"

lemma ForEachByScore_zrep:
  assumes z: "zrep ss es"
  shows "ForEachByScore ss mn mx offset limit desc c s =
    Some (if \<not> borders_empty mn mx \<and> (\<exists>e\<in>set es. in_borders mn mx e)
      then visit c s (upto_limit limit (score_run (in_borders mn mx) (drop (nat offset) (from_first mn mx desc es))))
      else s)"
proof -
  obtain as where r: "sl_reps (zskip ss) as es" using z by (rule zrepE)
  note rr = sl_repsD [OF r]
  let ?h = "mem (zskip ss)"
  let ?start = "if desc then getLastInScoreRange (zskip ss) mn mx else getFirstInScoreRange (zskip ss) mn mx"
  define j where "j = length (takeWhile (\<lambda>e. \<not> (if desc then greater mx (Score e) else less mn (Score e))) (dir desc es))"
  show ?thesis
  proof (cases "\<not> borders_empty mn mx \<and> (\<exists>e\<in>set es. in_borders mn mx e)")
    case False
    then have "?start = Some (ptr desc as (length as))"
      using getFirst_reps [OF r, of mn mx] getLast_reps [OF r, of mn mx] by (auto simp: ptr_def)
    then show ?thesis
      using False skip_nodes_reps [OF r, of desc "nat offset" "length as"]
        ForEachByScore_loop_reps [OF r order_refl, of limit mn mx desc c "length as + nat offset" s] rr(4)
      by (cases "limit < 0") (auto simp: ForEachByScore_def upto_limit_def)
  next
    case True
    have j: "?start = Some (ptr desc as j)"
    proof (cases desc)
      case False
      have "j < length es" using True False length_takeWhile_lt [of es "\<lambda>e. \<not> less mn (Score e)"]
        by (auto simp: j_def dir_def in_borders_def)
      then show ?thesis using getFirst_reps [OF r, of mn mx] True False rr(4) by (simp add: ptr_def j_def dir_def)
    next
      case desc: True
      let ?k = "length (takeWhile (\<lambda>e. greater mx (Score e)) es)"
      have d: "\<forall>x\<in>set (dropWhile (\<lambda>e. greater mx (Score e)) es). \<not> greater mx (Score x)"
        by (rule down_closed_split [OF rr(3) down_closed_greater])
      have k: "0 < ?k" using True d takeWhile_dropWhile_id [of "\<lambda>e. greater mx (Score e)" es]
        by (metis append_Nil in_borders_def length_greater_0_conv)
      define k' where "k' = ?k"
      have "j = length es - ?k" using length_takeWhile_rev(1) [OF d] desc by (simp add: j_def dir_def)
      then have "j = length es - k'" "0 < k'" "k' \<le> length es"
        using k length_takeWhile_le [of "\<lambda>e. greater mx (Score e)" es] by (simp_all add: k'_def)
      then have "ptr desc as j = Some (as ! (k' - 1))" using desc rr(4)
        by (simp add: ptr_def dir_def rev_nth)
      then show ?thesis using getLast_reps [OF r, of mn mx] True desc by (simp add: k'_def)
    qed
    show ?thesis
      using True j skip_nodes_reps [OF r, of desc "nat offset" j]
        ForEachByScore_loop_reps [OF r order_refl, of limit mn mx desc c "j + nat offset" s]
      by (cases "limit < 0") (auto simp: ForEachByScore_def from_first_def j_def dropWhile_eq_drop add.commute)
  qed
qed

lemma visit_append: "visit (\<lambda>e slice. (True, slice @ [e])) s es = s @ es"
  by (rule visit_collect)

lemma in_borders_dir:
  assumes ok: "elems_ok es"
  shows "\<exists>tl. from_first mn mx desc es = dir desc (filter (in_borders mn mx) es) @ tl \<and> (\<forall>x\<in>set tl. \<not> in_borders mn mx x)"
proof (cases desc)
  case False
  let ?X = "filter (\<lambda>e. less mn (Score e)) es"
  have X: "from_first mn mx desc es = ?X"
    using False down_closed_filter(2) [OF ok down_closed_not_less [of mn]] by (simp add: from_first_def dir_def)
  have okX: "elems_ok ?X" by (rule elems_ok_filter [OF ok])
  have "takeWhile (\<lambda>e. greater mx (Score e)) ?X = filter (\<lambda>e. greater mx (Score e)) ?X"
    by (rule down_closed_filter(1) [OF okX down_closed_greater])
  also have "\<dots> = filter (in_borders mn mx) es" by (auto simp: in_borders_def intro: filter_cong)
  finally have "?X = filter (in_borders mn mx) es @ dropWhile (\<lambda>e. greater mx (Score e)) ?X"
    by (metis takeWhile_dropWhile_id)
  moreover have "\<forall>x\<in>set (dropWhile (\<lambda>e. greater mx (Score e)) ?X). \<not> in_borders mn mx x"
    unfolding in_borders_def using down_closed_split [OF okX down_closed_greater [of mx]] by blast
  ultimately show ?thesis using X False by (auto simp: dir_def)
next
  case True
  let ?X = "filter (\<lambda>e. greater mx (Score e)) es"
  have X: "from_first mn mx desc es = rev ?X"
    using True length_takeWhile_rev(2) [OF down_closed_split [OF ok down_closed_greater [of mx]]]
      down_closed_filter(1) [OF ok down_closed_greater [of mx]] by (simp add: from_first_def dir_def)
  have okX: "elems_ok ?X" by (rule elems_ok_filter [OF ok])
  have "dropWhile (\<lambda>e. \<not> less mn (Score e)) ?X = filter (\<lambda>e. less mn (Score e)) ?X"
    using down_closed_filter(2) [OF okX down_closed_not_less [of mn]] by simp
  also have "\<dots> = filter (in_borders mn mx) es" by (auto simp: in_borders_def intro: filter_cong)
  finally have "?X = takeWhile (\<lambda>e. \<not> less mn (Score e)) ?X @ filter (in_borders mn mx) es"
    by (metis takeWhile_dropWhile_id)
  then have "rev ?X = rev (filter (in_borders mn mx) es) @ rev (takeWhile (\<lambda>e. \<not> less mn (Score e)) ?X)"
    by (metis rev_append)
  moreover have "\<forall>x\<in>set (takeWhile (\<lambda>e. \<not> less mn (Score e)) ?X). \<not> in_borders mn mx x"
    unfolding in_borders_def by (blast dest: set_takeWhileD)
  ultimately show ?thesis using X True by (auto simp: dir_def)
qed

text \<open>
  The range with an offset that stays within it: the elements within the borders, in the direction
  asked for, without the first \<open>offset\<close>, at most \<open>limit\<close> of them.
\<close>

lemma RangeByScore_zrep:
  assumes z: "zrep ss es" and b: "\<not> borders_empty mn mx" and o: "0 \<le> offset"
    and off: "nat offset < length (filter (in_borders mn mx) es) \<or> filter (in_borders mn mx) es = []"
  shows "RangeByScore ss mn mx offset limit desc =
    Some (upto_limit limit (drop (nat offset) (dir desc (filter (in_borders mn mx) es))))"
proof -
  let ?F = "dir desc (filter (in_borders mn mx) es)"
  obtain tl where tl: "from_first mn mx desc es = ?F @ tl" "\<forall>x\<in>set tl. \<not> in_borders mn mx x"
    using in_borders_dir [OF zrep_ok [OF z]] by blast
  have run: "score_run P (xs @ ys) = xs" if "xs \<noteq> []" "\<forall>x\<in>set xs. P x" "\<forall>x\<in>set ys. \<not> P x"
    for P and xs ys :: "Element list"
  proof -
    have "takeWhile P ys = []" using that(3) by (cases ys) auto
    then show ?thesis using that by (cases xs) (auto simp: takeWhile_append2)
  qed
  show ?thesis
  proof (cases "filter (in_borders mn mx) es = []")
    case True
    then show ?thesis using ForEachByScore_zrep [OF z, of mn mx offset limit desc "\<lambda>e slice. (True, slice @ [e])" "[]"] o
      by (auto simp: RangeByScore_def filter_empty_conv dir_def upto_limit_def)
  next
    case False
    then have ex: "\<exists>e\<in>set es. in_borders mn mx e" by (auto simp: filter_empty_conv)
    have "nat offset < length ?F" using off False by simp
    then have ne: "drop (nat offset) ?F \<noteq> []" by simp
    have "\<forall>x\<in>set (drop (nat offset) ?F). in_borders mn mx x" by (auto dest: in_set_dropD)
    from run [OF ne this tl(2)] have "score_run (in_borders mn mx) (drop (nat offset) (?F @ tl)) = drop (nat offset) ?F"
      using off False by simp
    then show ?thesis
      using ForEachByScore_zrep [OF z, of mn mx offset limit desc "\<lambda>e slice. (True, slice @ [e])" "[]"] o b ex tl(1)
      by (auto simp: RangeByScore_def visit_append upto_limit_def)
  qed
qed

end
