(* ===== verification/ScoreIndex.thy ===== *)
theory ScoreIndex
  imports SortedSetQueries
begin

text \<open>
  The contract between the sorted set and the tables that use it as an index: an abstract map from
  members to scores, and what each operation a client calls does to it. The connection manager of
  the gateway and the user-node cache of the online server both keep a table beside such an index;
  the lemmas on keeping the two in step are proved once, in the locales. The sorted set of
  \<^verbatim>\<open>zset.go\<close> is the instance the code runs.
\<close>

section \<open>The contract\<close>

locale score_index =
  fixes ok :: "'s \<Rightarrow> (string \<rightharpoonup> f64) \<Rightarrow> bool"
    and add :: "'s \<Rightarrow> string \<Rightarrow> f64 \<Rightarrow> 'r \<Rightarrow> ('s \<times> bool) option"
    and good :: "'r \<Rightarrow> bool"
    and rem :: "'s \<Rightarrow> string \<Rightarrow> ('s \<times> bool) option"
    and len :: "'s \<Rightarrow> int"
  assumes add_law: "ok s \<sigma> \<Longrightarrow> sc \<noteq> NaN \<Longrightarrow> good r \<Longrightarrow>
      \<exists>s'. add s m sc r = Some (s', \<sigma> m = None) \<and> ok s' (\<sigma>(m \<mapsto> sc))"
    and rem_law: "ok s \<sigma> \<Longrightarrow> \<exists>s'. rem s m = Some (s', \<sigma> m \<noteq> None) \<and> ok s' (\<sigma>(m := None))"
    and len_law: "ok s \<sigma> \<Longrightarrow> len s = int (card (dom \<sigma>))"
begin

lemma add_new:
  assumes "ok s \<sigma>" "dom \<sigma> = dom tab" "tab m = None" "sc \<noteq> NaN" "good r"
  shows "\<exists>s'. add s m sc r = Some (s', True) \<and> ok s' (\<sigma>(m \<mapsto> sc)) \<and> dom (\<sigma>(m \<mapsto> sc)) = dom (tab(m \<mapsto> v))"
proof -
  have "\<sigma> m = None" using assms(2,3) by (metis domIff)
  then show ?thesis using add_law [OF assms(1,4,5), of m] assms(2) by auto
qed

lemma add_known:
  assumes "ok s \<sigma>" "dom \<sigma> = dom tab" "tab m = Some v" "sc \<noteq> NaN" "good r"
  shows "\<exists>s'. add s m sc r = Some (s', False) \<and> ok s' (\<sigma>(m \<mapsto> sc)) \<and> dom (\<sigma>(m \<mapsto> sc)) = dom tab"
proof -
  have m: "m \<in> dom \<sigma>" using assms(2,3) by auto
  then have "\<sigma> m \<noteq> None" by auto
  moreover have "dom (\<sigma>(m \<mapsto> sc)) = dom tab" using m assms(2) by auto
  ultimately show ?thesis using add_law [OF assms(1,4,5), of m] by auto
qed

lemma rem_step:
  assumes "ok s \<sigma>" "dom \<sigma> = dom tab"
  shows "\<exists>s'. rem s m = Some (s', tab m \<noteq> None) \<and> ok s' (\<sigma>(m := None)) \<and>
    dom (\<sigma>(m := None)) = dom (tab(m := None))"
proof -
  have "\<sigma> m \<noteq> None \<longleftrightarrow> tab m \<noteq> None" using assms(2) by (metis domIff)
  then show ?thesis using rem_law [OF assms(1), of m] assms(2) by auto
qed

lemma len_step: "ok s \<sigma> \<Longrightarrow> dom \<sigma> = dom tab \<Longrightarrow> len s = int (card (dom tab))"
  using len_law by simp

end

locale ranged_index = score_index +
  fixes range :: "'a \<Rightarrow> ScoreBorder \<Rightarrow> ScoreBorder \<Rightarrow> Element list option"
    and pop :: "'a \<Rightarrow> ('a \<times> Element list option) option"
  assumes range_law: "ok s \<sigma> \<Longrightarrow> \<not> borders_empty mn mx \<Longrightarrow>
      \<exists>es. range s mn mx = Some es \<and> distinct (map Member es) \<and>
        (\<forall>e. e \<in> set es \<longleftrightarrow> \<sigma> (Member e) = Some (Score e) \<and> in_borders mn mx e)"
    and pop_law: "ok s \<sigma> \<Longrightarrow> dom \<sigma> \<noteq> {} \<Longrightarrow>
      \<exists>s' e. pop s = Some (s', Some [e]) \<and> \<sigma> (Member e) = Some (Score e) \<and>
        (\<forall>m sc. \<sigma> m = Some sc \<longrightarrow> Score e \<le> sc) \<and> ok s' (\<sigma>(Member e := None))"
    and pop_empty_law: "ok s \<sigma> \<Longrightarrow> dom \<sigma> = {} \<Longrightarrow> pop s = Some (s, None)"
begin

text \<open>Popping the least member and forgetting it in the table.\<close>

lemma pop_step:
  assumes "ok s \<sigma>" "dom \<sigma> = dom tab" "tab k = Some v"
  shows "\<exists>s' e. pop s = Some (s', Some [e]) \<and> tab (Member e) \<noteq> None \<and>
    (\<forall>m sc. \<sigma> m = Some sc \<longrightarrow> Score e \<le> sc) \<and> \<sigma> (Member e) = Some (Score e) \<and>
    ok s' (\<sigma>(Member e := None)) \<and> dom (\<sigma>(Member e := None)) = dom (tab(Member e := None))"
proof -
  have "dom \<sigma> \<noteq> {}" using assms(2,3) by auto
  from pop_law [OF assms(1) this] obtain s' e where "pop s = Some (s', Some [e])" "\<sigma> (Member e) = Some (Score e)"
    "\<forall>m sc. \<sigma> m = Some sc \<longrightarrow> Score e \<le> sc" "ok s' (\<sigma>(Member e := None))" by blast
  moreover from this(2) have "tab (Member e) \<noteq> None" using assms(2) by (metis domI domIff)
  ultimately show ?thesis using assms(2) by auto
qed

end

section \<open>The sorted set provides it\<close>

definition scored :: "SortedSet \<Rightarrow> (string \<rightharpoonup> f64) \<Rightarrow> bool" where
  "scored ss \<sigma> \<longleftrightarrow> (\<exists>es. zrep ss es \<and> (\<forall>m sc. \<sigma> m = Some sc \<longleftrightarrow> \<lparr>Member = m, Score = sc\<rparr> \<in> set es))"

lemma scored_empty: "scored MakeSortedSet Map.empty"
  using zrep_empty by (auto simp: scored_def)

lemma scored_in: "(\<forall>m sc. \<sigma> m = Some sc \<longleftrightarrow> \<lparr>Member = m, Score = sc\<rparr> \<in> set es) \<Longrightarrow>
    e \<in> set es \<longleftrightarrow> \<sigma> (Member e) = Some (Score e)"
  by (cases e) auto

lemma scored_None:
  assumes "\<forall>m sc. \<sigma> m = Some sc \<longleftrightarrow> \<lparr>Member = m, Score = sc\<rparr> \<in> set es"
  shows "\<sigma> m = None \<longleftrightarrow> m \<notin> Member ` set es"
proof
  assume n: "\<sigma> m = None"
  show "m \<notin> Member ` set es"
  proof
    assume "m \<in> Member ` set es"
    then obtain e where "e \<in> set es" "Member e = m" by auto
    then show False using scored_in [OF assms, of e] n by simp
  qed
next
  assume "m \<notin> Member ` set es"
  then have "\<lparr>Member = m, Score = sc\<rparr> \<notin> set es" for sc by (metis Element.select_convs(1) imageI)
  then show "\<sigma> m = None" using assms by (metis not_None_eq)
qed

lemma scored_finite: "scored ss \<sigma> \<Longrightarrow> finite (dom \<sigma>)"
proof -
  assume "scored ss \<sigma>"
  then obtain es where s: "\<forall>m sc. \<sigma> m = Some sc \<longleftrightarrow> \<lparr>Member = m, Score = sc\<rparr> \<in> set es"
    by (auto simp: scored_def)
  have "m \<in> dom \<sigma> \<longleftrightarrow> m \<in> Member ` set es" for m unfolding domIff scored_None [OF s] by simp
  then have "dom \<sigma> = Member ` set es" by blast
  then show ?thesis by simp
qed

lemma scored_Len: "scored ss \<sigma> \<Longrightarrow> Len ss = int (card (dom \<sigma>))"
proof -
  assume "scored ss \<sigma>"
  then obtain es where z: "zrep ss es" and s: "\<forall>m sc. \<sigma> m = Some sc \<longleftrightarrow> \<lparr>Member = m, Score = sc\<rparr> \<in> set es"
    by (auto simp: scored_def)
  have "m \<in> dom \<sigma> \<longleftrightarrow> m \<in> Member ` set es" for m unfolding domIff scored_None [OF s] by simp
  then have "dom \<sigma> = Member ` set es" by blast
  moreover have "card (Member ` set es) = length es"
    using z distinct_card [of "map Member es"] by (simp add: zrep_def)
  ultimately show ?thesis using zrep_Len [OF z] by simp
qed

lemma scored_Add:
  assumes "scored ss \<sigma>" "sc \<noteq> NaN" "draws_ok rnd"
  shows "\<exists>ss'. Add ss m sc rnd = Some (ss', \<sigma> m = None) \<and> scored ss' (\<sigma>(m \<mapsto> sc))"
proof -
  obtain es where z: "zrep ss es" and s: "\<forall>m sc. \<sigma> m = Some sc \<longleftrightarrow> \<lparr>Member = m, Score = sc\<rparr> \<in> set es"
    using assms(1) by (auto simp: scored_def)
  obtain ss' where a: "Add ss m sc rnd = Some (ss', m \<notin> Member ` set es)" "zrep ss' (put m sc es)"
    using Add_zrep [OF z assms(2,3)] by blast
  have "scored ss' (\<sigma>(m \<mapsto> sc))"
    unfolding scored_def using a(2) s by (intro exI [of _ "put m sc es"]) (auto simp: set_put)
  then show ?thesis using a(1) scored_None [OF s, of m] by auto
qed

lemma scored_Remove:
  assumes "scored ss \<sigma>"
  shows "\<exists>ss'. Remove ss m = Some (ss', \<sigma> m \<noteq> None) \<and> scored ss' (\<sigma>(m := None))"
proof -
  obtain es where z: "zrep ss es" and s: "\<forall>m sc. \<sigma> m = Some sc \<longleftrightarrow> \<lparr>Member = m, Score = sc\<rparr> \<in> set es"
    using assms(1) by (auto simp: scored_def)
  obtain ss' where a: "Remove ss m = Some (ss', m \<in> Member ` set es)" "zrep ss' (without m es)"
    using Remove_zrep [OF z] by blast
  have "scored ss' (\<sigma>(m := None))"
    unfolding scored_def using a(2) s by (intro exI [of _ "without m es"]) (auto simp: without_def)
  then show ?thesis using a(1) scored_None [OF s, of m] by auto
qed

lemma scored_RangeByScore:
  assumes "scored ss \<sigma>" "\<not> borders_empty mn mx"
  shows "\<exists>es. RangeByScore ss mn mx 0 (-1) False = Some es \<and> distinct (map Member es) \<and>
    (\<forall>e. e \<in> set es \<longleftrightarrow> \<sigma> (Member e) = Some (Score e) \<and> in_borders mn mx e)"
proof -
  obtain es where z: "zrep ss es" and s: "\<forall>m sc. \<sigma> m = Some sc \<longleftrightarrow> \<lparr>Member = m, Score = sc\<rparr> \<in> set es"
    using assms(1) by (auto simp: scored_def)
  have "RangeByScore ss mn mx 0 (-1) False = Some (filter (in_borders mn mx) es)"
    using RangeByScore_zrep [OF z assms(2), of 0 "-1" False] by (auto simp: upto_limit_def dir_def)
  moreover have "distinct (map Member (filter (in_borders mn mx) es))"
    using z by (simp add: zrep_def distinct_map_filter)
  ultimately show ?thesis using scored_in [OF s] by auto
qed

lemma scored_PopMin:
  assumes "scored ss \<sigma>" "dom \<sigma> \<noteq> {}"
  shows "\<exists>ss' e. PopMin ss 1 = Some (ss', Some [e]) \<and> \<sigma> (Member e) = Some (Score e) \<and>
    (\<forall>m sc. \<sigma> m = Some sc \<longrightarrow> Score e \<le> sc) \<and> scored ss' (\<sigma>(Member e := None))"
proof -
  obtain es where z: "zrep ss es" and s: "\<forall>m sc. \<sigma> m = Some sc \<longleftrightarrow> \<lparr>Member = m, Score = sc\<rparr> \<in> set es"
    using assms(1) by (auto simp: scored_def)
  have ne: "es \<noteq> []" using assms(2) scored_None [OF s] by (auto simp: domIff)
  let ?e = "hd es"
  have e: "?e \<in> set es" using ne by simp
  have g: "[?e] = cut 1 (filter (\<lambda>e. Score e = Score (hd es)) es)" using ne by (cases es) (auto simp: cut_def)
  obtain ss' where p: "PopMin ss 1 = Some (ss', Some [?e])" "zrep ss' (filter (\<lambda>e. e \<notin> set [?e]) es)"
    using PopMin_zrep [OF z ne g] by blast
  have least: "Score ?e \<le> sc" if "\<sigma> m = Some sc" for m sc
  proof -
    have "\<lparr>Member = m, Score = sc\<rparr> \<in> set es" using that s by blast
    then obtain i where "i < length es" "es ! i = \<lparr>Member = m, Score = sc\<rparr>" by (auto simp: in_set_conv_nth)
    then show ?thesis using elems_ok_Score_mono [OF zrep_ok [OF z], of 0 i] ne by (simp add: hd_conv_nth)
  qed
  have "scored ss' (\<sigma>(Member ?e := None))"
    unfolding scored_def
  proof (intro exI [of _ "filter (\<lambda>e. e \<notin> set [?e]) es"] conjI allI p(2))
    fix m sc
    have "\<lparr>Member = m, Score = sc\<rparr> = ?e \<longleftrightarrow> m = Member ?e" if "\<lparr>Member = m, Score = sc\<rparr> \<in> set es"
      using zrep_member_eq [OF z that e] by (cases ?e) auto
    then show "(\<sigma>(Member ?e := None)) m = Some sc \<longleftrightarrow> \<lparr>Member = m, Score = sc\<rparr> \<in> set (filter (\<lambda>e. e \<notin> set [?e]) es)"
      using s by auto
  qed
  then show ?thesis using p(1) least scored_in [OF s, of ?e] e by auto
qed

lemma scored_PopMin_empty: "scored ss \<sigma> \<Longrightarrow> dom \<sigma> = {} \<Longrightarrow> PopMin ss 1 = Some (ss, None)"
proof -
  assume a: "scored ss \<sigma>" "dom \<sigma> = {}"
  then obtain es where z: "zrep ss es" and s: "\<forall>m sc. \<sigma> m = Some sc \<longleftrightarrow> \<lparr>Member = m, Score = sc\<rparr> \<in> set es"
    by (auto simp: scored_def)
  have "es = []" using a(2) scored_None [OF s] by (cases es) (auto simp: domIff)
  then show ?thesis using PopMin_empty z by simp
qed

interpretation zset: score_index scored Add draws_ok Remove Len
  by unfold_locales (rule scored_Add scored_Remove scored_Len; assumption)+

interpretation zrange: ranged_index scored Add draws_ok Remove Len
  "\<lambda>ss mn mx. RangeByScore ss mn mx 0 (-1) False" "\<lambda>ss. PopMin ss 1"
  by unfold_locales (rule scored_RangeByScore scored_PopMin scored_PopMin_empty; assumption)+

end
