(* ===== verification/SortedSetSpec.thy ===== *)
theory SortedSetSpec
  imports ScoreIndex
begin

text \<open>
  The properties of the sorted set, over the sorted list of elements \<open>es\<close> that a set represents
  (\<open>zrep ss es\<close>): what every operation returns and leaves, that the invariant holds in every
  reachable set, and the places where the code departs from what its comments promise. The
  witnesses run on a set of two members built with the code's own \<open>Add\<close>.
\<close>

section \<open>Reachable sets\<close>

inductive zset_reachable :: "SortedSet \<Rightarrow> bool" where
  zset_new: "zset_reachable MakeSortedSet"
| zset_add: "zset_reachable ss \<Longrightarrow> sc \<noteq> NaN \<Longrightarrow> draws_ok rnd \<Longrightarrow> Add ss m sc rnd = Some (ss', b) \<Longrightarrow> zset_reachable ss'"
| zset_remove: "zset_reachable ss \<Longrightarrow> Remove ss m = Some (ss', b) \<Longrightarrow> zset_reachable ss'"
| zset_remove_score: "zset_reachable ss \<Longrightarrow> RemoveByScore ss mn mx = Some (ss', n) \<Longrightarrow> zset_reachable ss'"
| zset_pop: "zset_reachable ss \<Longrightarrow> PopMin ss count = Some (ss', es) \<Longrightarrow> zset_reachable ss'"
| zset_remove_rank: "zset_reachable ss \<Longrightarrow> is_i64 (start + 1) \<Longrightarrow> is_i64 (stop + 1) \<Longrightarrow>
    RemoveByRank ss start stop = Some (ss', n) \<Longrightarrow> zset_reachable ss'"

lemma PopMin_keeps: "zrep ss es \<Longrightarrow> \<exists>ss' r es'. PopMin ss count = Some (ss', r) \<and> zrep ss' es'"
  using PopMin_zrep [of ss es _ count] PopMin_empty [of ss count] by (cases "es = []") blast+

lemma zset_reachable_zrep: "zset_reachable ss \<Longrightarrow> \<exists>es. zrep ss es"
proof (induction rule: zset_reachable.induct)
  case zset_new
  show ?case using zrep_empty by blast
next
  case (zset_add ss sc rnd m ss' b)
  then obtain es where "zrep ss es" by blast
  from Add_zrep [OF this zset_add(2,3), of m] zset_add show ?case by auto
next
  case (zset_remove ss m ss' b)
  then obtain es where "zrep ss es" by blast
  from Remove_zrep [OF this, of m] zset_remove show ?case by auto
next
  case (zset_remove_score ss mn mx ss' n)
  then obtain es where "zrep ss es" by blast
  from RemoveByScore_zrep [OF this, of mn mx] zset_remove_score show ?case by auto
next
  case (zset_pop ss count ss' es)
  then obtain es where "zrep ss es" by blast
  from PopMin_keeps [OF this, of count] zset_pop show ?case by auto
next
  case (zset_remove_rank ss start stop ss' n)
  then obtain es where "zrep ss es" by blast
  from RemoveByRank_zrep [OF this zset_remove_rank(2,3) refl] zset_remove_rank show ?case by auto
qed

section \<open>A set for the witnesses\<close>

definition demo :: "Element list" where
  "demo = [\<lparr>Member = ''a'', Score = Fin 1\<rparr>, \<lparr>Member = ''b'', Score = Fin 2\<rparr>]"

lemma demo_draws: "draws_ok [65535]"
  by (simp add: draws_ok_def low_draw_def)

lemma demo_put: "put ''b'' (Fin 2) (put ''a'' (Fin 1) []) = demo"
  by (simp add: put_def without_def ins_elem_def demo_def elem_less_def key_before_def)

lemma demo_set: "\<exists>ss. zrep ss demo"
proof -
  obtain s1 where "zrep s1 (put ''a'' (Fin 1) [])"
    using Add_zrep [OF zrep_empty _ demo_draws, of "Fin 1" "''a''"] by auto
  from Add_zrep [OF this _ demo_draws, of "Fin 2" "''b''"] show ?thesis unfolding demo_put by auto
qed

lemma demo_reachable: "\<exists>ss. zset_reachable ss \<and> zrep ss demo"
proof -
  obtain s1 b1 where 1: "Add MakeSortedSet ''a'' (Fin 1) [65535] = Some (s1, b1)" "zrep s1 (put ''a'' (Fin 1) [])"
    using Add_zrep [OF zrep_empty _ demo_draws, of "Fin 1" "''a''"] by auto
  obtain s2 b2 where 2: "Add s1 ''b'' (Fin 2) [65535] = Some (s2, b2)" "zrep s2 demo"
    using Add_zrep [OF 1(2) _ demo_draws, of "Fin 2" "''b''"] unfolding demo_put by auto
  have "zset_reachable s2"
    by (rule zset_add [OF zset_add [OF zset_new _ demo_draws 1(1)] _ demo_draws 2(1)]) simp_all
  then show ?thesis using 2(2) by blast
qed

definition upto_two :: ScoreBorder where
  "upto_two = \<lparr>bInf = 0, bValue = Fin 2, bExclude = True\<rparr>"

definition from_one :: ScoreBorder where
  "from_one = \<lparr>bInf = 0, bValue = Fin 1, bExclude = False\<rparr>"

lemma demo_borders: "filter (in_borders from_one upto_two) demo = [\<lparr>Member = ''a'', Score = Fin 1\<rparr>]"
  "\<not> borders_empty from_one upto_two"
  by (simp_all add: demo_def in_borders_def less_def greater_def from_one_def upto_two_def negativeInf_def
      positiveInf_def borders_empty_def)

section \<open>Properties\<close>



text \<open>C2: \<^verbatim>\<open>Add\<close> reports whether the member is new, and leaves the sorted list in which the member has
  the new score and every other element is as before, also when it moves a member.\<close>

theorem Add_correct:
  assumes "zrep ss es" "sc \<noteq> NaN" "draws_ok rnd"
  shows "\<exists>ss' es'. Add ss m sc rnd = Some (ss', m \<notin> Member ` set es) \<and> zrep ss' es' \<and>
    set es' = Set.insert \<lparr>Member = m, Score = sc\<rparr> {e \<in> set es. Member e \<noteq> m} \<and>
    sorted_wrt elem_less es' \<and> Get ss' m = Some \<lparr>Member = m, Score = sc\<rparr>"
proof -
  obtain ss' where a: "Add ss m sc rnd = Some (ss', m \<notin> Member ` set es)" "zrep ss' (put m sc es)"
    using Add_zrep [OF assms] by blast
  have "Get ss' m = Some \<lparr>Member = m, Score = sc\<rparr>" using Get_zrep [OF a(2)] by (simp add: set_put)
  moreover have "sorted_wrt elem_less (put m sc es)" using zrep_ok [OF a(2)] by (simp add: elems_ok_def)
  ultimately show ?thesis using a set_put by blast
qed

lemma Add_correct_witness:
  "\<exists>ss ss'. zrep ss demo \<and> Add ss ''b'' (Fin 0) [65535] = Some (ss', False) \<and>
    Get ss' ''b'' = Some \<lparr>Member = ''b'', Score = Fin 0\<rparr>"
proof -
  obtain ss where z: "zrep ss demo" using demo_set by blast
  show ?thesis using Add_correct [OF z _ demo_draws, of "Fin 0" "''b''"] z by (auto simp: demo_def)
qed

text \<open>C3: \<^verbatim>\<open>Remove\<close> reports whether the member was there and takes exactly its element out.\<close>

theorem Remove_correct:
  assumes "zrep ss es"
  shows "\<exists>ss'. Remove ss m = Some (ss', m \<in> Member ` set es) \<and> zrep ss' (filter (\<lambda>e. Member e \<noteq> m) es) \<and>
    Get ss' m = None"
proof -
  obtain ss' where r: "Remove ss m = Some (ss', m \<in> Member ` set es)" "zrep ss' (without m es)"
    using Remove_zrep [OF assms] by blast
  then have "Get ss' m = None" using zrep_lookup_None [OF r(2)] by (auto simp: Get_def without_def)
  then show ?thesis using r by (auto simp: without_def)
qed

lemma Remove_correct_witness: "\<exists>ss ss'. zrep ss demo \<and> Remove ss ''a'' = Some (ss', True) \<and> Get ss' ''a'' = None"
proof -
  obtain ss where z: "zrep ss demo" using demo_set by blast
  show ?thesis using Remove_correct [OF z, of "''a''"] z by (auto simp: demo_def)
qed



text \<open>C5: \<^verbatim>\<open>Range\<close> within the bounds it checks returns the elements of the ranks from \<^verbatim>\<open>start\<close> up to
  but not including \<^verbatim>\<open>stop\<close>, counted from the chosen end, without a nil slot; outside them it
  panics.\<close>

theorem Range_correct:
  assumes "zrep ss es" "is_i64 (int (length es))" "is_i64 (stop - start)"
  shows "Range ss start stop desc =
    (if stop < start then Inl RuntimeError
     else if start < 0 \<or> int (length es) \<le> start then Inl (IllegalStart start)
     else if int (length es) < stop then Inl (IllegalEnd stop)
     else Inr (map Some (take (nat (stop - start)) (drop (nat start) (if desc then rev es else es)))))"
proof (cases "stop < start \<or> start < 0 \<or> int (length es) \<le> start \<or> int (length es) < stop")
  case True
  then show ?thesis using assms(3) by (auto simp: ForEach_panic [OF assms(1)] Range_def i64_id Let_def not_less)
next
  case False
  then show ?thesis using Range_zrep [OF assms(1), of start stop desc] assms(2) by (simp add: dir_def)
qed

lemma Range_correct_witness:
  "\<exists>ss. zrep ss demo \<and> Range ss 0 2 True = Inr (map Some (rev demo)) \<and> Range ss 0 3 False = Inl (IllegalEnd 3)"
proof -
  obtain ss where z: "zrep ss demo" using demo_set by blast
  show ?thesis using Range_correct [OF z, of 2 0 True] Range_correct [OF z, of 3 0 False] z
    by (auto simp: demo_def is_i64_def)
qed



text \<open>An offset equal to the number of elements in the range does not give an empty result: when an
  element above the range exists, \<^verbatim>\<open>RangeByScore\<close> returns one element outside the borders.\<close>

theorem RangeByScore_offset_past_range:
  assumes z: "zrep ss es" and b: "\<not> borders_empty mn mx" and n: "n = length (filter (in_borders mn mx) es)" "0 < n"
    and above: "\<exists>e\<in>set es. \<not> greater mx (Score e)"
  shows "\<exists>e\<in>set es. \<not> in_borders mn mx e \<and> RangeByScore ss mn mx (int n) (-1) False = Some [e]"
proof -
  obtain tl where tl: "from_first mn mx False es = filter (in_borders mn mx) es @ tl" "\<forall>x\<in>set tl. \<not> in_borders mn mx x"
    using in_borders_dir [OF zrep_ok [OF z], of mn mx False] by (auto simp: dir_def)
  obtain x where x: "x \<in> set es" "\<not> greater mx (Score x)" using above by blast
  obtain e0 where e0: "e0 \<in> set es" "in_borders mn mx e0" using n by (auto simp: filter_empty_conv)
  have ff: "from_first mn mx False es = filter (\<lambda>e. less mn (Score e)) es"
    using down_closed_filter(2) [OF zrep_ok [OF z] down_closed_not_less [of mn]] by (simp add: from_first_def dir_def)
  have "Score e0 \<le> Score x"
    using f64_total [of "Score e0" "Score x"] zrep_ok [OF z] e0 x greater_mono [of mx "Score e0" "Score x"]
    by (auto simp: elems_ok_def in_borders_def f64_le_iff)
  then have "x \<in> set (from_first mn mx False es)" using x(1) e0 less_mono by (auto simp: ff in_borders_def)
  moreover have "x \<notin> set (filter (in_borders mn mx) es)" using x(2) by (simp add: in_borders_def)
  ultimately obtain e t where t: "tl = e # t" unfolding tl(1) by (cases tl) auto
  have e: "\<not> in_borders mn mx e" using tl(2) t by simp
  have "e \<in> set es" using tl(1) t ff by (metis UnCI filter_is_subset list.set_intros(1) set_append subsetD)
  moreover have "takeWhile (in_borders mn mx) t = []" using tl(2) t by (cases t) auto
  moreover have "drop n (from_first mn mx False es) = e # t" using tl(1) t n(1) by simp
  moreover have ex: "\<exists>e\<in>set es. in_borders mn mx e" using e0 by blast
  ultimately have "RangeByScore ss mn mx (int n) (-1) False = Some [e]"
    using b by (simp add: RangeByScore_def ForEachByScore_zrep [OF z] upto_limit_def)
  then show ?thesis using e \<open>e \<in> set es\<close> by blast
qed

text \<open>C7: \<^verbatim>\<open>RemoveByScore\<close> takes out exactly the elements whose score lies within the borders, from the
  list and from the dictionary, and returns their number.\<close>

theorem RemoveByScore_correct:
  assumes "zrep ss es"
  shows "\<exists>ss'. RemoveByScore ss mn mx = Some (ss', int (card {e \<in> set es. in_borders mn mx e})) \<and>
    zrep ss' (filter (\<lambda>e. \<not> in_borders mn mx e) es)"
proof -
  have "length (filter (in_borders mn mx) es) = card {e \<in> set es. in_borders mn mx e}"
    using distinct_card [of "filter (in_borders mn mx) es"] elems_ok_distinct [OF zrep_ok [OF assms]] by simp
  then show ?thesis using RemoveByScore_zrep [OF assms, of mn mx] by simp
qed

lemma RemoveByScore_correct_witness:
  "\<exists>ss ss' n. zrep ss demo \<and> RemoveByScore ss from_one upto_two = Some (ss', n) \<and>
    zrep ss' [\<lparr>Member = ''b'', Score = Fin 2\<rparr>]"
proof -
  obtain ss where z: "zrep ss demo" using demo_set by blast
  have "filter (\<lambda>e. \<not> in_borders from_one upto_two e) demo = [\<lparr>Member = ''b'', Score = Fin 2\<rparr>]"
    by (simp add: demo_def in_borders_def less_def greater_def from_one_def upto_two_def negativeInf_def positiveInf_def)
  then show ?thesis using RemoveByScore_correct [OF z, of from_one upto_two] z by auto
qed

text \<open>C8: \<^verbatim>\<open>RemoveByRank\<close> with ranks in \<^verbatim>\<open>int64\<close> range takes out the ranks from \<^verbatim>\<open>start\<close> up to but not
  including \<^verbatim>\<open>stop\<close> and returns their number; a negative start counts as 0.\<close>

theorem RemoveByRank_correct:
  assumes "zrep ss es" "is_i64 (start + 1)" "is_i64 (stop + 1)" "start \<le> stop"
  shows "\<exists>ss' gone. RemoveByRank ss start stop = Some (ss', int (length gone)) \<and>
    gone = take (nat stop - nat start) (drop (nat start) es) \<and>
    zrep ss' (take (nat start) es @ drop (max (nat start) (nat stop)) es)"
proof -
  define k where "k = min (length es) (nat start)"
  obtain ss' where r: "RemoveByRank ss start stop = Some (ss', int (length (take (nat (stop - int k)) (drop k es))))"
    "zrep ss' (take k es @ drop (k + length (take (nat (stop - int k)) (drop k es))) es)"
    using RemoveByRank_zrep [OF assms(1-3) k_def] by blast
  have g: "take (nat (stop - int k)) (drop k es) = take (nat stop - nat start) (drop (nat start) es)"
  proof (cases "length es \<le> nat start")
    case False
    then have "k = nat start" by (simp add: k_def)
    moreover have "nat (stop - int (nat start)) = nat stop - nat start" using assms(4) by (cases "0 \<le> start") auto
    ultimately show ?thesis by simp
  qed (simp add: k_def)
  have "take k es = take (nat start) es" by (simp add: k_def min_def)
  moreover have "drop (k + length (take (nat (stop - int k)) (drop k es))) es = drop (max (nat start) (nat stop)) es"
    unfolding g using assms(4) by (auto simp: k_def min_def max_def nat_le_iff)
  ultimately show ?thesis using r g by auto
qed

lemma RemoveByRank_correct_witness:
  "\<exists>ss ss'. zrep ss demo \<and> RemoveByRank ss 1 2 = Some (ss', 1) \<and> zrep ss' [\<lparr>Member = ''a'', Score = Fin 1\<rparr>]"
proof -
  obtain ss where z: "zrep ss demo" using demo_set by blast
  show ?thesis using RemoveByRank_correct [OF z, of 1 2] z by (auto simp: demo_def is_i64_def)
qed

text \<open>Removing every rank up to the largest \<^verbatim>\<open>int64\<close> removes nothing: \<^verbatim>\<open>stop + 1\<close> wraps around.\<close>

theorem RemoveByRank_overflow:
  assumes "zrep ss es" "is_i64 (start + 1)"
  shows "\<exists>ss'. RemoveByRank ss start (2 ^ 63 - 1) = Some (ss', 0) \<and> zrep ss' es"
proof -
  obtain as where r: "sl_reps (zskip ss) as es" using assms(1) by (rule zrepE)
  have i: "i64 (2 ^ 63 - 1 + 1) = - (2 ^ 63)" by (simp add: i64_def signed_take_bit_eq_take_bit_shift take_bit_eq_mod)
  let ?k = "min (length es) (nat (start + 1 - 1))"
  obtain sl' as' where "RemoveRangeByRank (zskip ss) (start + 1) (- (2 ^ 63)) = Some (sl', [])"
    "sl_reps sl' as' es"
    using RemoveRangeByRank_reps [OF r refl refl, of "start + 1" "- (2 ^ 63)"] by auto
  moreover from this(2) have "zrep \<lparr>dict = dict ss, zskip = sl'\<rparr> es"
    using assms(1) by (auto simp: zrep_def sl_rep_iff)
  ultimately show ?thesis using assms(2) unfolding RemoveByRank_def i i64_id [OF assms(2)]
    by (simp add: forget_def)
qed

text \<open>C9: \<^verbatim>\<open>PopMin\<close> of a non-empty set returns the first elements of the sorted list, but only such that
  share the least score; an empty set gives nil. With a positive \<^verbatim>\<open>count\<close> at most \<^verbatim>\<open>count\<close> elements go.\<close>

theorem PopMin_correct:
  assumes "zrep ss es" "0 < count"
  shows "if es = [] then PopMin ss count = Some (ss, None)
    else \<exists>ss' gone. PopMin ss count = Some (ss', Some gone) \<and>
      gone = take (nat count) (takeWhile (\<lambda>e. Score e = Score (hd es)) es) \<and>
      zrep ss' (drop (length gone) es)"
proof (cases "es = []")
  case True
  then show ?thesis using PopMin_empty assms(1) by simp
next
  case False
  define g where "g = take (nat count) (takeWhile (\<lambda>e. Score e = Score (hd es)) es)"
  note ok = zrep_ok [OF assms(1)]
  have "down_closed (\<lambda>e. Score e = Score (hd es)) es"
    unfolding down_closed_def
  proof (intro ballI impI)
    fix a b assume a: "a \<in> set es" "b \<in> set es" "elem_less a b" "Score b = Score (hd es)"
    obtain i where "i < length es" "es ! i = a" using a(1) by (auto simp: in_set_conv_nth)
    then have "Score (hd es) \<le> Score a" using elems_ok_Score_mono [OF ok, of 0 i] False by (simp add: hd_conv_nth)
    moreover have "Score a \<le> Score (hd es)" using elem_less_Score [OF a(3)] a(4) by simp
    ultimately show "Score a = Score (hd es)" using f64_less_irrefl f64_less_trans by (metis f64_le_iff)
  qed
  from down_closed_filter(1) [OF ok this]
  have "g = cut count (filter (\<lambda>e. Score e = Score (hd es)) es)" using assms(2) by (simp add: g_def cut_def)
  from PopMin_zrep [OF assms(1) False this]
  obtain ss' where p: "PopMin ss count = Some (ss', Some g)" "zrep ss' (filter (\<lambda>e. e \<notin> set g) es)" by blast
  have "es = [] @ g @ drop (length g) es"
    unfolding g_def by (metis append_Nil append_take_drop_id append_eq_conv_conj takeWhile_dropWhile_id append.assoc)
  from filter_notin_mid [OF elems_ok_distinct [OF ok] this] have "filter (\<lambda>e. e \<notin> set g) es = drop (length g) es" by simp
  then show ?thesis using p False unfolding g_def [symmetric] by auto
qed

lemma PopMin_correct_witness:
  "\<exists>ss ss'. zrep ss demo \<and> PopMin ss 5 = Some (ss', Some [\<lparr>Member = ''a'', Score = Fin 1\<rparr>])"
proof -
  obtain ss where z: "zrep ss demo" using demo_set by blast
  show ?thesis using PopMin_correct [OF z, of 5] z by (auto simp: demo_def)
qed

text \<open>\<^verbatim>\<open>Count\<close> is the number of elements within the borders; on an empty set it panics instead of
  returning 0.\<close>

theorem Count_correct:
  assumes "zrep ss es"
  shows "Count ss mn mx =
    (if es = [] then Inl (IllegalStart 0) else Inr (int (length (filter (in_borders mn mx) es))))"
  using Count_zrep [OF assms] .

lemma Count_correct_witness: "\<exists>ss. zrep ss demo \<and> Count ss from_one upto_two = Inr 1"
proof -
  obtain ss where z: "zrep ss demo" using demo_set by blast
  show ?thesis using Count_correct [OF z, of from_one upto_two] z demo_borders(1) by (auto simp: demo_def)
qed

end
