(* ===== verification/Sync.thy ===== *)
theory Sync
  imports Prelude
begin

text \<open>
  The mutexes of the code and what a call can end in. A method that starts with \<^verbatim>\<open>Lock()\<close> blocks for
  good when nobody will release the lock, and unlocking a lock that is not held is a fatal error
  of the runtime; both show up in the code, so both are outcomes of a call. Calls are taken one
  after the other: a lock that is held when a call starts is held by a call that has returned.
\<close>

datatype 'a outcome = Ret 'a | Blocked | Crash

fun obind :: "'a outcome \<Rightarrow> ('a \<Rightarrow> 'b outcome) \<Rightarrow> 'b outcome" where
  "obind (Ret x) f = f x"
| "obind Blocked f = Blocked"
| "obind Crash f = Crash"

lemma obind_Ret: "obind m f = Ret y \<longleftrightarrow> (\<exists>x. m = Ret x \<and> f x = Ret y)"
  by (cases m) auto

section \<open>sync.Mutex\<close>

definition Lock :: "bool \<Rightarrow> bool outcome" where
  "Lock held = (if held then Blocked else Ret True)"

definition Unlock :: "bool \<Rightarrow> bool outcome" where
  "Unlock held = (if held then Ret False else Crash)"

lemma Lock_simps [simp]: "Lock False = Ret True" "Lock True = Blocked"
  by (simp_all add: Lock_def)

lemma Unlock_simps [simp]: "Unlock True = Ret False" "Unlock False = Crash"
  by (simp_all add: Unlock_def)

text \<open>
  \<open>critical held upd body p\<close> is a method body between \<^verbatim>\<open>p.Lock()\<close> and \<^verbatim>\<open>defer p.Unlock()\<close>; a body
  that panics (\<^term>\<open>None\<close>) ends the program.
\<close>

definition critical ::
  "('p \<Rightarrow> bool) \<Rightarrow> (bool \<Rightarrow> 'p \<Rightarrow> 'p) \<Rightarrow> ('p \<Rightarrow> ('p \<times> 'a) option) \<Rightarrow> 'p \<Rightarrow> ('p \<times> 'a) outcome" where
  "critical held upd body p =
     obind (Lock (held p)) (\<lambda>b.
       case body (upd b p) of
         None \<Rightarrow> Crash
       | Some (p1, r) \<Rightarrow> obind (Unlock (held p1)) (\<lambda>b. Ret (upd b p1, r)))"

text \<open>
  The contract between a mutex kept as a flag in a state and the methods that take it: \<open>held\<close> reads the
  flag, \<open>upd\<close> sets it and nothing else.
\<close>

locale mutex =
  fixes held :: "'p \<Rightarrow> bool" and upd :: "bool \<Rightarrow> 'p \<Rightarrow> 'p"
  assumes held_upd: "held (upd b p) = b"
    and upd_held: "upd (held p) p = p"
    and upd_upd: "upd a (upd b p) = upd a p"
begin

lemma blocks: "held p \<Longrightarrow> critical held upd body p = Blocked"
  by (simp add: critical_def)

lemma runs: "\<not> held p \<Longrightarrow> critical held upd body p =
    (case body (upd True p) of None \<Rightarrow> Crash | Some (p1, r) \<Rightarrow> obind (Unlock (held p1)) (\<lambda>b. Ret (upd b p1, r)))"
  by (simp add: critical_def)

lemma relock: "\<not> held p \<Longrightarrow> upd False (upd True p) = p"
  using upd_held [of p] by (simp add: upd_upd)

text \<open>A body that only reads.\<close>

lemma reads: "\<not> held p \<Longrightarrow> body (upd True p) = Some (upd True p, r) \<Longrightarrow> critical held upd body p = Ret (p, r)"
  by (simp add: runs held_upd relock)

text \<open>A body that leaves the mutex alone: the method does not block, and returns with the mutex free.\<close>

lemma keeps:
  assumes "\<not> held p" "\<And>p1 r. body (upd True p) = Some (p1, r) \<Longrightarrow> held p1"
  shows "critical held upd body p \<noteq> Blocked" "critical held upd body p = Ret (p', r) \<Longrightarrow> \<not> held p'"
  using assms by (auto simp: runs held_upd split: option.splits)

end

section \<open>sync.RWMutex\<close>

record rwmutex =
  readers :: nat
  writer :: bool

definition RLock :: "rwmutex \<Rightarrow> rwmutex outcome" where
  "RLock m = (if writer m then Blocked else Ret (m\<lparr>readers := Suc (readers m)\<rparr>))"

definition RUnlock :: "rwmutex \<Rightarrow> rwmutex outcome" where
  "RUnlock m = (if readers m = 0 then Crash else Ret (m\<lparr>readers := readers m - 1\<rparr>))"

definition WLock :: "rwmutex \<Rightarrow> rwmutex outcome" where
  "WLock m = (if writer m \<or> readers m > 0 then Blocked else Ret (m\<lparr>writer := True\<rparr>))"

definition WUnlock :: "rwmutex \<Rightarrow> rwmutex outcome" where
  "WUnlock m = (if writer m then Ret (m\<lparr>writer := False\<rparr>) else Crash)"

definition free :: rwmutex where
  "free = \<lparr>readers = 0, writer = False\<rparr>"

lemma rw_simps [simp]:
  "RLock free = Ret (free\<lparr>readers := 1\<rparr>)" "RUnlock (free\<lparr>readers := 1\<rparr>) = Ret free"
  "WLock free = Ret (free\<lparr>writer := True\<rparr>)" "WUnlock (free\<lparr>writer := True\<rparr>) = Ret free"
  "WUnlock (free\<lparr>readers := n\<rparr>) = Crash" "WLock (free\<lparr>writer := True\<rparr>) = Blocked"
  "RLock (free\<lparr>writer := True\<rparr>) = Blocked"
  by (simp_all add: RLock_def RUnlock_def WLock_def WUnlock_def free_def)

end
