(* ===== verification/UserConnMgr.thy ===== *)
theory UserConnMgr
  imports ScoreIndex Sync
begin

text \<open>
  \<^verbatim>\<open>src/server/gateway/handle/user_conn_mgr.go\<close>: the gateway's table of connected users, with a sorted
  set of the users by time beside it. \<open>now\<close> is what \<^verbatim>\<open>time.Now().Unix()\<close> returns to the call, \<open>rnd\<close>
  the random draws of the sorted set. An \<^verbatim>\<open>error\<close> is \<^term>\<open>None\<close> (nil) or \<open>Some\<close> message.
\<close>

section \<open>The operations\<close>

definition eUidAlreadyExists :: string where "eUidAlreadyExists = ''uid already exists''"
definition eExceedMaxConnLimit :: string where "eExceedMaxConnLimit = ''exceed max conn limit''"
definition eAddUserConnFail :: string where "eAddUserConnFail = ''add user conn fail''"

record UserConnInfo =
  Uid :: string
  ChannelId :: string
  ConnectTs :: int
  ExpireTs :: int

record GWUserConnMgr =
  zset_uid :: SortedSet
  user_conns :: "string \<rightharpoonup> UserConnInfo"
  max_conn_size :: int
  conn_timeout_sec :: int
  mgr_lock :: bool

definition GetUserConnsInstance :: "int \<Rightarrow> int \<Rightarrow> GWUserConnMgr" where
  "GetUserConnsInstance MaxUserCount UserHeartbeatSec =
     \<lparr>zset_uid = MakeSortedSet, user_conns = Map.empty, max_conn_size = MaxUserCount,
      conn_timeout_sec = i64 (UserHeartbeatSec * 3), mgr_lock = False\<rparr>"

definition mgr_critical ::
  "(GWUserConnMgr \<Rightarrow> (GWUserConnMgr \<times> 'a) option) \<Rightarrow> GWUserConnMgr \<Rightarrow> (GWUserConnMgr \<times> 'a) outcome" where
  "mgr_critical = critical mgr_lock (\<lambda>b. mgr_lock_update (\<lambda>_. b))"

interpretation mgr_mutex: mutex mgr_lock "\<lambda>b. mgr_lock_update (\<lambda>_. b)"
  by unfold_locales simp_all

text \<open>\<open>GetCount\<close> unlocks before it reads.\<close>

definition GetCount :: "GWUserConnMgr \<Rightarrow> (GWUserConnMgr \<times> int) outcome" where
  "GetCount p =
     obind (Lock (mgr_lock p)) (\<lambda>b. obind (Unlock b) (\<lambda>b.
       let p1 = p\<lparr>mgr_lock := b\<rparr> in Ret (p1, Len (zset_uid p1))))"

definition AddUserConn ::
  "GWUserConnMgr \<Rightarrow> string \<Rightarrow> string \<Rightarrow> int \<Rightarrow> nat list \<Rightarrow> (GWUserConnMgr \<times> string option) outcome" where
  "AddUserConn p uid channel_id now rnd = mgr_critical (\<lambda>p.
     if user_conns p uid \<noteq> None then Some (p, Some eUidAlreadyExists)
     else if Len (zset_uid p) \<ge> max_conn_size p then Some (p, Some eExceedMaxConnLimit)
     else do { (z, ok) \<leftarrow> Add (zset_uid p) uid (f64_of_int now) rnd;
               let p1 = p\<lparr>zset_uid := z\<rparr>;
               if \<not> ok then Some (p1, Some eAddUserConnFail)
               else let user_conn = \<lparr>Uid = uid, ChannelId = channel_id, ConnectTs = now,
                                     ExpireTs = i64 (now + conn_timeout_sec p)\<rparr>
                    in Some (p1\<lparr>user_conns := (user_conns p1)(uid \<mapsto> user_conn)\<rparr>, None) }) p"

definition RemoveUserConn :: "GWUserConnMgr \<Rightarrow> string \<Rightarrow> (GWUserConnMgr \<times> bool) outcome" where
  "RemoveUserConn p uid = mgr_critical (\<lambda>p.
     do { (z, ok) \<leftarrow> Remove (zset_uid p) uid;
          let p1 = p\<lparr>zset_uid := z\<rparr>;
          if \<not> ok then Some (p1, False)
          else Some (p1\<lparr>user_conns := (user_conns p1)(uid := None)\<rparr>, True) }) p"

definition RefreshUserConn :: "GWUserConnMgr \<Rightarrow> string \<Rightarrow> int \<Rightarrow> nat list \<Rightarrow> (GWUserConnMgr \<times> bool) outcome" where
  "RefreshUserConn p uid now rnd = mgr_critical (\<lambda>p.
     case user_conns p uid of
       None \<Rightarrow> Some (p, False)
     | Some uc \<Rightarrow>
       let expire_ts = i64 (now + conn_timeout_sec p)
       in do { (z, ok) \<leftarrow> Add (zset_uid p) uid (f64_of_int expire_ts) rnd;
               let p1 = p\<lparr>zset_uid := z\<rparr>;
               if \<not> ok then Some (p1, False)
               else Some (p1\<lparr>user_conns := (user_conns p1)(uid \<mapsto> uc\<lparr>ExpireTs := expire_ts\<rparr>)\<rparr>, True) }) p"

definition GetChannelId :: "GWUserConnMgr \<Rightarrow> string \<Rightarrow> (GWUserConnMgr \<times> string \<times> bool) outcome" where
  "GetChannelId p uid = mgr_critical (\<lambda>p.
     case user_conns p uid of Some uc \<Rightarrow> Some (p, ChannelId uc, True) | None \<Rightarrow> Some (p, '''', False)) p"

text \<open>\<open>EliminateTimeoutUserConns\<close> unlocks before it starts; \<^verbatim>\<open>*user\<close> panics on a user the table lacks.\<close>

fun eliminate_loop :: "GWUserConnMgr \<Rightarrow> Element list \<Rightarrow> UserConnInfo list \<Rightarrow> (GWUserConnMgr \<times> UserConnInfo list) option" where
  "eliminate_loop p [] users = Some (p, users)"
| "eliminate_loop p (x # xs) users =
     do { user \<leftarrow> user_conns p (Member x);
          (z, _) \<leftarrow> Remove (zset_uid p) (Member x);
          eliminate_loop (p\<lparr>zset_uid := z, user_conns := (user_conns p)(Member x := None)\<rparr>) xs (users @ [user]) }"

definition EliminateTimeoutUserConns :: "GWUserConnMgr \<Rightarrow> int \<Rightarrow> (GWUserConnMgr \<times> UserConnInfo list) outcome" where
  "EliminateTimeoutUserConns p now =
     obind (Lock (mgr_lock p)) (\<lambda>b. obind (Unlock b) (\<lambda>b.
       let p1 = p\<lparr>mgr_lock := b\<rparr>;
           mn = \<lparr>bInf = 0, bValue = Fin 0, bExclude = False\<rparr>;
           mx = \<lparr>bInf = 0, bValue = f64_of_int now, bExclude = False\<rparr>
       in case do { elems \<leftarrow> RangeByScore (zset_uid p1) mn mx 0 (-1) False; eliminate_loop p1 elems [] }
          of None \<Rightarrow> Crash | Some r \<Rightarrow> Ret r))"

section \<open>The invariant: table and sorted set hold the same users\<close>

definition mgr_ok :: "GWUserConnMgr \<Rightarrow> (string \<rightharpoonup> f64) \<Rightarrow> bool" where
  "mgr_ok p \<sigma> \<longleftrightarrow> \<not> mgr_lock p \<and> scored (zset_uid p) \<sigma> \<and> dom \<sigma> = dom (user_conns p) \<and>
     (\<forall>uid u. user_conns p uid = Some u \<longrightarrow> Uid u = uid)"

lemma mgr_okD:
  assumes "mgr_ok p \<sigma>"
  shows "\<not> mgr_lock p" "scored (zset_uid p) \<sigma>" "dom \<sigma> = dom (user_conns p)"
    "user_conns p uid = Some u \<Longrightarrow> Uid u = uid"
  using assms by (auto simp: mgr_ok_def)

lemma mgr_unlocked [simp]: "\<not> mgr_lock p \<Longrightarrow> p\<lparr>mgr_lock := False\<rparr> = p"
  by (cases p) simp

lemma mgr_ok_init: "mgr_ok (GetUserConnsInstance n h) Map.empty"
  by (simp add: mgr_ok_def GetUserConnsInstance_def scored_empty)

lemma AddUserConn_ok:
  assumes p: "mgr_ok p \<sigma>" and d: "draws_ok rnd"
  shows "AddUserConn p uid ch now rnd =
      Ret (if user_conns p uid \<noteq> None then (p, Some eUidAlreadyExists)
           else if int (card (dom (user_conns p))) \<ge> max_conn_size p then (p, Some eExceedMaxConnLimit)
           else (p\<lparr>zset_uid := fst (the (Add (zset_uid p) uid (f64_of_int now) rnd)),
                    user_conns := (user_conns p)(uid \<mapsto> \<lparr>Uid = uid, ChannelId = ch, ConnectTs = now,
                      ExpireTs = i64 (now + conn_timeout_sec p)\<rparr>)\<rparr>, None))" (is ?res)
    and "AddUserConn p uid ch now rnd = Ret (p', None) \<Longrightarrow> mgr_ok p' (\<sigma>(uid \<mapsto> f64_of_int now))" (is "?add \<Longrightarrow> ?inv")
proof -
  note o = mgr_okD [OF p]
  have len: "Len (zset_uid p) = int (card (dom (user_conns p)))" using zset.len_step [OF o(2,3)] .
  obtain z where z: "Add (zset_uid p) uid (f64_of_int now) rnd = Some (z, True)" "scored z (\<sigma>(uid \<mapsto> f64_of_int now))"
    if "user_conns p uid = None"
    using zset.add_new [OF o(2,3) _ _ d, of uid "f64_of_int now"] by (cases "user_conns p uid") auto
  show ?res using o(1) len z(1)
    by (cases "user_conns p uid") (auto simp: AddUserConn_def mgr_critical_def mgr_mutex.runs Let_def)
  then show ?inv if ?add using that z(2) p
    by (auto simp: mgr_ok_def z(1) eUidAlreadyExists_def split: if_splits)
qed

lemma RemoveUserConn_ok:
  assumes p: "mgr_ok p \<sigma>"
  shows "\<exists>p'. RemoveUserConn p uid = Ret (p', user_conns p uid \<noteq> None) \<and> mgr_ok p' (\<sigma>(uid := None)) \<and>
    user_conns p' = (user_conns p)(uid := None) \<and> max_conn_size p' = max_conn_size p"
proof -
  note o = mgr_okD [OF p]
  obtain z where z: "Remove (zset_uid p) uid = Some (z, user_conns p uid \<noteq> None)" "scored z (\<sigma>(uid := None))"
    "dom (\<sigma>(uid := None)) = dom ((user_conns p)(uid := None))"
    using zset.rem_step [OF o(2,3), of uid] by auto
  have "(user_conns p)(uid := None) = user_conns p" if "user_conns p uid = None" using that by auto
  then show ?thesis using o(1) z p
    by (auto simp: RemoveUserConn_def mgr_critical_def mgr_mutex.runs Let_def mgr_ok_def)
qed

text \<open>
  \<open>RefreshUserConn\<close> on a known user: \<open>Add\<close> reports that the member was there, so the code takes the
  failure branch after it has moved the score; the table keeps the old \<^verbatim>\<open>ExpireTs\<close>.
\<close>

lemma RefreshUserConn_ok:
  assumes p: "mgr_ok p \<sigma>" and d: "draws_ok rnd"
  shows "\<exists>p'. RefreshUserConn p uid now rnd = Ret (p', False) \<and> user_conns p' = user_conns p \<and>
    max_conn_size p' = max_conn_size p \<and>
    mgr_ok p' (if user_conns p uid = None then \<sigma> else \<sigma>(uid \<mapsto> f64_of_int (i64 (now + conn_timeout_sec p))))"
proof (cases "user_conns p uid")
  case None
  then show ?thesis using p mgr_okD(1) [OF p] by (simp add: RefreshUserConn_def mgr_critical_def mgr_mutex.runs)
next
  case (Some uc)
  note o = mgr_okD [OF p]
  obtain z where z: "Add (zset_uid p) uid (f64_of_int (i64 (now + conn_timeout_sec p))) rnd = Some (z, False)"
    "scored z (\<sigma>(uid \<mapsto> f64_of_int (i64 (now + conn_timeout_sec p))))"
    "dom (\<sigma>(uid \<mapsto> f64_of_int (i64 (now + conn_timeout_sec p)))) = dom (user_conns p)"
    using zset.add_known [OF o(2,3) Some _ d, of "f64_of_int (i64 (now + conn_timeout_sec p))"] by auto
  then show ?thesis using o(1) Some p by (auto simp: RefreshUserConn_def mgr_critical_def mgr_mutex.runs Let_def mgr_ok_def)
qed

lemma GetChannelId_ok:
  assumes "mgr_ok p \<sigma>"
  shows "GetChannelId p uid = Ret (p, case user_conns p uid of Some u \<Rightarrow> (ChannelId u, True) | None \<Rightarrow> ('''', False))"
  using mgr_okD(1) [OF assms] by (cases "user_conns p uid") (simp_all add: GetChannelId_def mgr_critical_def mgr_mutex.reads)

lemma GetCount_ok: "mgr_ok p \<sigma> \<Longrightarrow> GetCount p = Ret (p, int (card (dom (user_conns p))))"
proof -
  assume p: "mgr_ok p \<sigma>"
  show ?thesis using mgr_okD(1) [OF p] zset.len_step [OF mgr_okD(2,3) [OF p]] by (simp add: GetCount_def Let_def)
qed

section \<open>Elimination\<close>

lemma eliminate_loop_ok:
  assumes "mgr_ok p \<sigma>" "distinct (map Member es)" "\<forall>e\<in>set es. user_conns p (Member e) \<noteq> None"
  shows "\<exists>p'. eliminate_loop p es users = Some (p', users @ map (\<lambda>e. the (user_conns p (Member e))) es) \<and>
    mgr_ok p' (\<sigma> |` (- Member ` set es)) \<and> user_conns p' = user_conns p |` (- Member ` set es) \<and>
    max_conn_size p' = max_conn_size p"
  using assms
proof (induction es arbitrary: p \<sigma> users)
  case Nil
  then show ?case by simp
next
  case (Cons e es)
  note o = mgr_okD [OF Cons.prems(1)]
  obtain u where u: "user_conns p (Member e) = Some u" using Cons.prems(3) by auto
  obtain z where z: "Remove (zset_uid p) (Member e) = Some (z, True)" "scored z (\<sigma>(Member e := None))"
    "dom (\<sigma>(Member e := None)) = dom ((user_conns p)(Member e := None))"
    using zset.rem_step [OF o(2,3), of "Member e"] u by auto
  let ?p = "p\<lparr>zset_uid := z, user_conns := (user_conns p)(Member e := None)\<rparr>"
  have ok: "mgr_ok ?p (\<sigma>(Member e := None))" using z Cons.prems(1) by (auto simp: mgr_ok_def)
  have ne: "Member x \<noteq> Member e" if "x \<in> set es" for x using Cons.prems(2) imageI [OF that, of Member] by auto
  have dist: "distinct (map Member es)" using Cons.prems(2) by simp
  have rest: "\<forall>x\<in>set es. user_conns ?p (Member x) \<noteq> None" using ne Cons.prems(3) by simp
  obtain p' where p': "eliminate_loop ?p es (users @ [u]) =
      Some (p', (users @ [u]) @ map (\<lambda>x. the (user_conns ?p (Member x))) es)"
    "mgr_ok p' (\<sigma>(Member e := None) |` (- Member ` set es))"
    "user_conns p' = user_conns ?p |` (- Member ` set es)" "max_conn_size p' = max_conn_size ?p"
    using Cons.IH [OF ok dist rest, of "users @ [u]"] by blast
  have us: "map (\<lambda>x. the (user_conns ?p (Member x))) es = map (\<lambda>x. the (user_conns p (Member x))) es"
    using ne by simp
  have r: "f(Member e := None) |` (- Member ` set es) = f |` (- Member ` set (e # es))" for f :: "string \<rightharpoonup> 'b"
    by (rule ext) (simp add: restrict_map_def)
  have "mgr_ok p' (\<sigma> |` (- Member ` set (e # es)))" using p'(2) unfolding r .
  moreover have "user_conns p' = user_conns p |` (- Member ` set (e # es))"
    unfolding r [symmetric] p'(3) by (rule arg_cong2 [of _ _ _ _ "(|`)"]) simp_all
  moreover have "eliminate_loop p (e # es) users = Some (p', users @ map (\<lambda>e. the (user_conns p (Member e))) (e # es))"
    using p'(1) u z(1) unfolding us by simp
  ultimately show ?case using p'(4) by auto
qed

lemma EliminateTimeoutUserConns_ok:
  assumes p: "mgr_ok p \<sigma>" and now: "0 \<le> now"
    and gone: "gone = {uid. \<exists>sc. \<sigma> uid = Some sc \<and> Fin 0 \<le> sc \<and> sc \<le> f64_of_int now}"
  shows "\<exists>p' users. EliminateTimeoutUserConns p now = Ret (p', users) \<and>
    mgr_ok p' (\<sigma> |` (- gone)) \<and> user_conns p' = user_conns p |` (- gone) \<and> max_conn_size p' = max_conn_size p \<and>
    distinct (map Uid users) \<and> set users = {u. \<exists>uid\<in>gone. user_conns p uid = Some u}"
proof -
  note o = mgr_okD [OF p]
  let ?mn = "\<lparr>bInf = 0, bValue = Fin 0, bExclude = False\<rparr>"
  let ?mx = "\<lparr>bInf = 0, bValue = f64_of_int now, bExclude = False\<rparr>"
  have b: "\<not> borders_empty ?mn ?mx" using now by (simp add: borders_empty_def f64_of_int_def sgn_if)
  have inb: "in_borders ?mn ?mx e \<longleftrightarrow> Fin 0 \<le> Score e \<and> Score e \<le> f64_of_int now" for e
    by (simp add: in_borders_def less_def greater_def negativeInf_def positiveInf_def)
  obtain es where es: "RangeByScore (zset_uid p) ?mn ?mx 0 (-1) False = Some es" "distinct (map Member es)"
    "\<forall>e. e \<in> set es \<longleftrightarrow> \<sigma> (Member e) = Some (Score e) \<and> in_borders ?mn ?mx e"
    using scored_RangeByScore [OF o(2) b] by blast
  have mem: "Member ` set es = gone"
  proof (intro set_eqI iffI)
    fix uid assume "uid \<in> Member ` set es"
    then show "uid \<in> gone" using es(3) inb by (auto simp: gone)
  next
    fix uid assume "uid \<in> gone"
    then obtain sc where "\<sigma> uid = Some sc" "Fin 0 \<le> sc" "sc \<le> f64_of_int now" by (auto simp: gone)
    then have "\<lparr>Member = uid, Score = sc\<rparr> \<in> set es" using es(3) inb by simp
    then show "uid \<in> Member ` set es" by force
  qed
  have tab: "\<forall>e\<in>set es. user_conns p (Member e) \<noteq> None" using es(3) o(3) by (metis domIff option.distinct(1))
  from eliminate_loop_ok [OF p es(2) tab, of "[]"] obtain p' where p':
    "eliminate_loop p es [] = Some (p', map (\<lambda>e. the (user_conns p (Member e))) es)"
    "mgr_ok p' (\<sigma> |` (- gone))" "user_conns p' = user_conns p |` (- gone)" "max_conn_size p' = max_conn_size p"
    unfolding mem by auto
  let ?us = "map (\<lambda>e. the (user_conns p (Member e))) es"
  have us: "map Uid ?us = map Member es" using tab o(4) by auto
  have "distinct (map Uid ?us)" unfolding us by (rule es(2))
  moreover have "set ?us = {u. \<exists>uid\<in>gone. user_conns p uid = Some u}"
    unfolding mem [symmetric] using tab by force
  ultimately show ?thesis using p' es(1) o(1)
    by (intro exI [of _ p'] exI [of _ ?us]) (auto simp: EliminateTimeoutUserConns_def Let_def)
qed

section \<open>Every run of the manager\<close>

text \<open>The calls the server makes, in any order, with any clock reading and any draws.\<close>

inductive mgr_step :: "GWUserConnMgr \<Rightarrow> GWUserConnMgr \<Rightarrow> bool" where
  step_add: "AddUserConn p uid ch now rnd = Ret (p', err) \<Longrightarrow> draws_ok rnd \<Longrightarrow> mgr_step p p'"
| step_remove: "RemoveUserConn p uid = Ret (p', ok) \<Longrightarrow> mgr_step p p'"
| step_refresh: "RefreshUserConn p uid now rnd = Ret (p', ok) \<Longrightarrow> draws_ok rnd \<Longrightarrow> mgr_step p p'"
| step_eliminate: "EliminateTimeoutUserConns p now = Ret (p', users) \<Longrightarrow> 0 \<le> now \<Longrightarrow> mgr_step p p'"

inductive mgr_reachable :: "int \<Rightarrow> int \<Rightarrow> GWUserConnMgr \<Rightarrow> bool" for n h where
  start: "mgr_reachable n h (GetUserConnsInstance n h)"
| move: "mgr_reachable n h p \<Longrightarrow> mgr_step p p' \<Longrightarrow> mgr_reachable n h p'"

inductive_cases mgr_stepE: "mgr_step p p'"

definition users_of :: "GWUserConnMgr \<Rightarrow> nat" where
  "users_of p = card (dom (user_conns p))"

lemma mgr_ok_finite: "mgr_ok p \<sigma> \<Longrightarrow> finite (dom (user_conns p))"
  using scored_finite mgr_okD(2,3) by metis

lemma mgr_step_bound:
  assumes "mgr_step p p'" and p: "mgr_ok p \<sigma>"
  shows "\<exists>\<sigma>'. mgr_ok p' \<sigma>' \<and> max_conn_size p' = max_conn_size p \<and>
    int (users_of p') \<le> max (int (users_of p)) (max_conn_size p)"
  using assms(1)
proof (elim mgr_stepE, goal_cases)
  case (1 uid ch now rnd err)
  show ?thesis
  proof (cases "p' = p")
    case True
    then show ?thesis using p by auto
  next
    case False
    then have *: "user_conns p uid = None" "\<not> int (card (dom (user_conns p))) \<ge> max_conn_size p" "err = None"
      "user_conns p' = (user_conns p)(uid \<mapsto> \<lparr>Uid = uid, ChannelId = ch, ConnectTs = now,
                      ExpireTs = i64 (now + conn_timeout_sec p)\<rparr>)" "max_conn_size p' = max_conn_size p"
      using 1(1) AddUserConn_ok(1) [OF p 1(2), of uid ch now] by (auto split: if_splits)
    have "mgr_ok p' (\<sigma>(uid \<mapsto> f64_of_int now))" using AddUserConn_ok(2) [OF p 1(2)] 1(1) *(3) by simp
    moreover have "int (users_of p') \<le> max_conn_size p"
      using * mgr_ok_finite [OF p] by (simp add: users_of_def domIff)
    ultimately show ?thesis using *(5) by auto
  qed
next
  case (2 uid ok)
  then have "mgr_ok p' (\<sigma>(uid := None))" "user_conns p' = (user_conns p)(uid := None)" "max_conn_size p' = max_conn_size p"
    using RemoveUserConn_ok [OF p, of uid] by auto
  moreover from this(2) have "users_of p' \<le> users_of p" by (simp add: users_of_def card_Diff1_le)
  ultimately show ?thesis by auto
next
  case (3 uid now rnd ok)
  then show ?thesis using RefreshUserConn_ok [OF p 3(2), of uid now] by (auto simp: users_of_def)
next
  case (4 now users)
  define gone where "gone = {uid. \<exists>sc. \<sigma> uid = Some sc \<and> Fin 0 \<le> sc \<and> sc \<le> f64_of_int now}"
  from EliminateTimeoutUserConns_ok [OF p 4(2) gone_def] 4(1)
  have "mgr_ok p' (\<sigma> |` (- gone))" "user_conns p' = user_conns p |` (- gone)" "max_conn_size p' = max_conn_size p"
    by auto
  moreover from this(2) have "users_of p' \<le> users_of p"
    unfolding users_of_def using mgr_ok_finite [OF p] by (auto intro: card_mono)
  ultimately show ?thesis by auto
qed

lemma mgr_reachable_ok:
  "mgr_reachable n h p \<Longrightarrow> (\<exists>\<sigma>. mgr_ok p \<sigma>) \<and> max_conn_size p = n \<and> int (users_of p) \<le> max 0 n"
proof (induction rule: mgr_reachable.induct)
  case start
  show ?case using mgr_ok_init [of n h] by (auto simp: GetUserConnsInstance_def users_of_def)
next
  case (move p p')
  then show ?case using mgr_step_bound by fastforce
qed

section \<open>Properties\<close>

text \<open>C11: In every reachable state of the connection manager, whatever calls were made with whatever clock
  readings, the mutex is free, the table and the sorted set hold the same users, and there are
  never more of them than the configured limit.\<close>

theorem users_bounded:
  assumes "mgr_reachable n h p"
  shows "\<not> mgr_lock p \<and> (\<exists>\<sigma>. scored (zset_uid p) \<sigma> \<and> dom \<sigma> = dom (user_conns p)) \<and>
    GetCount p = Ret (p, int (card (dom (user_conns p)))) \<and> int (card (dom (user_conns p))) \<le> max 0 n"
proof -
  obtain \<sigma> where "mgr_ok p \<sigma>" "int (users_of p) \<le> max 0 n" using mgr_reachable_ok [OF assms] by blast
  then show ?thesis using mgr_okD [of p \<sigma>] GetCount_ok [of p \<sigma>] by (auto simp: users_of_def)
qed

lemma users_bounded_witness:
  "\<exists>p. AddUserConn (GetUserConnsInstance 1 20) ''u1'' ''ch1'' 100 [65535] = Ret (p, None) \<and>
    GetCount p = Ret (p, int (card (dom (user_conns p)))) \<and> int (card (dom (user_conns p))) \<le> max 0 1"
proof -
  have d: "draws_ok [65535]" by (simp add: draws_ok_def low_draw_def)
  obtain p where p: "AddUserConn (GetUserConnsInstance 1 20) ''u1'' ''ch1'' 100 [65535] = Ret (p, None)"
    using AddUserConn_ok(1) [OF mgr_ok_init d, of 1 20 "''u1''" "''ch1''" 100] by (simp add: GetUserConnsInstance_def)
  have "mgr_reachable 1 20 p" by (rule move [OF start step_add [OF p d]])
  from users_bounded [OF this] p show ?thesis by blast
qed

text \<open>\<^verbatim>\<open>RefreshUserConn\<close> never succeeds: for a connected user it moves the score in the sorted set, then
  reports failure and leaves the user's \<^verbatim>\<open>ExpireTs\<close> as it was.\<close>

theorem RefreshUserConn_never_succeeds:
  assumes "mgr_ok p \<sigma>" "draws_ok rnd"
  shows "\<exists>p'. RefreshUserConn p uid now rnd = Ret (p', False) \<and> user_conns p' = user_conns p \<and>
    mgr_ok p' (if user_conns p uid = None then \<sigma> else \<sigma>(uid \<mapsto> f64_of_int (i64 (now + conn_timeout_sec p))))"
  using RefreshUserConn_ok [OF assms, of uid now] by blast

lemma RefreshUserConn_never_succeeds_witness:
  "\<exists>p p'. AddUserConn (GetUserConnsInstance 1 20) ''u1'' ''ch1'' 100 [65535] = Ret (p, None) \<and>
    RefreshUserConn p ''u1'' 130 [65535] = Ret (p', False) \<and> user_conns p' = user_conns p"
proof -
  have d: "draws_ok [65535]" by (simp add: draws_ok_def low_draw_def)
  obtain p where p: "AddUserConn (GetUserConnsInstance 1 20) ''u1'' ''ch1'' 100 [65535] = Ret (p, None)"
    using AddUserConn_ok(1) [OF mgr_ok_init d, of 1 20 "''u1''" "''ch1''" 100] by (simp add: GetUserConnsInstance_def)
  from RefreshUserConn_never_succeeds [OF AddUserConn_ok(2) [OF mgr_ok_init d p] d, of "''u1''" 130] p
  show ?thesis by blast
qed

text \<open>A user who has just connected is eliminated at once: the score \<^verbatim>\<open>AddUserConn\<close> sets is the time of
  the connection, not its expiry, so a sweep at any later time (or the same second) returns the
  user and drops the connection although \<^verbatim>\<open>ExpireTs\<close> lies ahead.\<close>

theorem Eliminate_drops_fresh_user:
  assumes p: "mgr_ok p \<sigma>" and d: "draws_ok rnd" and t: "0 \<le> t" "t \<le> now" "now < 2 ^ 53"
    and timeout: "now < t + conn_timeout_sec p" "t + conn_timeout_sec p < 2 ^ 63"
    and add: "AddUserConn p uid ch t rnd = Ret (p1, None)"
  shows "\<exists>p2 users. EliminateTimeoutUserConns p1 now = Ret (p2, users) \<and> user_conns p2 uid = None \<and>
    (\<exists>u\<in>set users. Uid u = uid \<and> now < ExpireTs u)"
proof -
  have ok: "mgr_ok p1 (\<sigma>(uid \<mapsto> f64_of_int t))" by (rule AddUserConn_ok(2) [OF p d add])
  define gone where "gone = {x. \<exists>sc. (\<sigma>(uid \<mapsto> f64_of_int t)) x = Some sc \<and> Fin 0 \<le> sc \<and> sc \<le> f64_of_int now}"
  have "uid \<in> gone" using t by (simp add: gone_def f64_of_int_exact)
  moreover have u: "user_conns p1 uid = Some \<lparr>Uid = uid, ChannelId = ch, ConnectTs = t,
      ExpireTs = i64 (t + conn_timeout_sec p)\<rparr>"
    using AddUserConn_ok(1) [OF p d, of uid ch t] add by (auto split: if_splits)
  moreover have "i64 (t + conn_timeout_sec p) = t + conn_timeout_sec p"
    using t timeout by (intro i64_id) (simp add: is_i64_def)
  ultimately show ?thesis
    using EliminateTimeoutUserConns_ok [OF ok _ gone_def] t timeout by fastforce
qed

lemma Eliminate_drops_fresh_user_witness:
  "\<exists>p1 p2 users. AddUserConn (GetUserConnsInstance 1 20) ''u1'' ''ch1'' 100 [65535] = Ret (p1, None) \<and>
    EliminateTimeoutUserConns p1 100 = Ret (p2, users) \<and> user_conns p2 ''u1'' = None"
proof -
  have d: "draws_ok [65535]" by (simp add: draws_ok_def low_draw_def)
  obtain p where p: "AddUserConn (GetUserConnsInstance 1 20) ''u1'' ''ch1'' 100 [65535] = Ret (p, None)"
    using AddUserConn_ok(1) [OF mgr_ok_init d, of 1 20 "''u1''" "''ch1''" 100] by (simp add: GetUserConnsInstance_def)
  have "conn_timeout_sec (GetUserConnsInstance 1 20) = 60"
    by (simp add: GetUserConnsInstance_def i64_id is_i64_def)
  then show ?thesis using Eliminate_drops_fresh_user [OF mgr_ok_init d _ _ _ _ _ p, of 100] p by auto
qed

end
