(* ===== verification/UserNodeCache.thy ===== *)
theory UserNodeCache
  imports ScoreIndex
begin

text \<open>
  \<^verbatim>\<open>src/server/online/handle/user_node_cache.go\<close>: the bounded cache of the nodes users are connected
  to, indexed by expiry in a sorted set.
\<close>

section \<open>The operations\<close>

definition ERR_INNER_SERVER :: string where "ERR_INNER_SERVER = ''inner server error''"

record UserNode =
  nUid :: string
  nServiceId :: string
  nHost :: string
  nPort :: int

record UserNodeInfo =
  infoNode :: UserNode
  infoExpireTs :: int

record UserNodeCache =
  cache_zset :: SortedSet
  user_nodes :: "string \<rightharpoonup> UserNodeInfo"
  max_size :: int

definition NewUserNodeCache :: "int \<Rightarrow> UserNodeCache" where
  "NewUserNodeCache n = \<lparr>cache_zset = MakeSortedSet, user_nodes = Map.empty, max_size = n\<rparr>"

text \<open>The first half of \<open>Set\<close>: make room. An \<^verbatim>\<open>error\<close> is \<open>Inl\<close>; \<^verbatim>\<open>res[0]\<close> panics on an empty slice.\<close>

definition cache_evict :: "UserNodeCache \<Rightarrow> string \<Rightarrow> (UserNodeCache \<times> bool) option" where
  "cache_evict p uid =
     (if user_nodes p uid = None \<and> Len (cache_zset p) \<ge> max_size p
      then do { (z, res) \<leftarrow> PopMin (cache_zset p) 1;
                let p1 = p\<lparr>cache_zset := z\<rparr>;
                (case res of
                   Some removed \<Rightarrow>
                     do { e \<leftarrow> idx removed 0;
                          Some (p1\<lparr>user_nodes := (user_nodes p1)(Member e := None)\<rparr>, True) }
                 | None \<Rightarrow> Some (p1, False)) }
      else Some (p, True))"

definition cache_Set ::
  "UserNodeCache \<Rightarrow> string \<Rightarrow> UserNodeInfo \<Rightarrow> nat list \<Rightarrow> (UserNodeCache \<times> string option) option" where
  "cache_Set p uid user rnd =
     do { (p1, room) \<leftarrow> cache_evict p uid;
          if \<not> room then Some (p1, Some ERR_INNER_SERVER)
          else do { (z, ok) \<leftarrow> Add (cache_zset p1) uid (f64_of_int (infoExpireTs user)) rnd;
                    let p2 = p1\<lparr>cache_zset := z\<rparr>;
                    if \<not> ok then Some (p2, Some ERR_INNER_SERVER)
                    else Some (p2\<lparr>user_nodes := (user_nodes p2)(uid \<mapsto> user)\<rparr>, None) } }"

definition cache_Get :: "UserNodeCache \<Rightarrow> string \<Rightarrow> UserNodeInfo option" where
  "cache_Get p uid = user_nodes p uid"

definition cache_Del :: "UserNodeCache \<Rightarrow> string \<Rightarrow> (UserNodeCache \<times> bool) option" where
  "cache_Del p uid =
     (if user_nodes p uid = None then Some (p, False)
      else do { (z, _) \<leftarrow> Remove (cache_zset p) uid;
                Some (p\<lparr>cache_zset := z, user_nodes := (user_nodes p)(uid := None)\<rparr>, True) })"

section \<open>The invariant: table and index hold the same users, at most \<open>max_size\<close> of them\<close>

definition cache_ok :: "UserNodeCache \<Rightarrow> (string \<rightharpoonup> f64) \<Rightarrow> bool" where
  "cache_ok p \<sigma> \<longleftrightarrow> scored (cache_zset p) \<sigma> \<and> dom \<sigma> = dom (user_nodes p) \<and>
     int (card (dom (user_nodes p))) \<le> max 0 (max_size p)"

lemma cache_okD:
  assumes "cache_ok p \<sigma>"
  shows "scored (cache_zset p) \<sigma>" "dom \<sigma> = dom (user_nodes p)" "int (card (dom (user_nodes p))) \<le> max 0 (max_size p)"
  using assms by (auto simp: cache_ok_def)

lemma cache_finite: "cache_ok p \<sigma> \<Longrightarrow> finite (dom (user_nodes p))"
  using scored_finite cache_okD(1,2) by metis

lemma cache_ok_new: "cache_ok (NewUserNodeCache n) Map.empty"
  by (simp add: cache_ok_def NewUserNodeCache_def scored_empty)

text \<open>A user the cache knows: the score moves, \<open>Set\<close> reports an error and the table stays as it is.\<close>

lemma cache_Set_known:
  assumes p: "cache_ok p \<sigma>" and u: "user_nodes p uid = Some v" and d: "draws_ok rnd"
  shows "\<exists>p'. cache_Set p uid user rnd = Some (p', Some ERR_INNER_SERVER) \<and> user_nodes p' = user_nodes p \<and>
    max_size p' = max_size p \<and> cache_ok p' (\<sigma>(uid \<mapsto> f64_of_int (infoExpireTs user)))"
proof -
  note o = cache_okD [OF p]
  obtain z where "Add (cache_zset p) uid (f64_of_int (infoExpireTs user)) rnd = Some (z, False)"
    "scored z (\<sigma>(uid \<mapsto> f64_of_int (infoExpireTs user)))"
    "dom (\<sigma>(uid \<mapsto> f64_of_int (infoExpireTs user))) = dom (user_nodes p)"
    using zset.add_known [OF o(1,2) u _ d, of "f64_of_int (infoExpireTs user)"] by auto
  then show ?thesis using u o(3) by (auto simp: cache_Set_def cache_evict_def Let_def cache_ok_def)
qed

lemma cache_Set_room:
  assumes p: "cache_ok p \<sigma>" and u: "user_nodes p uid = None" and room: "int (card (dom (user_nodes p))) < max_size p"
    and d: "draws_ok rnd"
  shows "\<exists>p'. cache_Set p uid user rnd = Some (p', None) \<and> user_nodes p' = (user_nodes p)(uid \<mapsto> user) \<and>
    max_size p' = max_size p \<and> cache_ok p' (\<sigma>(uid \<mapsto> f64_of_int (infoExpireTs user)))"
proof -
  note o = cache_okD [OF p]
  have len: "Len (cache_zset p) = int (card (dom (user_nodes p)))" using zset.len_step [OF o(1,2)] .
  obtain z where z: "Add (cache_zset p) uid (f64_of_int (infoExpireTs user)) rnd = Some (z, True)"
    "scored z (\<sigma>(uid \<mapsto> f64_of_int (infoExpireTs user)))"
    "dom (\<sigma>(uid \<mapsto> f64_of_int (infoExpireTs user))) = dom ((user_nodes p)(uid \<mapsto> user))"
    using zset.add_new [OF o(1,2) u _ d, of "f64_of_int (infoExpireTs user)"] by auto
  have "card (dom ((user_nodes p)(uid \<mapsto> user))) = Suc (card (dom (user_nodes p)))"
    using u cache_finite [OF p] by (simp add: domIff)
  then show ?thesis using z u len room
    by (auto simp: cache_Set_def cache_evict_def Let_def cache_ok_def)
qed

text \<open>A full cache drops the entry with the least expiry before the new one comes in.\<close>

lemma cache_Set_full:
  assumes p: "cache_ok p \<sigma>" and u: "user_nodes p uid = None" and full: "int (card (dom (user_nodes p))) = max_size p"
    and pos: "0 < max_size p" and d: "draws_ok rnd"
  shows "\<exists>p' old. cache_Set p uid user rnd = Some (p', None) \<and> user_nodes p old \<noteq> None \<and>
    (\<forall>m sc. \<sigma> m = Some sc \<longrightarrow> the (\<sigma> old) \<le> sc) \<and>
    user_nodes p' = (user_nodes p)(old := None, uid \<mapsto> user) \<and>
    max_size p' = max_size p \<and> cache_ok p' (\<sigma>(old := None, uid \<mapsto> f64_of_int (infoExpireTs user)))"
proof -
  note o = cache_okD [OF p]
  let ?sc = "f64_of_int (infoExpireTs user)"
  have len: "Len (cache_zset p) = int (card (dom (user_nodes p)))" using zset.len_step [OF o(1,2)] .
  have "dom (user_nodes p) \<noteq> {}" using full pos by (metis card.empty less_irrefl of_nat_0)
  then obtain k v where "user_nodes p k = Some v" by blast
  from zrange.pop_step [OF o(1,2) this] obtain z e where pop: "PopMin (cache_zset p) 1 = Some (z, Some [e])"
    "user_nodes p (Member e) \<noteq> None" "\<forall>m sc. \<sigma> m = Some sc \<longrightarrow> Score e \<le> sc" "\<sigma> (Member e) = Some (Score e)"
    "scored z (\<sigma>(Member e := None))" "dom (\<sigma>(Member e := None)) = dom ((user_nodes p)(Member e := None))"
    by blast
  have u1: "((user_nodes p)(Member e := None)) uid = None" using u by simp
  obtain z2 where z: "Add z uid ?sc rnd = Some (z2, True)" "scored z2 (\<sigma>(Member e := None, uid \<mapsto> ?sc))"
    "dom (\<sigma>(Member e := None, uid \<mapsto> ?sc)) = dom ((user_nodes p)(Member e := None, uid \<mapsto> user))"
    using zset.add_new [OF pop(5,6) u1 f64_of_int_not_NaN(1) d] by blast
  have ev: "cache_evict p uid = Some (p\<lparr>cache_zset := z, user_nodes := (user_nodes p)(Member e := None)\<rparr>, True)"
    using u len full pop(1) by (simp add: cache_evict_def Let_def idx_def)
  let ?p = "p\<lparr>cache_zset := z2, user_nodes := (user_nodes p)(Member e := None, uid \<mapsto> user)\<rparr>"
  have set: "cache_Set p uid user rnd = Some (?p, None)" using ev z(1) by (simp add: cache_Set_def Let_def)
  have fin: "finite (dom (user_nodes p))" by (rule cache_finite [OF p])
  have "card (dom ((user_nodes p)(Member e := None, uid \<mapsto> user))) = card (dom (user_nodes p))"
    using u pop(2) fin card_Suc_Diff1 [of "dom (user_nodes p)" "Member e"] by (auto simp: domIff)
  then have "cache_ok ?p (\<sigma>(Member e := None, uid \<mapsto> ?sc))" using z(2,3) full pos by (simp add: cache_ok_def)
  then show ?thesis using set pop(2,3,4) by (intro exI [of _ ?p] exI [of _ "Member e"]) auto
qed

lemma cache_Set_no_room:
  assumes p: "cache_ok p \<sigma>" and z: "max_size p \<le> 0"
  shows "cache_Set p uid user rnd = Some (p, Some ERR_INNER_SERVER)"
proof -
  note o = cache_okD [OF p]
  have "card (dom (user_nodes p)) = 0" using o(3) z by simp
  then have e: "dom (user_nodes p) = {}" using cache_finite [OF p] by simp
  then have "user_nodes p uid = None" by auto
  moreover have "PopMin (cache_zset p) 1 = Some (cache_zset p, None)"
    using scored_PopMin_empty [OF o(1)] o(2) e by simp
  moreover have "Len (cache_zset p) = 0" using zset.len_step [OF o(1,2)] e by simp
  ultimately show ?thesis using z by (simp add: cache_Set_def cache_evict_def Let_def)
qed

lemma cache_Del_ok:
  assumes p: "cache_ok p \<sigma>"
  shows "\<exists>p'. cache_Del p uid = Some (p', user_nodes p uid \<noteq> None) \<and>
    user_nodes p' = (user_nodes p)(uid := None) \<and> max_size p' = max_size p \<and> cache_ok p' (\<sigma>(uid := None))"
proof -
  note o = cache_okD [OF p]
  obtain z where z: "Remove (cache_zset p) uid = Some (z, user_nodes p uid \<noteq> None)" "scored z (\<sigma>(uid := None))"
    "dom (\<sigma>(uid := None)) = dom ((user_nodes p)(uid := None))"
    using zset.rem_step [OF o(1,2), of uid] by auto
  have c: "card (dom ((user_nodes p)(uid := None))) \<le> card (dom (user_nodes p))" by (simp add: card_Diff1_le)
  show ?thesis
  proof (cases "user_nodes p uid")
    case None
    then have "(user_nodes p)(uid := None) = user_nodes p" "\<sigma>(uid := None) = \<sigma>"
      using o(2) by (auto intro!: fun_upd_idem simp: domIff)
    then show ?thesis using None p by (simp add: cache_Del_def)
  next
    case (Some v)
    then show ?thesis using z c o(3) by (auto simp: cache_Del_def cache_ok_def)
  qed
qed

section \<open>Every run of the cache\<close>

inductive cache_reachable :: "int \<Rightarrow> UserNodeCache \<Rightarrow> bool" for n where
  new: "cache_reachable n (NewUserNodeCache n)"
| set_user: "cache_reachable n p \<Longrightarrow> draws_ok rnd \<Longrightarrow> cache_Set p uid user rnd = Some (p', err) \<Longrightarrow> cache_reachable n p'"
| del_user: "cache_reachable n p \<Longrightarrow> cache_Del p uid = Some (p', ok) \<Longrightarrow> cache_reachable n p'"

lemma cache_Set_keeps:
  assumes p: "cache_ok p \<sigma>" and d: "draws_ok rnd"
  shows "\<exists>p' err \<sigma>'. cache_Set p uid user rnd = Some (p', err) \<and> cache_ok p' \<sigma>' \<and> max_size p' = max_size p"
proof (cases "user_nodes p uid")
  case (Some v)
  then show ?thesis using cache_Set_known [OF p Some d] by blast
next
  case None
  consider "max_size p \<le> 0" | "int (card (dom (user_nodes p))) < max_size p"
    | "0 < max_size p" "int (card (dom (user_nodes p))) = max_size p"
    using cache_okD(3) [OF p] by linarith
  then show ?thesis
  proof cases
    case 1
    then show ?thesis using cache_Set_no_room [OF p 1] p by blast
  next
    case 2
    then show ?thesis using cache_Set_room [OF p None 2 d] by blast
  next
    case 3
    then show ?thesis using cache_Set_full [OF p None 3(2,1) d] by blast
  qed
qed

lemma cache_reachable_ok: "cache_reachable n p \<Longrightarrow> (\<exists>\<sigma>. cache_ok p \<sigma>) \<and> max_size p = n"
proof (induction rule: cache_reachable.induct)
  case new
  show ?case using cache_ok_new by (auto simp: NewUserNodeCache_def)
next
  case (set_user p rnd uid user p' err)
  then obtain \<sigma> where "cache_ok p \<sigma>" by blast
  from cache_Set_keeps [OF this set_user(2), of uid user] set_user show ?case by auto
next
  case (del_user p uid p' ok)
  then obtain \<sigma> where "cache_ok p \<sigma>" by blast
  from cache_Del_ok [OF this, of uid] del_user show ?case by auto
qed

end
