(* ===== verification/MServicePacket.thy ===== *)
theory MServicePacket
  imports Prelude
begin

text \<open>
  \<^verbatim>\<open>src/mservice/define/packet.go\<close>, lines 14-74: the packets the services exchange. \<^verbatim>\<open>Body\<close> is an
  \<^verbatim>\<open>interface {}\<close>: the packet type is polymorphic in it. The trace id of a request comes from
  \<^verbatim>\<open>util.GenUuid\<close> and is an argument.
\<close>

definition MS_REQUEST :: int where "MS_REQUEST = 1"
definition MS_RESPONSE :: int where "MS_RESPONSE = 2"
definition MS_CALL :: int where "MS_CALL = 1"
definition MS_CAST :: int where "MS_CAST = 2"

record MServiceHeader =
  Service :: string
  Method :: string
  TraceId :: string
  CallType :: int
  Direction :: int

record 'b MServicePacket =
  Header :: MServiceHeader
  Body :: 'b

definition CreateReqPacket :: "string \<Rightarrow> string \<Rightarrow> string \<Rightarrow> int \<Rightarrow> 'b \<Rightarrow> 'b MServicePacket" where
  "CreateReqPacket uuid service method call_type body =
     \<lparr>Header = \<lparr>Service = service, Method = method, TraceId = uuid, CallType = call_type,
                Direction = MS_REQUEST\<rparr>, Body = body\<rparr>"

definition CreateRespPacket :: "string \<Rightarrow> string \<Rightarrow> string \<Rightarrow> int \<Rightarrow> 'b \<Rightarrow> 'b MServicePacket" where
  "CreateRespPacket service method trace_id call_type body =
     \<lparr>Header = \<lparr>Service = service, Method = method, TraceId = trace_id, CallType = call_type,
                Direction = MS_RESPONSE\<rparr>, Body = body\<rparr>"

end
