(* ===== verification/OnlineHandle.thy ===== *)
theory OnlineHandle
  imports UserNodeCache MServicePacket Sync
begin

text \<open>
  \<^verbatim>\<open>src/server/online/handle/online_handle.go\<close>: the server that knows which gateway a user is
  connected to. \<^verbatim>\<open>GetPacketBody\<close> decodes with the third-party \<^verbatim>\<open>mapstructure\<close>, once per request type:
  the record \<open>decoders\<close> is that parameter. A call reads the clock and the configuration and draws
  random numbers for the sorted set: these are arguments (\<open>now k\<close> is the call's \<open>k\<close>-th reading).
  A handler returns the packet it pushes (or none) and its \<^verbatim>\<open>error\<close>.
\<close>

section \<open>The handlers\<close>

definition MS_ONLINE_LOGIN :: string where "MS_ONLINE_LOGIN = ''MS_ONLINE_LOGIN''"
definition MS_ONLINE_LOGOUT :: string where "MS_ONLINE_LOGOUT = ''MS_ONLINE_LOGOUT''"
definition MS_ONLINE_HEARTBEAT :: string where "MS_ONLINE_HEARTBEAT = ''MS_ONLINE_HEARTBEAT''"
definition MS_ONLINE_GET_USER_NODE :: string where "MS_ONLINE_GET_USER_NODE = ''MS_ONLINE_GET_USER_NODE''"
definition MS_ONLINE_GET_USER_NODE_BATCH :: string
  where "MS_ONLINE_GET_USER_NODE_BATCH = ''MS_ONLINE_GET_USER_NODE_BATCH''"
definition ERR_USER_ALREADY_LOGIN :: string where "ERR_USER_ALREADY_LOGIN = ''user already login''"
definition ERR_USER_NOT_EXISTS :: string where "ERR_USER_NOT_EXISTS = ''user not exists''"
definition SERVICE_NAME :: string where "SERVICE_NAME = ''online''"

lemmas online_names = MS_ONLINE_LOGIN_def MS_ONLINE_LOGOUT_def MS_ONLINE_HEARTBEAT_def
  MS_ONLINE_GET_USER_NODE_def MS_ONLINE_GET_USER_NODE_BATCH_def

datatype online_body =
  OLLoginResp string
| OLHeartbeatResp string
| OLGetUserNodeResp string UserNode
| OLGetUserNodeBatchResp string "UserNode list"

type_synonym error = string

record 'b decoders =
  decLoginReq :: "'b \<Rightarrow> error + UserNode"
  decLogoutReq :: "'b \<Rightarrow> error + string"
  decHeartbeatReq :: "'b \<Rightarrow> error + UserNode"
  decGetUserNodeReq :: "'b \<Rightarrow> error + string"
  decGetUserNodeBatchReq :: "'b \<Rightarrow> error + string list"

record online_env =
  now :: "nat \<Rightarrow> int"
  CacheExpireSec :: int
  draws :: "nat list"

record OnlineHandle =
  user_cache :: UserNodeCache
  olock :: rwmutex

type_synonym online_result = "(OnlineHandle \<times> online_body MServicePacket option \<times> error option) outcome"

definition online_Init :: "int \<Rightarrow> OnlineHandle" where
  "online_Init MaxCacheSize = \<lparr>user_cache = NewUserNodeCache MaxCacheSize, olock = free\<rparr>"

text \<open>The user cache calls: \<^verbatim>\<open>user.ExpireTs > now\<close> makes \<open>get_user\<close> say the user is not there.\<close>

definition get_user :: "OnlineHandle \<Rightarrow> int \<Rightarrow> string \<Rightarrow> UserNode option" where
  "get_user p t uid =
     (case cache_Get (user_cache p) uid of
        None \<Rightarrow> None
      | Some user \<Rightarrow> if infoExpireTs user > t then None else Some (infoNode user))"

definition set_user :: "OnlineHandle \<Rightarrow> online_env \<Rightarrow> int \<Rightarrow> UserNode \<Rightarrow> (OnlineHandle \<times> error option) option" where
  "set_user p env t user =
     do { let user_node = \<lparr>infoNode = user, infoExpireTs = i64 (t + CacheExpireSec env)\<rparr>;
          (c, err) \<leftarrow> cache_Set (user_cache p) (nUid user) user_node (draws env);
          Some (p\<lparr>user_cache := c\<rparr>, err) }"

definition del_user :: "OnlineHandle \<Rightarrow> string \<Rightarrow> (OnlineHandle \<times> bool) option" where
  "del_user p uid =
     do { (c, ok) \<leftarrow> cache_Del (user_cache p) uid; Some (p\<lparr>user_cache := c\<rparr>, ok) }"

definition online_resp :: "string \<Rightarrow> 'b MServicePacket \<Rightarrow> online_body \<Rightarrow> online_body MServicePacket" where
  "online_resp method req body =
     CreateRespPacket SERVICE_NAME method (TraceId (Header req)) (CallType (Header req)) body"

text \<open>\<open>online_locked\<close>: a body between \<^verbatim>\<open>p.Lock()\<close> and \<^verbatim>\<open>p.Unlock()\<close>.\<close>

definition online_locked ::
  "OnlineHandle \<Rightarrow> (OnlineHandle \<Rightarrow> (OnlineHandle \<times> 'a) option) \<Rightarrow> (OnlineHandle \<times> 'a) outcome" where
  "online_locked p body =
     obind (WLock (olock p)) (\<lambda>m.
       case body (p\<lparr>olock := m\<rparr>) of
         None \<Rightarrow> Crash
       | Some (p1, r) \<Rightarrow> obind (WUnlock (olock p1)) (\<lambda>m. Ret (p1\<lparr>olock := m\<rparr>, r)))"

definition err_text :: "error option \<Rightarrow> string" where
  "err_text e = (case e of None \<Rightarrow> '''' | Some s \<Rightarrow> s)"

definition do_login :: "'b decoders \<Rightarrow> online_env \<Rightarrow> OnlineHandle \<Rightarrow> 'b MServicePacket \<Rightarrow> online_result" where
  "do_login dec env p req =
     (case decLoginReq dec (Body req) of
        Inl e \<Rightarrow> Ret (p, None, Some e)
      | Inr user \<Rightarrow>
        obind (online_locked p (\<lambda>p.
            case get_user p (now env 0) (nUid user) of
              None \<Rightarrow> do { (p1, err) \<leftarrow> set_user p env (now env 1) user; Some (p1, err_text err) }
            | Some _ \<Rightarrow> Some (p, ERR_USER_ALREADY_LOGIN)))
          (\<lambda>(p1, err_msg). Ret (p1, Some (online_resp MS_ONLINE_LOGIN req (OLLoginResp err_msg)), None)))"

definition do_logout :: "'b decoders \<Rightarrow> online_env \<Rightarrow> OnlineHandle \<Rightarrow> 'b MServicePacket \<Rightarrow> online_result" where
  "do_logout dec env p req =
     (case decLogoutReq dec (Body req) of
        Inl e \<Rightarrow> Ret (p, None, Some e)
      | Inr uid \<Rightarrow>
        obind (online_locked p (\<lambda>p.
            case get_user p (now env 0) uid of
              Some _ \<Rightarrow> do { (p1, _) \<leftarrow> del_user p uid; Some (p1, '''') }
            | None \<Rightarrow> Some (p, ERR_USER_NOT_EXISTS)))
          (\<lambda>(p1, err_msg). Ret (p1, Some (online_resp MS_ONLINE_LOGOUT req (OLLoginResp err_msg)), None)))"

definition do_heartbeat :: "'b decoders \<Rightarrow> online_env \<Rightarrow> OnlineHandle \<Rightarrow> 'b MServicePacket \<Rightarrow> online_result" where
  "do_heartbeat dec env p req =
     (case decHeartbeatReq dec (Body req) of
        Inl e \<Rightarrow> Ret (p, None, Some e)
      | Inr user \<Rightarrow>
        obind (online_locked p (\<lambda>p.
            do { (p1, err) \<leftarrow> set_user p env (now env 0) user; Some (p1, err_text err) }))
          (\<lambda>(p1, err_msg). Ret (p1, Some (online_resp MS_ONLINE_HEARTBEAT req (OLHeartbeatResp err_msg)), None)))"

text \<open>
  The two lookups take the read lock and release the write lock. \<^verbatim>\<open>*user\<close> panics when \<open>get_user\<close>
  returned nil.
\<close>

definition do_get_user_node :: "'b decoders \<Rightarrow> online_env \<Rightarrow> OnlineHandle \<Rightarrow> 'b MServicePacket \<Rightarrow> online_result" where
  "do_get_user_node dec env p req =
     (case decGetUserNodeReq dec (Body req) of
        Inl e \<Rightarrow> Ret (p, None, Some e)
      | Inr uid \<Rightarrow>
        obind (RLock (olock p)) (\<lambda>m.
          let p1 = p\<lparr>olock := m\<rparr>;
              user = get_user p1 (now env 0) uid;
              err_msg = (if user = None then ERR_USER_NOT_EXISTS else '''')
          in obind (WUnlock (olock p1)) (\<lambda>m.
               case user of
                 None \<Rightarrow> Crash
               | Some u \<Rightarrow> Ret (p1\<lparr>olock := m\<rparr>,
                   Some (online_resp MS_ONLINE_GET_USER_NODE req (OLGetUserNodeResp err_msg u)), None))))"

fun collect_users :: "OnlineHandle \<Rightarrow> (nat \<Rightarrow> int) \<Rightarrow> nat \<Rightarrow> string list \<Rightarrow> UserNode list" where
  "collect_users p t k [] = []"
| "collect_users p t k (uid # uids) =
     (case get_user p (t k) uid of
        Some user \<Rightarrow> user # collect_users p t (Suc k) uids
      | None \<Rightarrow> collect_users p t (Suc k) uids)"

definition do_get_user_node_batch :: "'b decoders \<Rightarrow> online_env \<Rightarrow> OnlineHandle \<Rightarrow> 'b MServicePacket \<Rightarrow> online_result" where
  "do_get_user_node_batch dec env p req =
     (case decGetUserNodeBatchReq dec (Body req) of
        Inl e \<Rightarrow> Ret (p, None, Some e)
      | Inr uids \<Rightarrow>
        obind (RLock (olock p)) (\<lambda>m.
          let p1 = p\<lparr>olock := m\<rparr>;
              users = collect_users p1 (now env) 0 uids
          in obind (WUnlock (olock p1)) (\<lambda>m.
               Ret (p1\<lparr>olock := m\<rparr>,
                 Some (online_resp MS_ONLINE_GET_USER_NODE_BATCH req (OLGetUserNodeBatchResp '''' users)), None))))"

text \<open>\<open>OnMessage\<close> pushes the response, when there is one, and returns the handler's error.\<close>

definition online_OnMessage :: "'b decoders \<Rightarrow> online_env \<Rightarrow> OnlineHandle \<Rightarrow> 'b MServicePacket \<Rightarrow> online_result" where
  "online_OnMessage dec env p req =
     (let m = Method (Header req)
      in if m = MS_ONLINE_LOGIN then do_login dec env p req
         else if m = MS_ONLINE_LOGOUT then do_logout dec env p req
         else if m = MS_ONLINE_HEARTBEAT then do_heartbeat dec env p req
         else if m = MS_ONLINE_GET_USER_NODE then do_get_user_node dec env p req
         else if m = MS_ONLINE_GET_USER_NODE_BATCH then do_get_user_node_batch dec env p req
         else Ret (p, None, None))"

section \<open>The invariant and what the handlers do\<close>

definition online_ok :: "OnlineHandle \<Rightarrow> (string \<rightharpoonup> f64) \<Rightarrow> bool" where
  "online_ok p \<sigma> \<longleftrightarrow> olock p = free \<and> cache_ok (user_cache p) \<sigma>"

abbreviation nodes :: "OnlineHandle \<Rightarrow> string \<rightharpoonup> UserNodeInfo" where
  "nodes p \<equiv> user_nodes (user_cache p)"

definition live :: "OnlineHandle \<Rightarrow> int \<Rightarrow> string \<Rightarrow> bool" where
  "live p t uid \<longleftrightarrow> (\<exists>u. nodes p uid = Some u \<and> t < infoExpireTs u)"

lemma online_ok_init: "online_ok (online_Init n) Map.empty"
  by (simp add: online_ok_def online_Init_def cache_ok_new)

lemma online_ok_finite: "online_ok p \<sigma> \<Longrightarrow> finite (dom (nodes p))"
  using cache_finite by (auto simp: online_ok_def)

lemma online_locked_free:
  assumes "olock p = free" "body (p\<lparr>olock := free\<lparr>writer := True\<rparr>\<rparr>) = Some (p1, r)" "olock p1 = free\<lparr>writer := True\<rparr>"
  shows "online_locked p body = Ret (p1\<lparr>olock := free\<rparr>, r)"
  using assms by (simp add: online_locked_def)

lemma online_relock [simp]: "olock p = free \<Longrightarrow> p\<lparr>olock := free\<rparr> = p"
  by (cases p) simp

lemma get_user_lock [simp]: "get_user (p\<lparr>olock := m\<rparr>) t uid = get_user p t uid"
  by (simp add: get_user_def)

lemma get_user_live: "live p t uid \<Longrightarrow> get_user p t uid = None"
  by (auto simp: live_def get_user_def cache_Get_def)

lemma get_user_expired:
  "nodes p uid = Some u \<Longrightarrow> \<not> t < infoExpireTs u \<Longrightarrow> get_user p t uid = Some (infoNode u)"
  by (simp add: get_user_def cache_Get_def)

lemma set_user_known:
  assumes p: "cache_ok (user_cache p) \<sigma>" and u: "nodes p (nUid user) = Some v" and d: "draws_ok (draws env)"
  shows "\<exists>p'. set_user p env t user = Some (p', Some ERR_INNER_SERVER) \<and> nodes p' = nodes p \<and>
    olock p' = olock p \<and> max_size (user_cache p') = max_size (user_cache p) \<and>
    cache_ok (user_cache p') (\<sigma>(nUid user \<mapsto> f64_of_int (i64 (t + CacheExpireSec env))))"
  using cache_Set_known [OF p u d, of "\<lparr>infoNode = user, infoExpireTs = i64 (t + CacheExpireSec env)\<rparr>"]
  by (auto simp: set_user_def Let_def)

lemma set_user_new:
  assumes p: "cache_ok (user_cache p) \<sigma>" and u: "nodes p (nUid user) = None" and d: "draws_ok (draws env)"
    and room: "int (card (dom (nodes p))) < max_size (user_cache p)"
  shows "\<exists>p'. set_user p env t user = Some (p', None) \<and>
    nodes p' = (nodes p)(nUid user \<mapsto> \<lparr>infoNode = user, infoExpireTs = i64 (t + CacheExpireSec env)\<rparr>) \<and>
    olock p' = olock p \<and> max_size (user_cache p') = max_size (user_cache p) \<and>
    cache_ok (user_cache p') (\<sigma>(nUid user \<mapsto> f64_of_int (i64 (t + CacheExpireSec env))))"
  using cache_Set_room [OF p u room d, of "\<lparr>infoNode = user, infoExpireTs = i64 (t + CacheExpireSec env)\<rparr>"]
  by (auto simp: set_user_def Let_def)

lemma set_user_keeps:
  assumes p: "cache_ok (user_cache p) \<sigma>" and d: "draws_ok (draws env)"
  shows "\<exists>p' err \<sigma>'. set_user p env t user = Some (p', err) \<and> olock p' = olock p \<and>
    max_size (user_cache p') = max_size (user_cache p) \<and> cache_ok (user_cache p') \<sigma>'"
proof -
  obtain c err \<sigma>' where "cache_Set (user_cache p) (nUid user)
      \<lparr>infoNode = user, infoExpireTs = i64 (t + CacheExpireSec env)\<rparr> (draws env) = Some (c, err)"
    "cache_ok c \<sigma>'" "max_size c = max_size (user_cache p)"
    using cache_Set_keeps [OF p d] by blast
  then show ?thesis by (auto simp: set_user_def Let_def)
qed

lemma del_user_ok:
  assumes p: "cache_ok (user_cache p) \<sigma>"
  shows "\<exists>p'. del_user p uid = Some (p', nodes p uid \<noteq> None) \<and> nodes p' = (nodes p)(uid := None) \<and>
    olock p' = olock p \<and> max_size (user_cache p') = max_size (user_cache p) \<and>
    cache_ok (user_cache p') (\<sigma>(uid := None))"
  using cache_Del_ok [OF p, of uid] by (auto simp: del_user_def)

subsection \<open>Login\<close>

lemma do_login_new:
  assumes p: "online_ok p \<sigma>" and dec: "decLoginReq dec (Body req) = Inr user" and d: "draws_ok (draws env)"
    and u: "nodes p (nUid user) = None" and room: "int (card (dom (nodes p))) < max_size (user_cache p)"
  shows "\<exists>p'. do_login dec env p req = Ret (p', Some (online_resp MS_ONLINE_LOGIN req (OLLoginResp '''')), None) \<and>
    nodes p' = (nodes p)(nUid user \<mapsto> \<lparr>infoNode = user, infoExpireTs = i64 (now env 1 + CacheExpireSec env)\<rparr>) \<and>
    online_ok p' (\<sigma>(nUid user \<mapsto> f64_of_int (i64 (now env 1 + CacheExpireSec env))))"
proof -
  let ?p = "p\<lparr>olock := free\<lparr>writer := True\<rparr>\<rparr>"
  have c: "cache_ok (user_cache ?p) \<sigma>" "olock p = free" using p by (auto simp: online_ok_def)
  obtain p1 where p1: "set_user ?p env (now env 1) user = Some (p1, None)"
    "nodes p1 = (nodes p)(nUid user \<mapsto> \<lparr>infoNode = user, infoExpireTs = i64 (now env 1 + CacheExpireSec env)\<rparr>)"
    "olock p1 = free\<lparr>writer := True\<rparr>"
    "cache_ok (user_cache p1) (\<sigma>(nUid user \<mapsto> f64_of_int (i64 (now env 1 + CacheExpireSec env))))"
    using set_user_new [OF c(1) _ d, of user "now env 1"] u room by auto
  have "get_user p (now env 0) (nUid user) = None" using u by (simp add: get_user_def cache_Get_def)
  then show ?thesis using dec p1 c(2) by (auto simp: do_login_def online_locked_def online_ok_def err_text_def)
qed

text \<open>
  A user whose entry has not expired counts as absent: the code tries to store it again, and
  \<open>Set\<close> refuses because the member is known.
\<close>

lemma do_login_live:
  assumes p: "online_ok p \<sigma>" and dec: "decLoginReq dec (Body req) = Inr user" and d: "draws_ok (draws env)"
    and u: "live p (now env 0) (nUid user)"
  shows "\<exists>p'. do_login dec env p req =
      Ret (p', Some (online_resp MS_ONLINE_LOGIN req (OLLoginResp ERR_INNER_SERVER)), None) \<and>
    nodes p' = nodes p \<and> online_ok p' (\<sigma>(nUid user \<mapsto> f64_of_int (i64 (now env 1 + CacheExpireSec env))))"
proof -
  let ?p = "p\<lparr>olock := free\<lparr>writer := True\<rparr>\<rparr>"
  have c: "cache_ok (user_cache ?p) \<sigma>" "olock p = free" using p by (auto simp: online_ok_def)
  obtain v where v: "nodes ?p (nUid user) = Some v" using u by (auto simp: live_def)
  obtain p1 where p1: "set_user ?p env (now env 1) user = Some (p1, Some ERR_INNER_SERVER)"
    "nodes p1 = nodes p" "olock p1 = free\<lparr>writer := True\<rparr>"
    "cache_ok (user_cache p1) (\<sigma>(nUid user \<mapsto> f64_of_int (i64 (now env 1 + CacheExpireSec env))))"
    using set_user_known [OF c(1) v d, of "now env 1"] by auto
  then show ?thesis using dec c(2) get_user_live [OF u]
    by (auto simp: do_login_def online_locked_def online_ok_def err_text_def)
qed

lemma do_login_expired:
  assumes p: "online_ok p \<sigma>" and dec: "decLoginReq dec (Body req) = Inr user"
    and u: "nodes p (nUid user) = Some v" "\<not> now env 0 < infoExpireTs v"
  shows "do_login dec env p req =
    Ret (p, Some (online_resp MS_ONLINE_LOGIN req (OLLoginResp ERR_USER_ALREADY_LOGIN)), None)"
  using dec p get_user_expired [OF u]
  by (auto simp: do_login_def online_locked_def online_ok_def)

subsection \<open>Logout, heartbeat\<close>

lemma do_logout_live:
  assumes p: "online_ok p \<sigma>" and dec: "decLogoutReq dec (Body req) = Inr uid" and u: "live p (now env 0) uid"
  shows "do_logout dec env p req =
    Ret (p, Some (online_resp MS_ONLINE_LOGOUT req (OLLoginResp ERR_USER_NOT_EXISTS)), None)"
  using dec p get_user_live [OF u] by (auto simp: do_logout_def online_locked_def online_ok_def)

lemma do_logout_expired:
  assumes p: "online_ok p \<sigma>" and dec: "decLogoutReq dec (Body req) = Inr uid"
    and u: "nodes p uid = Some v" "\<not> now env 0 < infoExpireTs v"
  shows "\<exists>p'. do_logout dec env p req = Ret (p', Some (online_resp MS_ONLINE_LOGOUT req (OLLoginResp '''')), None) \<and>
    nodes p' = (nodes p)(uid := None) \<and> online_ok p' (\<sigma>(uid := None))"
proof -
  let ?p = "p\<lparr>olock := free\<lparr>writer := True\<rparr>\<rparr>"
  have c: "cache_ok (user_cache ?p) \<sigma>" "olock p = free" using p by (auto simp: online_ok_def)
  obtain p1 where "del_user ?p uid = Some (p1, True)" "nodes p1 = (nodes p)(uid := None)"
    "olock p1 = free\<lparr>writer := True\<rparr>" "cache_ok (user_cache p1) (\<sigma>(uid := None))"
    using del_user_ok [OF c(1), of uid] u(1) by auto
  then show ?thesis using dec c(2) get_user_expired [OF u]
    by (auto simp: do_logout_def online_locked_def online_ok_def)
qed

lemma do_heartbeat_known:
  assumes p: "online_ok p \<sigma>" and dec: "decHeartbeatReq dec (Body req) = Inr user" and d: "draws_ok (draws env)"
    and u: "nodes p (nUid user) = Some v"
  shows "\<exists>p'. do_heartbeat dec env p req =
      Ret (p', Some (online_resp MS_ONLINE_HEARTBEAT req (OLHeartbeatResp ERR_INNER_SERVER)), None) \<and>
    nodes p' = nodes p \<and> online_ok p' (\<sigma>(nUid user \<mapsto> f64_of_int (i64 (now env 0 + CacheExpireSec env))))"
proof -
  let ?p = "p\<lparr>olock := free\<lparr>writer := True\<rparr>\<rparr>"
  have c: "cache_ok (user_cache ?p) \<sigma>" "olock p = free" using p by (auto simp: online_ok_def)
  have "nodes ?p (nUid user) = Some v" using u by simp
  from set_user_known [OF c(1) this d, of "now env 0"] obtain p1 where
    "set_user ?p env (now env 0) user = Some (p1, Some ERR_INNER_SERVER)"
    "nodes p1 = nodes p" "olock p1 = free\<lparr>writer := True\<rparr>"
    "cache_ok (user_cache p1) (\<sigma>(nUid user \<mapsto> f64_of_int (i64 (now env 0 + CacheExpireSec env))))" by auto
  then show ?thesis using dec c(2)
    by (auto simp: do_heartbeat_def online_locked_def online_ok_def err_text_def)
qed

subsection \<open>Lookups\<close>

lemma lookups_crash:
  assumes "online_ok p \<sigma>"
  shows "decGetUserNodeReq dec (Body req) = Inr uid \<Longrightarrow> do_get_user_node dec env p req = Crash"
    and "decGetUserNodeBatchReq dec (Body req) = Inr uids \<Longrightarrow> do_get_user_node_batch dec env p req = Crash"
  using assms by (auto simp: do_get_user_node_def do_get_user_node_batch_def online_ok_def Let_def)

subsection \<open>Every message\<close>

text \<open>\<open>answers p res\<close>: the request was answered in a good state, with a cache of the same size.\<close>

definition answers :: "OnlineHandle \<Rightarrow> (OnlineHandle \<times> 'r) outcome \<Rightarrow> bool" where
  "answers p res \<longleftrightarrow> (\<exists>p' r \<sigma>'. res = Ret (p', r) \<and> online_ok p' \<sigma>' \<and> max_size (user_cache p') = max_size (user_cache p))"

lemma answers_same: "online_ok p \<sigma> \<Longrightarrow> answers p (Ret (p, r))"
  by (auto simp: answers_def)

lemma answers_map: "answers p res \<Longrightarrow> answers p (obind res (\<lambda>(p, r). Ret (p, f r)))"
  by (auto simp: answers_def)

lemma online_locked_keeps:
  assumes p: "online_ok p \<sigma>"
    and body: "\<And>q. cache_ok (user_cache q) \<sigma> \<Longrightarrow> max_size (user_cache q) = max_size (user_cache p) \<Longrightarrow>
      \<exists>q' r \<sigma>'. body q = Some (q', r) \<and> olock q' = olock q \<and> max_size (user_cache q') = max_size (user_cache q) \<and>
        cache_ok (user_cache q') \<sigma>'"
  shows "answers p (online_locked p body)"
proof -
  let ?p = "p\<lparr>olock := free\<lparr>writer := True\<rparr>\<rparr>"
  have c: "cache_ok (user_cache ?p) \<sigma>" "olock p = free" using p by (auto simp: online_ok_def)
  obtain q' r \<sigma>' where "body ?p = Some (q', r)" "olock q' = free\<lparr>writer := True\<rparr>"
    "max_size (user_cache q') = max_size (user_cache p)" "cache_ok (user_cache q') \<sigma>'"
    using body [OF c(1)] by auto
  then show ?thesis using c(2) unfolding answers_def
    by (intro exI [of _ "q'\<lparr>olock := free\<rparr>"] exI [of _ r] exI [of _ \<sigma>']) (simp add: online_locked_def online_ok_def)
qed

lemma do_login_answers:
  assumes p: "online_ok p \<sigma>" and d: "draws_ok (draws env)"
  shows "answers p (do_login dec env p req)"
proof (cases "decLoginReq dec (Body req)")
  case (Inr user)
  have "answers p (online_locked p (\<lambda>p. case get_user p (now env 0) (nUid user) of
        None \<Rightarrow> do { (p1, err) \<leftarrow> set_user p env (now env 1) user; Some (p1, err_text err) }
      | Some _ \<Rightarrow> Some (p, ERR_USER_ALREADY_LOGIN)))"
  proof (rule online_locked_keeps [OF p], goal_cases)
    case (1 q)
    then show ?case using set_user_keeps [OF 1(1) d, of "now env 1" user]
      by (cases "get_user q (now env 0) (nUid user)") auto
  qed
  from answers_map [OF this] show ?thesis using Inr by (simp add: do_login_def)
qed (use answers_same [OF p] in \<open>simp add: do_login_def\<close>)

lemma do_logout_answers:
  assumes p: "online_ok p \<sigma>"
  shows "answers p (do_logout dec env p req)"
proof (cases "decLogoutReq dec (Body req)")
  case (Inr uid)
  have "answers p (online_locked p (\<lambda>p. case get_user p (now env 0) uid of
        Some _ \<Rightarrow> do { (p1, _) \<leftarrow> del_user p uid; Some (p1, '''') }
      | None \<Rightarrow> Some (p, ERR_USER_NOT_EXISTS)))"
  proof (rule online_locked_keeps [OF p], goal_cases)
    case (1 q)
    then show ?case using del_user_ok [OF 1(1), of uid]
      by (cases "get_user q (now env 0) uid") auto
  qed
  from answers_map [OF this] show ?thesis using Inr by (simp add: do_logout_def)
qed (use answers_same [OF p] in \<open>simp add: do_logout_def\<close>)

lemma do_heartbeat_answers:
  assumes p: "online_ok p \<sigma>" and d: "draws_ok (draws env)"
  shows "answers p (do_heartbeat dec env p req)"
proof (cases "decHeartbeatReq dec (Body req)")
  case (Inr user)
  have "answers p (online_locked p (\<lambda>p.
      do { (p1, err) \<leftarrow> set_user p env (now env 0) user; Some (p1, err_text err) }))"
  proof (rule online_locked_keeps [OF p], goal_cases)
    case (1 q)
    then show ?case using set_user_keeps [OF 1(1) d, of "now env 0" user] by auto
  qed
  from answers_map [OF this] show ?thesis using Inr by (simp add: do_heartbeat_def)
qed (use answers_same [OF p] in \<open>simp add: do_heartbeat_def\<close>)

lemma lookups_answer:
  assumes p: "online_ok p \<sigma>"
  shows "do_get_user_node dec env p req = Crash \<or> answers p (do_get_user_node dec env p req)"
    and "do_get_user_node_batch dec env p req = Crash \<or> answers p (do_get_user_node_batch dec env p req)"
proof -
  show "do_get_user_node dec env p req = Crash \<or> answers p (do_get_user_node dec env p req)"
    using lookups_crash(1) [OF p, of dec req] answers_same [OF p]
    by (cases "decGetUserNodeReq dec (Body req)") (auto simp: do_get_user_node_def)
  show "do_get_user_node_batch dec env p req = Crash \<or> answers p (do_get_user_node_batch dec env p req)"
    using lookups_crash(2) [OF p, of dec req] answers_same [OF p]
    by (cases "decGetUserNodeBatchReq dec (Body req)") (auto simp: do_get_user_node_batch_def)
qed

lemma online_OnMessage_answers:
  assumes "online_ok p \<sigma>" "draws_ok (draws env)"
  shows "online_OnMessage dec env p req = Crash \<or> answers p (online_OnMessage dec env p req)"
  using do_login_answers [OF assms, of dec req] do_logout_answers [OF assms(1), of dec env req]
    do_heartbeat_answers [OF assms, of dec req] lookups_answer [OF assms(1), of dec env req]
  by (simp add: online_OnMessage_def Let_def answers_same [OF assms(1)])

lemma online_OnMessage_keeps:
  assumes "online_ok p \<sigma>" "draws_ok (draws env)"
  shows "online_OnMessage dec env p req \<noteq> Blocked"
    and "online_OnMessage dec env p req = Ret (p', resp, err) \<Longrightarrow>
      \<exists>\<sigma>'. online_ok p' \<sigma>' \<and> max_size (user_cache p') = max_size (user_cache p)"
  using online_OnMessage_answers [OF assms, of dec req] by (auto simp: answers_def)

section \<open>Properties\<close>

text \<open>A handle with one user stored at 100 for 60 seconds, for the witnesses.\<close>

definition demo_user :: UserNode where
  "demo_user = \<lparr>nUid = ''u1'', nServiceId = ''gw_1'', nHost = ''10.0.0.1'', nPort = 9000\<rparr>"

definition demo_env :: online_env where
  "demo_env = \<lparr>now = (\<lambda>_. 100), CacheExpireSec = 60, draws = [65535]\<rparr>"

definition demo_dec :: "UserNode decoders" where
  "demo_dec = \<lparr>decLoginReq = Inr, decLogoutReq = (\<lambda>u. Inr (nUid u)), decHeartbeatReq = Inr,
     decGetUserNodeReq = (\<lambda>u. Inr (nUid u)), decGetUserNodeBatchReq = (\<lambda>u. Inr [nUid u])\<rparr>"

definition demo_req :: "string \<Rightarrow> UserNode MServicePacket" where
  "demo_req method = CreateReqPacket ''t1'' SERVICE_NAME method MS_CALL demo_user"

lemma demo_env_draws: "draws_ok (draws demo_env)"
  by (simp add: demo_env_def draws_ok_def low_draw_def)

lemma demo_stored: "\<exists>p \<sigma>. online_ok p \<sigma> \<and> live p 100 ''u1'' \<and> nodes p ''u1'' \<noteq> None"
proof -
  have "decLoginReq demo_dec (Body (demo_req MS_ONLINE_LOGIN)) = Inr demo_user"
    by (simp add: demo_dec_def demo_req_def CreateReqPacket_def)
  from do_login_new [OF online_ok_init [of 5] this demo_env_draws]
  obtain p where "online_ok p [''u1'' \<mapsto> f64_of_int (i64 160)]"
    "nodes p = [''u1'' \<mapsto> \<lparr>infoNode = demo_user, infoExpireTs = i64 160\<rparr>]"
    by (auto simp: online_Init_def NewUserNodeCache_def demo_env_def demo_user_def)
  then have "online_ok p [''u1'' \<mapsto> f64_of_int (i64 160)] \<and> live p 100 ''u1'' \<and> nodes p ''u1'' \<noteq> None"
    by (simp add: live_def i64_id is_i64_def)
  then show ?thesis by blast
qed



text \<open>A login of a user the online server does not hold, with room in the cache, is answered without
  an error and stores the user's node until the configured time.\<close>

theorem login_stores_user:
  assumes "online_ok p \<sigma>" "Method (Header req) = MS_ONLINE_LOGIN" "decLoginReq dec (Body req) = Inr user"
    "draws_ok (draws env)" "nodes p (nUid user) = None" "int (card (dom (nodes p))) < max_size (user_cache p)"
  shows "\<exists>p' \<sigma>'. online_OnMessage dec env p req =
      Ret (p', Some (online_resp MS_ONLINE_LOGIN req (OLLoginResp '''')), None) \<and> online_ok p' \<sigma>' \<and>
    nodes p' = (nodes p)(nUid user \<mapsto> \<lparr>infoNode = user, infoExpireTs = i64 (now env 1 + CacheExpireSec env)\<rparr>)"
  using do_login_new [OF assms(1,3-6)] assms(2) by (auto simp: online_OnMessage_def)

lemma login_stores_user_witness:
  "\<exists>p'. online_OnMessage demo_dec demo_env (online_Init 5) (demo_req MS_ONLINE_LOGIN) =
      Ret (p', Some (online_resp MS_ONLINE_LOGIN (demo_req MS_ONLINE_LOGIN) (OLLoginResp '''')), None) \<and>
    nodes p' ''u1'' \<noteq> None"
proof -
  have "Method (Header (demo_req MS_ONLINE_LOGIN)) = MS_ONLINE_LOGIN"
    "decLoginReq demo_dec (Body (demo_req MS_ONLINE_LOGIN)) = Inr demo_user"
    by (simp_all add: demo_dec_def demo_req_def CreateReqPacket_def)
  from login_stores_user [OF online_ok_init [of 5] this demo_env_draws]
  show ?thesis by (auto simp: online_Init_def NewUserNodeCache_def demo_user_def)
qed



text \<open>The two lookups end the process: they take the read lock and release the write lock, which the
  runtime answers with a fatal error, for every request that decodes and every user.\<close>

theorem lookups_are_fatal:
  assumes "online_ok p \<sigma>"
  shows "(Method (Header req) = MS_ONLINE_GET_USER_NODE \<and> decGetUserNodeReq dec (Body req) = Inr uid \<longrightarrow>
      online_OnMessage dec env p req = Crash) \<and>
    (Method (Header req) = MS_ONLINE_GET_USER_NODE_BATCH \<and> decGetUserNodeBatchReq dec (Body req) = Inr uids \<longrightarrow>
      online_OnMessage dec env p req = Crash)"
  using lookups_crash [OF assms, of dec req] by (auto simp: online_OnMessage_def online_names)

lemma lookups_are_fatal_witness:
  "online_OnMessage demo_dec demo_env (online_Init 5) (demo_req MS_ONLINE_GET_USER_NODE) = Crash"
  using lookups_are_fatal [OF online_ok_init [of 5], of "demo_req MS_ONLINE_GET_USER_NODE" demo_dec "''u1''" demo_env "[]"]
  by (simp add: demo_req_def CreateReqPacket_def demo_dec_def demo_user_def)



end
