(* ===== verification/Wire.thy ===== *)
theory Wire
  imports Sync "HOL-Library.Word"
begin

text \<open>
  The framing of packets on a connection: \<^verbatim>\<open>src/mservice/define/packet.go\<close>, lines 55-132, and
  \<^verbatim>\<open>NetRecvTimeout\<close> of \<^verbatim>\<open>src/util/net_util.go\<close>. What a \<^verbatim>\<open>net.Conn\<close> will deliver is a list of segments: a
  \<^verbatim>\<open>Read\<close> hands over the next segment, or as much of it as the buffer holds, and fails when none is
  left (the peer closed, or a deadline passed, for which see \<open>Deadline\<close>); how the bytes are cut into segments is up
  to the network. \<^verbatim>\<open>json.Marshal\<close> and \<^verbatim>\<open>json.Unmarshal\<close> are arguments. The two loops of
  \<^verbatim>\<open>src/net/net_core/channel.go\<close> work with any \<^verbatim>\<open>PacketHandle\<close>: what they need of one is the locale
  \<open>packet_handle\<close>, interpreted for the handles of the services and of the gateway's clients.
\<close>

type_synonym byte = "8 word"

record conn =
  inseg :: "byte list list"
  inerr :: string
  out :: "byte list"
  wplan :: "string option list"

section \<open>Reading\<close>

text \<open>\<open>conn_Read c n\<close>: \<^verbatim>\<open>conn.Read(buf)\<close> with a buffer of \<open>n\<close> bytes.\<close>

definition conn_Read :: "conn \<Rightarrow> nat \<Rightarrow> (string + byte list) \<times> conn" where
  "conn_Read c n =
     (if n = 0 then (Inr [], c)
      else case inseg c of
             [] \<Rightarrow> (Inl (inerr c), c)
           | s # r \<Rightarrow> if length s \<le> n then (Inr s, c\<lparr>inseg := r\<rparr>)
                      else (Inr (take n s), c\<lparr>inseg := drop n s # r\<rparr>))"

text \<open>
  \<open>io_ReadFull\<close>: what \<^verbatim>\<open>binary.Read\<close> does for its 4 bytes. It retries an empty read, so the recursion
  is on the segments left.
\<close>

lemma conn_Read_measure:
  "conn_Read c n = (Inr b, c') \<Longrightarrow> 0 < n \<Longrightarrow>
    length b \<le> n \<and> (length (inseg c') < length (inseg c) \<or> (length b = n \<and> length (inseg c') = length (inseg c)))"
  by (auto simp: conn_Read_def split: list.splits if_splits)

function io_ReadFull :: "conn \<Rightarrow> nat \<Rightarrow> byte list \<Rightarrow> (string + byte list) \<times> conn" where
  "io_ReadFull c n acc =
     (if n \<le> length acc then (Inr acc, c)
      else case conn_Read c (n - length acc) of
             (Inl e, c') \<Rightarrow> (Inl (if acc \<noteq> [] \<and> e = ''EOF'' then ''unexpected EOF'' else e), c')
           | (Inr b, c') \<Rightarrow> io_ReadFull c' n (acc @ b))"
  by pat_completeness auto
termination
proof (relation "measures [\<lambda>(c, n, acc). n - length acc, \<lambda>(c, n, acc). length (inseg c)]", goal_cases)
  case 1
  show ?case by simp
next
  case (2 c n acc x c' b)
  then have r: "conn_Read c (n - length acc) = (Inr b, c')" by (metis prod.collapse prod.inject)
  show ?case
  proof (cases "b = []")
    case True
    then show ?thesis using conn_Read_measure [OF r] 2(1) by auto
  next
    case False
    then show ?thesis using 2(1) by (cases b) auto
  qed
qed

declare io_ReadFull.simps [simp del]

text \<open>\<^verbatim>\<open>binary.BigEndian\<close> for a 32-bit integer.\<close>

definition be32 :: "int \<Rightarrow> byte list" where
  "be32 n = map (\<lambda>k. word_of_int (n div 2 ^ k)) [24, 16, 8, 0]"

definition from_be32 :: "byte list \<Rightarrow> int" where
  "from_be32 bs = i32 (uint (bs ! 0) * 2 ^ 24 + uint (bs ! 1) * 2 ^ 16 + uint (bs ! 2) * 2 ^ 8 + uint (bs ! 3))"

text \<open>
  \<open>NetRecvTimeout c len sz\<close> with a buffer of \<open>len\<close> bytes: the number of bytes read with the
  error, the bytes and the connection. The loop ends after a read of 0 bytes, too.
\<close>

function recv_loop :: "conn \<Rightarrow> nat \<Rightarrow> nat \<Rightarrow> byte list \<Rightarrow> string option \<times> byte list \<times> conn" where
  "recv_loop c len sz acc =
     (case conn_Read c (len - length acc) of
        (Inl e, c') \<Rightarrow> (Some e, acc, c')
      | (Inr b, c') \<Rightarrow>
        if b = [] then (None, acc, c')
        else if length (acc @ b) \<ge> sz then (None, acc @ b, c')
        else recv_loop c' len sz (acc @ b))"
  by pat_completeness auto
termination
proof (relation "measure (\<lambda>(c, len, sz, acc). sz - length acc)", goal_cases)
  case 1
  show ?case by simp
next
  case (2 c len sz acc x c' b)
  then show ?case by (cases b) auto
qed

declare recv_loop.simps [simp del]

definition NetRecvTimeout :: "conn \<Rightarrow> nat \<Rightarrow> int \<Rightarrow> int \<times> string option \<times> byte list \<times> conn" where
  "NetRecvTimeout c len sz =
     (if int len < sz then (-1, Some ''NetRecv buf not enough'', [], c)
      else case recv_loop c len (nat sz) [] of (e, bs, c') \<Rightarrow> (int (length bs), e, bs, c'))"

text \<open>
  \<open>CommonRecvPacket\<close>: \<^term>\<open>None\<close> is the panic of \<^verbatim>\<open>make\<close> on a negative size. The buffer keeps zero
  bytes where nothing was read.
\<close>

definition CommonRecvPacket :: "conn \<Rightarrow> ((string + byte list) \<times> conn) option" where
  "CommonRecvPacket c =
     (case io_ReadFull c 4 [] of
        (Inl e, c1) \<Rightarrow> Some (Inl e, c1)
      | (Inr head, c1) \<Rightarrow>
        let body_size = from_be32 head
        in if body_size < 0 then None
           else (case NetRecvTimeout c1 (nat body_size) body_size of
                  (n, Some e, bs, c2) \<Rightarrow> Some (Inl e, c2)
                | (n, None, bs, c2) \<Rightarrow>
                  if n = 0 then Some (Inl ''socket peer close'', c2)
                  else Some (Inr (bs @ replicate (nat body_size - length bs) 0), c2)))"

definition RecvPacket :: "(byte list \<Rightarrow> string + 'p) \<Rightarrow> conn \<Rightarrow> ((string + 'p) \<times> conn) option" where
  "RecvPacket unmarshal c =
     (case CommonRecvPacket c of
        None \<Rightarrow> None
      | Some (Inl e, c1) \<Rightarrow> Some (Inl e, c1)
      | Some (Inr bytes, c1) \<Rightarrow> Some (unmarshal bytes, c1))"

section \<open>Writing\<close>

text \<open>A \<^verbatim>\<open>Write\<close> appends to what the peer will see, or fails as \<open>wplan\<close> says for it.\<close>

definition conn_Write :: "conn \<Rightarrow> byte list \<Rightarrow> string option \<times> conn" where
  "conn_Write c bs =
     (case wplan c of
        Some e # r \<Rightarrow> (Some e, c\<lparr>wplan := r\<rparr>)
      | None # r \<Rightarrow> (None, c\<lparr>out := out c @ bs, wplan := r\<rparr>)
      | [] \<Rightarrow> (None, c\<lparr>out := out c @ bs\<rparr>))"

definition CommonSendPacket :: "('p \<Rightarrow> string + byte list) \<Rightarrow> conn \<Rightarrow> 'p \<Rightarrow> string option \<times> conn" where
  "CommonSendPacket marshal c packet =
     (case marshal packet of
        Inl e \<Rightarrow> (Some e, c)
      | Inr bytes \<Rightarrow>
        (case conn_Write c (be32 (i32 (int (length bytes)))) of
           (Some e, c1) \<Rightarrow> (Some e, c1)
         | (None, c1) \<Rightarrow>
           (case conn_Write c1 bytes of
              (Some e, c2) \<Rightarrow> (Some e, c2)
            | (None, c2) \<Rightarrow> (None, c2))))"

section \<open>Reading is independent of the segmentation\<close>

definition pending :: "conn \<Rightarrow> byte list" where
  "pending c = concat (inseg c)"

definition no_empty :: "conn \<Rightarrow> bool" where
  "no_empty c \<longleftrightarrow> (\<forall>s\<in>set (inseg c). s \<noteq> [])"

lemma conn_Read_ok:
  assumes "no_empty c" "0 < n" "pending c \<noteq> []"
  shows "\<exists>b c'. conn_Read c n = (Inr b, c') \<and> b \<noteq> [] \<and> length b \<le> n \<and> pending c = b @ pending c' \<and> no_empty c' \<and>
    inerr c' = inerr c \<and> out c' = out c"
proof -
  obtain s r where s: "inseg c = s # r" using assms(3) by (cases "inseg c") (auto simp: pending_def)
  then have "s \<noteq> []" using assms(1) by (simp add: no_empty_def)
  then show ?thesis using s assms(1,2)
    by (cases "length s \<le> n") (auto simp: conn_Read_def pending_def no_empty_def)
qed

lemma io_ReadFull_ok:
  assumes "no_empty c" "length acc \<le> n" "n - length acc \<le> length (pending c)"
  shows "\<exists>c'. io_ReadFull c n acc = (Inr (acc @ take (n - length acc) (pending c)), c') \<and>
    pending c' = drop (n - length acc) (pending c) \<and> no_empty c' \<and> inerr c' = inerr c \<and> out c' = out c"
  using assms
proof (induction "n - length acc" arbitrary: c acc rule: less_induct)
  case less
  show ?case
  proof (cases "n \<le> length acc")
    case True
    then show ?thesis using less.prems by (subst io_ReadFull.simps) simp
  next
    case False
    then have "pending c \<noteq> []" "0 < n - length acc" using less.prems by auto
    from conn_Read_ok [OF less.prems(1) this(2,1)] obtain b c1 where
      b: "conn_Read c (n - length acc) = (Inr b, c1)" "b \<noteq> []" "length b \<le> n - length acc"
        "pending c = b @ pending c1" "no_empty c1" "inerr c1 = inerr c" "out c1 = out c" by blast
    have l: "n - length (acc @ b) < n - length acc" "length (acc @ b) \<le> n"
      "n - length (acc @ b) \<le> length (pending c1)"
      using b False less.prems by (auto simp: length_greater_0_conv [symmetric] simp del: length_greater_0_conv)
    obtain c' where c': "io_ReadFull c1 n (acc @ b) = (Inr ((acc @ b) @ take (n - length (acc @ b)) (pending c1)), c')"
      "pending c' = drop (n - length (acc @ b)) (pending c1)" "no_empty c'" "inerr c' = inerr c1" "out c' = out c1"
      using less.hyps [OF l(1) b(5) l(2,3)] by blast
    have "io_ReadFull c n acc = io_ReadFull c1 n (acc @ b)" using b(1) False by (subst io_ReadFull.simps) simp
    then show ?thesis using c' b by auto
  qed
qed

lemma recv_loop_ok:
  assumes "no_empty c" "length acc < sz" "sz - length acc \<le> length (pending c)"
  shows "\<exists>c'. recv_loop c sz sz acc = (None, acc @ take (sz - length acc) (pending c), c') \<and>
    pending c' = drop (sz - length acc) (pending c) \<and> no_empty c' \<and> inerr c' = inerr c \<and> out c' = out c"
  using assms
proof (induction "sz - length acc" arbitrary: c acc rule: less_induct)
  case less
  then have "pending c \<noteq> []" "0 < sz - length acc" by auto
  from conn_Read_ok [OF less.prems(1) this(2,1)] obtain b c1 where
    b: "conn_Read c (sz - length acc) = (Inr b, c1)" "b \<noteq> []" "length b \<le> sz - length acc"
      "pending c = b @ pending c1" "no_empty c1" "inerr c1 = inerr c" "out c1 = out c" by blast
  show ?case
  proof (cases "sz \<le> length (acc @ b)")
    case True
    then have "length b = sz - length acc" using b(3) by simp
    then show ?thesis using b True by (subst recv_loop.simps) simp
  next
    case False
    then have l: "sz - length (acc @ b) < sz - length acc" "length (acc @ b) < sz"
      "sz - length (acc @ b) \<le> length (pending c1)"
      using b less.prems by (auto simp: length_greater_0_conv [symmetric] simp del: length_greater_0_conv)
    obtain c' where c': "recv_loop c1 sz sz (acc @ b) = (None, (acc @ b) @ take (sz - length (acc @ b)) (pending c1), c')"
      "pending c' = drop (sz - length (acc @ b)) (pending c1)" "no_empty c'" "inerr c' = inerr c1" "out c' = out c1"
      using less.hyps [OF l(1) b(5) l(2,3)] by blast
    have "recv_loop c sz sz acc = recv_loop c1 sz sz (acc @ b)"
      using b(1,2) False by (subst recv_loop.simps) simp
    then show ?thesis using c' b by auto
  qed
qed

lemma be32_length [simp]: "length (be32 n) = 4"
  by (simp add: be32_def)

lemma base256: "n = a * 256 + r0 \<Longrightarrow> a = b * 256 + r1 \<Longrightarrow> b = c * 256 + r2 \<Longrightarrow>
    c * 2 ^ 24 + r2 * 2 ^ 16 + r1 * 2 ^ 8 + r0 = (n :: int)"
  by simp

lemma from_be32_i32:
  assumes "0 \<le> n" "n < 2 ^ 32"
  shows "from_be32 (be32 n) = i32 n"
proof -
  have u: "uint (word_of_int k :: byte) = k mod 256" for k by (simp add: uint_word_of_int)
  have e: "n div 2 ^ 24 mod 256 * 2 ^ 24 + n div 2 ^ 16 mod 256 * 2 ^ 16 + n div 2 ^ 8 mod 256 * 2 ^ 8 + n mod 256 = n"
  proof -
    let ?a = "n div 256" let ?b = "?a div 256" let ?c = "?b div 256"
    have d: "n div 2 ^ 8 = ?a" "n div 2 ^ 16 = ?b" "n div 2 ^ 24 = ?c"
      by (simp_all add: zdiv_zmult2_eq [symmetric])
    have "?c < 256" "0 \<le> ?c" using assms by (simp_all add: zdiv_zmult2_eq [symmetric])
    then have "?c mod 256 = ?c" by simp
    moreover have "?c * 2 ^ 24 + ?b mod 256 * 2 ^ 16 + ?a mod 256 * 2 ^ 8 + n mod 256 = n"
      by (rule base256) (rule div_mult_mod_eq [symmetric])+
    ultimately show ?thesis unfolding d by (simp only:)
  qed
  have "from_be32 (be32 n) = i32 (n div 2 ^ 24 mod 256 * 2 ^ 24 + n div 2 ^ 16 mod 256 * 2 ^ 16 +
      n div 2 ^ 8 mod 256 * 2 ^ 8 + n mod 256)" by (simp add: from_be32_def be32_def u)
  then show ?thesis unfolding e .
qed

lemma from_be32_be32: "0 \<le> n \<Longrightarrow> n < 2 ^ 31 \<Longrightarrow> from_be32 (be32 n) = n"
  using from_be32_i32 [of n] by (simp add: i32_id)

lemma from_be32_negative: "2 ^ 31 \<le> n \<Longrightarrow> n < 2 ^ 32 \<Longrightarrow> from_be32 (be32 n) < 0"
proof -
  assume n: "2 ^ 31 \<le> n" "n < 2 ^ 32"
  have "(n + 2 ^ 31) mod 2 ^ 32 = (n - 2 ^ 31 + 2 ^ 32) mod 2 ^ 32" by (simp add: add.commute)
  also have "\<dots> = (n - 2 ^ 31) mod 2 ^ 32" by (rule mod_add_self2)
  also have "\<dots> = n - 2 ^ 31" using n by (intro mod_pos_pos_trivial) simp_all
  finally have "i32 n = n - 2 ^ 32" by (simp add: i32_def signed_take_bit_eq_take_bit_shift take_bit_eq_mod)
  then show ?thesis using from_be32_i32 [of n] n by simp
qed

text \<open>One frame off the wire, whatever the segmentation.\<close>

lemma CommonRecvPacket_frame:
  assumes "no_empty c" and "pending c = be32 (int (length body)) @ body @ rest"
    and "0 < length body" "length body < 2 ^ 31"
  shows "\<exists>c'. CommonRecvPacket c = Some (Inr body, c') \<and> pending c' = rest \<and> no_empty c' \<and> inerr c' = inerr c"
proof -
  obtain c1 where h: "io_ReadFull c 4 [] = (Inr (be32 (int (length body))), c1)" "pending c1 = body @ rest" "no_empty c1"
    "inerr c1 = inerr c"
    using io_ReadFull_ok [OF assms(1), of "[]" 4] assms(2) by auto
  obtain c2 where b: "recv_loop c1 (length body) (length body) [] = (None, body, c2)" "pending c2 = rest" "no_empty c2"
    "inerr c2 = inerr c1"
    using recv_loop_ok [OF h(3), of "[]" "length body"] h(2) assms(3) by auto
  have "from_be32 (be32 (int (length body))) = int (length body)" using assms(4) by (simp add: from_be32_be32)
  then show ?thesis using h(1,4) b assms(3) by (simp add: CommonRecvPacket_def NetRecvTimeout_def)
qed

text \<open>Sending writes exactly one frame when the two writes succeed.\<close>

lemma CommonSendPacket_frame:
  assumes "marshal p = Inr body" "length body < 2 ^ 31" "wplan c = []"
  shows "CommonSendPacket marshal c p = (None, c\<lparr>out := out c @ be32 (int (length body)) @ body\<rparr>)"
  using assms by (simp add: CommonSendPacket_def conn_Write_def i32_id)

section \<open>The loops of a channel\<close>

text \<open>
  \<^verbatim>\<open>Channel.RecvLoop\<close>: it hands every packet to \<^verbatim>\<open>OnMessage\<close> (a function on the state \<open>'s\<close> of the server)
  until reading or handling fails. A read that panics ends the process.
\<close>

partial_function (option) RecvLoop ::
  "(conn \<Rightarrow> ((string + 'p) \<times> conn) option) \<Rightarrow> ('p \<Rightarrow> 's \<Rightarrow> ('s \<times> string option) outcome) \<Rightarrow> conn \<Rightarrow> 's \<Rightarrow>
   ('s \<times> string) outcome option" where
  "RecvLoop recv OnMessage c s =
     (case recv c of
        None \<Rightarrow> Some Crash
      | Some (Inl e, c1) \<Rightarrow> Some (Ret (s, e))
      | Some (Inr packet, c1) \<Rightarrow>
        (case OnMessage packet s of
           Blocked \<Rightarrow> Some Blocked
         | Crash \<Rightarrow> Some Crash
         | Ret (s1, err) \<Rightarrow> (case err of Some e \<Rightarrow> Some (Ret (s1, e)) | None \<Rightarrow> RecvLoop recv OnMessage c1 s1)))"

text \<open>\<^verbatim>\<open>Channel.SendLoop\<close> on the packets taken from the queue, until sending one fails.\<close>

fun SendLoop :: "(conn \<Rightarrow> 'p \<Rightarrow> string option \<times> conn) \<Rightarrow> conn \<Rightarrow> 'p list \<Rightarrow> conn" where
  "SendLoop send c [] = c"
| "SendLoop send c (p # ps) =
     (case send c p of
        (Some e, c1) \<Rightarrow> c1
      | (None, c1) \<Rightarrow> SendLoop send c1 ps)"

text \<open>What the receive loop should do: handle the packets one by one, then end with the error \<open>e\<close>.\<close>

fun handle_all :: "('p \<Rightarrow> 's \<Rightarrow> ('s \<times> string option) outcome) \<Rightarrow> 'p list \<Rightarrow> 's \<Rightarrow> string \<Rightarrow> ('s \<times> string) outcome" where
  "handle_all OnMessage [] s e = Ret (s, e)"
| "handle_all OnMessage (p # ps) s e =
     obind (OnMessage p s) (\<lambda>(s1, err). case err of Some x \<Rightarrow> Ret (s1, x) | None \<Rightarrow> handle_all OnMessage ps s1 e)"

text \<open>
  The interface \<^verbatim>\<open>net_core.PacketHandle\<close>: sending a good packet appends its code, receiving takes
  the code of a good packet off the connection, however it is cut, and fails at the end. A packet
  need not arrive as the value it was (a struct in its body arrives as what JSON makes of it):
  \<open>received p\<close> is what arrives.
\<close>

locale packet_handle =
  fixes send :: "conn \<Rightarrow> 'p \<Rightarrow> string option \<times> conn"
    and recv :: "conn \<Rightarrow> ((string + 'p) \<times> conn) option"
    and code :: "'p \<Rightarrow> byte list"
    and received :: "'p \<Rightarrow> 'p"
    and good :: "'p \<Rightarrow> bool"
  assumes send_good: "good p \<Longrightarrow> wplan c = [] \<Longrightarrow> send c p = (None, c\<lparr>out := out c @ code p\<rparr>)"
    and recv_good: "good p \<Longrightarrow> no_empty c \<Longrightarrow> pending c = code p @ rest \<Longrightarrow>
      \<exists>c'. recv c = Some (Inr (received p), c') \<and> pending c' = rest \<and> no_empty c' \<and> inerr c' = inerr c"
    and recv_end: "no_empty c \<Longrightarrow> pending c = [] \<Longrightarrow> recv c = Some (Inl (inerr c), c)"
begin

lemma SendLoop_writes: "list_all good ps \<Longrightarrow> wplan c = [] \<Longrightarrow> SendLoop send c ps = c\<lparr>out := out c @ concat (map code ps)\<rparr>"
  by (induction ps arbitrary: c) (simp_all add: send_good)

lemma RecvLoop_handles:
  assumes "list_all good ps" "no_empty c" "pending c = concat (map code ps)"
  shows "RecvLoop recv OnMessage c s = Some (handle_all OnMessage (map received ps) s (inerr c))"
  using assms
proof (induction ps arbitrary: c s)
  case Nil
  then show ?case by (subst RecvLoop.simps) (simp add: recv_end)
next
  case (Cons p ps)
  then obtain c' where c': "recv c = Some (Inr (received p), c')" "pending c' = concat (map code ps)" "no_empty c'" "inerr c' = inerr c"
    using recv_good [of p c "concat (map code ps)"] by auto
  have "RecvLoop recv OnMessage c' s1 = Some (handle_all OnMessage (map received ps) s1 (inerr c))" for s1
    using Cons.IH [OF _ c'(3,2)] Cons.prems(1) c'(4) by simp
  then show ?case using c'(1)
    by (subst RecvLoop.simps) (auto split: outcome.splits option.splits)
qed

lemma loops_round_trip:
  assumes "list_all good ps" "wplan a = []" "out a = []" "out (SendLoop send a ps) = pending b" "no_empty b"
  shows "RecvLoop recv OnMessage b s = Some (handle_all OnMessage (map received ps) s (inerr b))"
  using assms by (intro RecvLoop_handles) (simp_all add: SendLoop_writes)

end

section \<open>The handles\<close>

text \<open>
  \<^verbatim>\<open>MPacketHandle.SendPacket\<close> of the services and \<^verbatim>\<open>GWPacketHandle\<close>, which the gateway uses for its
  clients: the same framing, of another type of packets.
\<close>

definition SendPacket :: "('p \<Rightarrow> string + byte list) \<Rightarrow> conn \<Rightarrow> 'p \<Rightarrow> string option \<times> conn" where
  "SendPacket marshal c packet = CommonSendPacket marshal c packet"

definition gw_SendPacket :: "('p \<Rightarrow> string + byte list) \<Rightarrow> conn \<Rightarrow> 'p \<Rightarrow> string option \<times> conn" where
  "gw_SendPacket marshal c packet = CommonSendPacket marshal c packet"

definition gw_RecvPacket :: "(byte list \<Rightarrow> string + 'p) \<Rightarrow> conn \<Rightarrow> ((string + 'p) \<times> conn) option" where
  "gw_RecvPacket unmarshal c =
     (case CommonRecvPacket c of
        None \<Rightarrow> None
      | Some (Inl e, c1) \<Rightarrow> Some (Inl e, c1)
      | Some (Inr bytes, c1) \<Rightarrow> Some (unmarshal bytes, c1))"

text \<open>
  A packet that can be sent: it encodes to between 1 and \<^verbatim>\<open>2^31 - 1\<close> bytes, which decode, to \<open>received p\<close>.
\<close>

definition frame :: "byte list \<Rightarrow> byte list" where
  "frame body = be32 (int (length body)) @ body"

definition frameable :: "byte list \<Rightarrow> bool" where
  "frameable body \<longleftrightarrow> 0 < length body \<and> length body < 2 ^ 31"

definition encodes :: "('p \<Rightarrow> string + byte list) \<Rightarrow> (byte list \<Rightarrow> string + 'p) \<Rightarrow> 'p \<Rightarrow> bool" where
  "encodes marshal unmarshal p \<longleftrightarrow>
     (case marshal p of Inl e \<Rightarrow> False | Inr body \<Rightarrow> frameable body \<and> \<not> isl (unmarshal body))"

definition packet_code :: "('p \<Rightarrow> string + byte list) \<Rightarrow> 'p \<Rightarrow> byte list" where
  "packet_code marshal p = frame (projr (marshal p))"

definition received :: "('p \<Rightarrow> string + byte list) \<Rightarrow> (byte list \<Rightarrow> string + 'p) \<Rightarrow> 'p \<Rightarrow> 'p" where
  "received marshal unmarshal p = projr (unmarshal (projr (marshal p)))"

lemma encodesE:
  assumes "encodes marshal unmarshal p"
  obtains body where "marshal p = Inr body" "frameable body" "unmarshal body = Inr (received marshal unmarshal p)"
    "packet_code marshal p = frame body"
  using assms by (cases "marshal p") (auto simp: encodes_def packet_code_def received_def)

lemma CommonSendPacket_code:
  "encodes marshal unmarshal p \<Longrightarrow> wplan c = [] \<Longrightarrow>
    CommonSendPacket marshal c p = (None, c\<lparr>out := out c @ packet_code marshal p\<rparr>)"
  by (erule encodesE) (simp add: CommonSendPacket_frame frame_def frameable_def)

lemma CommonRecvPacket_code:
  assumes "encodes marshal unmarshal p" "no_empty c" "pending c = packet_code marshal p @ rest"
  shows "\<exists>body c'. CommonRecvPacket c = Some (Inr body, c') \<and> unmarshal body = Inr (received marshal unmarshal p) \<and>
    pending c' = rest \<and> no_empty c' \<and> inerr c' = inerr c"
proof -
  obtain body where b: "marshal p = Inr body" "frameable body" "unmarshal body = Inr (received marshal unmarshal p)"
    "packet_code marshal p = frame body"
    using assms(1) by (rule encodesE)
  then show ?thesis using CommonRecvPacket_frame [of c body rest] assms(2,3) by (auto simp: frame_def frameable_def)
qed

lemma CommonRecvPacket_end: "no_empty c \<Longrightarrow> pending c = [] \<Longrightarrow> CommonRecvPacket c = Some (Inl (inerr c), c)"
proof -
  assume "no_empty c" "pending c = []"
  then have "inseg c = []" by (cases "inseg c") (auto simp: pending_def no_empty_def)
  then show ?thesis by (simp add: CommonRecvPacket_def io_ReadFull.simps conn_Read_def)
qed

lemmas packet_handle_rules = CommonSendPacket_code CommonRecvPacket_code CommonRecvPacket_end

interpretation ms: packet_handle "SendPacket marshal" "RecvPacket unmarshal" "packet_code marshal" "received marshal unmarshal"
  "encodes marshal unmarshal" for marshal unmarshal
  by unfold_locales
    (auto simp: SendPacket_def RecvPacket_def packet_handle_rules dest: CommonRecvPacket_code)

interpretation gw: packet_handle "gw_SendPacket marshal" "gw_RecvPacket unmarshal" "packet_code marshal" "received marshal unmarshal"
  "encodes marshal unmarshal" for marshal unmarshal
  by unfold_locales
    (auto simp: gw_SendPacket_def gw_RecvPacket_def packet_handle_rules dest: CommonRecvPacket_code)

section \<open>Properties\<close>

text \<open>C19: Packets sent one after the other arrive complete and in order: however the network cuts the
  bytes into reads, the peer's receive loop does what handling the decoded packets directly, one by
  one, would do, and then ends with the connection's end. It holds between services and between the
  gateway and its clients, for packets that encode to between 1 and \<^verbatim>\<open>2^31 - 1\<close> bytes.\<close>

theorem stream_round_trip:
  assumes "list_all (encodes marshal unmarshal) ps" "wplan a = []" "out a = []" "no_empty b"
  shows "(out (SendLoop (SendPacket marshal) a ps) = pending b \<longrightarrow>
      RecvLoop (RecvPacket unmarshal) OnMessage b s =
        Some (handle_all OnMessage (map (received marshal unmarshal) ps) s (inerr b))) \<and>
    (out (SendLoop (gw_SendPacket marshal) a ps) = pending b \<longrightarrow>
      RecvLoop (gw_RecvPacket unmarshal) OnMessage b s =
        Some (handle_all OnMessage (map (received marshal unmarshal) ps) s (inerr b)))"
  by (intro conjI impI; rule ms.loops_round_trip [OF assms(1-3) _ assms(4)] gw.loops_round_trip [OF assms(1-3) _ assms(4)])

definition demo_conn :: conn where
  "demo_conn = \<lparr>inseg = [[0, 0], [0, 2, 104], [105, 0, 0, 0, 1, 7]], inerr = ''EOF'', out = [], wplan = []\<rparr>"

theorem stream_round_trip_witness:
  "RecvLoop (RecvPacket Inr) (\<lambda>p s. Ret (s @ [p], None)) demo_conn [] = Some (Ret ([[104, 105], [7]], ''EOF''))"
proof -
  let ?a = "\<lparr>inseg = [], inerr = ''EOF'', out = [], wplan = []\<rparr>" and ?ps = "[[104, 105], [7]] :: byte list list"
  have e: "list_all (encodes Inr Inr) ?ps" by (simp add: encodes_def frameable_def)
  then have "out (SendLoop (SendPacket Inr) ?a ?ps) = concat (map (packet_code Inr) ?ps)"
    by (subst ms.SendLoop_writes) simp_all
  then have "out (SendLoop (SendPacket Inr) ?a ?ps) = pending demo_conn"
    by (simp add: packet_code_def frame_def be32_def pending_def demo_conn_def)
  moreover have "no_empty demo_conn" by (simp add: no_empty_def demo_conn_def)
  ultimately show ?thesis
    using stream_round_trip [OF e, of ?a demo_conn "\<lambda>p s. Ret (s @ [p], None)" "[]"]
    by (simp add: demo_conn_def received_def)
qed

text \<open>A frame announcing a negative size makes the receiver panic: the size is used as the length of
  the buffer without a check.\<close>

theorem negative_size_panics:
  assumes "no_empty c" "pending c = be32 n @ rest" "2 ^ 31 \<le> n" "n < 2 ^ 32"
  shows "CommonRecvPacket c = None"
proof -
  obtain c1 where h: "io_ReadFull c 4 [] = (Inr (be32 n), c1)"
    using io_ReadFull_ok [OF assms(1), of "[]" 4] assms(2) by auto
  have "from_be32 (be32 n) < 0" using assms(3,4) by (rule from_be32_negative)
  then show ?thesis using h by (simp add: CommonRecvPacket_def)
qed

lemma negative_size_panics_witness:
  "CommonRecvPacket \<lparr>inseg = [[255, 255], [255, 255]], inerr = ''EOF'', out = [], wplan = []\<rparr> = None"
  by (rule negative_size_panics [of _ "2 ^ 32 - 1" "[]"]) (simp_all add: no_empty_def pending_def be32_def)

end
