(* ===== verification/MergeSearch.thy ===== *)
theory MergeSearch
  imports Prelude
begin

text \<open>
  \<^verbatim>\<open>src/util/merge_search.go\<close>: concurrent calls with the same key share one run of the function. The
  goroutines are numbered; each is in a \<open>phase\<close> of \<^verbatim>\<open>Call\<close>, and a step runs one of the sections the
  mutex makes atomic, the function itself, or one exchange on an unbuffered channel. A waiter's
  channel is known by the waiter's number. \<open>runs\<close> records the results the function has returned;
  the code does not keep it.
\<close>

section \<open>The model\<close>

datatype ('k, 'r) phase =
  Idle
| Running 'k
| Delivering 'k 'r "nat list"
| Waiting 'k
| Finished 'k 'r

record ('k, 'r) msearch =
  caches :: "'k \<rightharpoonup> int"
  waits :: "'k \<rightharpoonup> nat list"
  phase_of :: "nat \<Rightarrow> ('k, 'r) phase"
  runs :: "('k \<times> 'r) list"

definition NewMergeSearch :: "('k, 'r) msearch" where
  "NewMergeSearch = \<lparr>caches = Map.empty, waits = Map.empty, phase_of = (\<lambda>_. Idle), runs = []\<rparr>"

text \<open>The first critical section of \<^verbatim>\<open>Call\<close>, up to \<^verbatim>\<open>p.fun(key)\<close> or to \<^verbatim>\<open><-ch\<close>.\<close>

definition call_enter :: "nat \<Rightarrow> 'k \<Rightarrow> ('k, 'r) msearch \<Rightarrow> ('k, 'r) msearch" where
  "call_enter t key p =
     (if caches p key = None
      then p\<lparr>caches := (caches p)(key \<mapsto> 1), phase_of := (phase_of p)(t := Running key)\<rparr>
      else let ws = (case waits p key of Some ws \<Rightarrow> ws @ [t] | None \<Rightarrow> [] @ [t])
           in p\<lparr>waits := (waits p)(key \<mapsto> ws), phase_of := (phase_of p)(t := Waiting key)\<rparr>)"

text \<open>The function returns \<open>r\<close>; the second critical section takes the waiters.\<close>

definition call_return :: "nat \<Rightarrow> 'k \<Rightarrow> 'r \<Rightarrow> ('k, 'r) msearch \<Rightarrow> ('k, 'r) msearch" where
  "call_return t key r p =
     (let ws = (case waits p key of Some ws \<Rightarrow> ws | None \<Rightarrow> [])
      in p\<lparr>caches := (caches p)(key := None), waits := (waits p)(key := None),
           phase_of := (phase_of p)(t := Delivering key r ws), runs := (key, r) # runs p\<rparr>)"

text \<open>\<^verbatim>\<open>w <- result\<close> meets \<^verbatim>\<open><-ch\<close>; the waiter returns with the result.\<close>

definition call_deliver :: "nat \<Rightarrow> 'k \<Rightarrow> 'r \<Rightarrow> nat \<Rightarrow> nat list \<Rightarrow> ('k, 'r) msearch \<Rightarrow> ('k, 'r) msearch" where
  "call_deliver t key r w ws p =
     p\<lparr>phase_of := (phase_of p)(t := Delivering key r ws, w := Finished key r)\<rparr>"

inductive ms_step :: "('k, 'r) msearch \<Rightarrow> ('k, 'r) msearch \<Rightarrow> bool" where
  enter: "phase_of p t = Idle \<Longrightarrow> ms_step p (call_enter t key p)"
| return: "phase_of p t = Running key \<Longrightarrow> ms_step p (call_return t key r p)"
| deliver: "phase_of p t = Delivering key r (w # ws) \<Longrightarrow> phase_of p w = Waiting key \<Longrightarrow>
    ms_step p (call_deliver t key r w ws p)"
| finish: "phase_of p t = Delivering key r [] \<Longrightarrow> ms_step p (p\<lparr>phase_of := (phase_of p)(t := Finished key r)\<rparr>)"

inductive ms_reachable :: "('k, 'r) msearch \<Rightarrow> bool" where
  ms_new: "ms_reachable NewMergeSearch"
| ms_move: "ms_reachable p \<Longrightarrow> ms_step p p' \<Longrightarrow> ms_reachable p'"

inductive_cases ms_stepE: "ms_step p p'"

section \<open>The invariant\<close>

definition at_most_one :: "(nat \<Rightarrow> 'a) \<Rightarrow> 'a \<Rightarrow> bool" where
  "at_most_one f y \<longleftrightarrow> (\<forall>t t'. f t = y \<longrightarrow> f t' = y \<longrightarrow> t = t')"

definition owner_inv :: "('k, 'r) msearch \<Rightarrow> bool" where
  "owner_inv p \<longleftrightarrow>
     (\<forall>k. (caches p k \<noteq> None) = (\<exists>t. phase_of p t = Running k)) \<and>
     (\<forall>k. at_most_one (phase_of p) (Running k)) \<and>
     (\<forall>k. waits p k \<noteq> None \<longrightarrow> caches p k \<noteq> None)"

text \<open>
  The lists a waiter can be on: the waiters of a key (\<open>Inl\<close>), and what is left of the delivery a
  goroutine makes (\<open>Inr\<close>). A waiting goroutine is on exactly one, of its own key, once.
\<close>

fun wlist :: "('k, 'r) msearch \<Rightarrow> 'k + nat \<Rightarrow> nat list" where
  "wlist p (Inl k) = (case waits p k of Some ws \<Rightarrow> ws | None \<Rightarrow> [])"
| "wlist p (Inr t) = (case phase_of p t of Delivering k r ws \<Rightarrow> ws | _ \<Rightarrow> [])"

fun wkey :: "('k, 'r) msearch \<Rightarrow> 'k + nat \<Rightarrow> 'k \<Rightarrow> bool" where
  "wkey p (Inl k) k' = (k = k')"
| "wkey p (Inr t) k' = (\<exists>r ws. phase_of p t = Delivering k' r ws)"

definition wait_inv :: "('k, 'r) msearch \<Rightarrow> bool" where
  "wait_inv p \<longleftrightarrow>
     (\<forall>src w. w \<in> set (wlist p src) \<longrightarrow> (\<exists>k. phase_of p w = Waiting k \<and> wkey p src k)) \<and>
     (\<forall>src. distinct (wlist p src)) \<and>
     (\<forall>src src' w. w \<in> set (wlist p src) \<longrightarrow> w \<in> set (wlist p src') \<longrightarrow> src = src') \<and>
     (\<forall>w k. phase_of p w = Waiting k \<longrightarrow> (\<exists>src. w \<in> set (wlist p src)))"

definition result_inv :: "('k, 'r) msearch \<Rightarrow> bool" where
  "result_inv p \<longleftrightarrow>
     (\<forall>t k r ws. phase_of p t = Delivering k r ws \<longrightarrow> (k, r) \<in> set (runs p)) \<and>
     (\<forall>t k r. phase_of p t = Finished k r \<longrightarrow> (k, r) \<in> set (runs p))"

lemma ex_upd: "f t \<noteq> y \<Longrightarrow> x \<noteq> y \<Longrightarrow> (\<exists>u. (f(t := x)) u = y) = (\<exists>u. f u = y)"
  by (metis fun_upd_apply)

lemma at_most_one_upd: "at_most_one f y \<Longrightarrow> x \<noteq> y \<Longrightarrow> at_most_one (f(t := x)) y"
  by (auto simp: at_most_one_def)

lemma at_most_one_new: "\<not> (\<exists>u. f u = y) \<Longrightarrow> at_most_one (f(t := y)) y"
  by (auto simp: at_most_one_def)

lemma owner_invD:
  assumes "owner_inv p"
  shows "(caches p k \<noteq> None) = (\<exists>t. phase_of p t = Running k)" "at_most_one (phase_of p) (Running k)"
    "waits p k \<noteq> None \<Longrightarrow> caches p k \<noteq> None"
  using assms unfolding owner_inv_def by blast+

text \<open>A step that neither starts nor ends a run and leaves \<^verbatim>\<open>caches\<close> as it is.\<close>

lemma owner_inv_upd:
  assumes i: "owner_inv p" and c: "caches p' = caches p" and f: "phase_of p' = (phase_of p)(t := x)"
    and x: "\<And>k. x \<noteq> Running k" "\<And>k. phase_of p t \<noteq> Running k"
    and w: "\<And>k. waits p' k \<noteq> None \<Longrightarrow> caches p k \<noteq> None"
  shows "owner_inv p'"
proof -
  have "(caches p' k \<noteq> None) = (\<exists>u. phase_of p' u = Running k) \<and> at_most_one (phase_of p') (Running k) \<and>
      (waits p' k \<noteq> None \<longrightarrow> caches p' k \<noteq> None)" for k
    unfolding f c using owner_invD(1,2) [OF i, of k] ex_upd [of "phase_of p" t "Running k" x] x
      at_most_one_upd [of "phase_of p" "Running k" x t] w [of k] by simp
  then show ?thesis unfolding owner_inv_def by blast
qed

lemma owner_inv_start:
  assumes i: "owner_inv p" and enter: "p' = call_enter t key p" "phase_of p t = Idle" and none: "caches p key = None"
  shows "owner_inv p'"
proof -
  have "(caches p' k \<noteq> None) = (\<exists>u. phase_of p' u = Running k) \<and> at_most_one (phase_of p') (Running k) \<and>
      (waits p' k \<noteq> None \<longrightarrow> caches p' k \<noteq> None)" for k
  proof (cases "k = key")
    case True
    then show ?thesis using enter none owner_invD(1) [OF i, of key] at_most_one_new [of "phase_of p" "Running key" t]
      by (auto simp: call_enter_def)
  next
    case False
    then show ?thesis using enter none owner_invD [OF i, of k] ex_upd [of "phase_of p" t "Running k" "Running key"]
        at_most_one_upd [of "phase_of p" "Running k" "Running key" t]
      by (simp add: call_enter_def)
  qed
  then show ?thesis unfolding owner_inv_def by blast
qed

lemma owner_inv_return:
  assumes i: "owner_inv p" and return: "p' = call_return t key r p" "phase_of p t = Running key"
  shows "owner_inv p'"
proof -
  have "(caches p' k \<noteq> None) = (\<exists>u. phase_of p' u = Running k) \<and> at_most_one (phase_of p') (Running k) \<and>
      (waits p' k \<noteq> None \<longrightarrow> caches p' k \<noteq> None)" for k
  proof (cases "k = key")
    case True
    have "\<not> (\<exists>u. phase_of p' u = Running key)"
      using return owner_invD(2) [OF i, of key] by (auto simp: call_return_def Let_def at_most_one_def)
    then show ?thesis using True return by (auto simp: call_return_def Let_def at_most_one_def)
  next
    case False
    then show ?thesis using return owner_invD [OF i, of k]
        ex_upd [of "phase_of p" t "Running k" "Delivering key r (case waits p key of Some ws \<Rightarrow> ws | None \<Rightarrow> [])"]
        at_most_one_upd [of "phase_of p" "Running k" "Delivering key r (case waits p key of Some ws \<Rightarrow> ws | None \<Rightarrow> [])" t]
      by (simp add: call_return_def Let_def)
  qed
  then show ?thesis unfolding owner_inv_def by blast
qed

lemma owner_inv_step:
  assumes "ms_step p p'" and i: "owner_inv p"
  shows "owner_inv p'"
  using assms(1)
proof cases
  case (enter t key)
  show ?thesis
  proof (cases "caches p key = None")
    case False
    then show ?thesis using enter owner_invD(3) [OF i]
      by (intro owner_inv_upd [OF i, of _ t "Waiting key"]) (auto simp: call_enter_def Let_def split: if_splits)
  qed (use owner_inv_start [OF i enter] in blast)
next
  case (return t key r)
  show ?thesis by (rule owner_inv_return [OF i return])
next
  case (deliver t key r w ws)
  let ?p = "p\<lparr>phase_of := (phase_of p)(t := Delivering key r ws)\<rparr>"
  have tw: "t \<noteq> w" using deliver by auto
  have 1: "owner_inv ?p"
    using deliver owner_invD(3) [OF i] by (intro owner_inv_upd [OF i, of _ t "Delivering key r ws"]) auto
  show ?thesis
    using deliver tw owner_invD(3) [OF i]
    by (intro owner_inv_upd [OF 1, of _ w "Finished key r"]) (auto simp: call_deliver_def)
next
  case (finish t key r)
  then show ?thesis using owner_invD(3) [OF i] by (intro owner_inv_upd [OF i, of _ t "Finished key r"]) auto
qed

lemma result_inv_step: "ms_step p p' \<Longrightarrow> result_inv p \<Longrightarrow> result_inv p'"
  by (elim ms_stepE) (auto simp: result_inv_def call_enter_def call_return_def call_deliver_def Let_def split: if_splits)

lemma wait_invD:
  assumes "wait_inv p"
  shows "w \<in> set (wlist p src) \<Longrightarrow> \<exists>k. phase_of p w = Waiting k \<and> wkey p src k"
    "distinct (wlist p src)" "w \<in> set (wlist p src) \<Longrightarrow> w \<in> set (wlist p src') \<Longrightarrow> src = src'"
    "phase_of p w = Waiting k \<Longrightarrow> \<exists>src. w \<in> set (wlist p src)"
  using assms unfolding wait_inv_def by blast+

text \<open>A step that changes one goroutine, which is on no list and makes no delivery, and no list.\<close>

lemma wait_inv_same:
  assumes i: "wait_inv p" and l: "\<And>src. wlist p' src = wlist p src"
    and f: "phase_of p' = (phase_of p)(t := x)" and x: "\<And>k. x \<noteq> Waiting k" "\<And>k. phase_of p t \<noteq> Waiting k"
    and d: "\<And>k r ws. phase_of p t = Delivering k r ws \<Longrightarrow> ws = []"
  shows "wait_inv p'"
proof -
  have k: "wkey p' src k" if w: "w \<in> set (wlist p src)" and old: "wkey p src k" for w src k
  proof (cases src)
    case (Inr u)
    then have "u \<noteq> t" using w old d by fastforce
    then show ?thesis using Inr old f by simp
  qed (use old in simp)
  have "\<exists>k. phase_of p' w = Waiting k \<and> wkey p' src k" if w: "w \<in> set (wlist p src)" for w src
    using wait_invD(1) [OF i w] k [OF w] x f by (metis fun_upd_apply)
  moreover have "\<exists>src. w \<in> set (wlist p src)" if "phase_of p' w = Waiting k" for w k
    using wait_invD(4) [OF i] that x f by (metis fun_upd_apply)
  ultimately show ?thesis unfolding wait_inv_def l using wait_invD(2,3) [OF i] by blast
qed

text \<open>The steps that change the lists: a caller joins the waiters of its key, the run of a key ends, a result is delivered.\<close>

lemma wait_inv_enter:
  assumes i: "wait_inv p" and enter: "p' = call_enter t key p" "phase_of p t = Idle" and False: "caches p key \<noteq> None"
  shows "wait_inv p'"
proof -
  have f: "phase_of p' = (phase_of p)(t := Waiting key)" using enter False by (simp add: call_enter_def Let_def)
  have l: "wlist p' src = (if src = Inl key then wlist p src @ [t] else wlist p src)" for src
    using enter False by (cases src) (auto simp: call_enter_def Let_def split: phase.splits option.splits)
  have fresh: "t \<notin> set (wlist p src)" for src using wait_invD(1) [OF i, of t src] enter(2) by auto
  have k: "wkey p' src k" if "wkey p src k" for src k
    using that enter(2) f by (cases src) auto
  have 1: "\<exists>k. phase_of p' w = Waiting k \<and> wkey p' src k" if w: "w \<in> set (wlist p' src)" for w src
  proof (cases "w = t")
    case True
    then have "src = Inl key" using w fresh l by (auto split: if_splits)
    then show ?thesis using True f by simp
  next
    case False
    then have "w \<in> set (wlist p src)" using w l by (auto split: if_splits)
    then show ?thesis using wait_invD(1) [OF i] k f False by fastforce
  qed
  have 2: "distinct (wlist p' src)" for src using wait_invD(2) [OF i, of src] fresh [of src] unfolding l
    by (cases "src = Inl key") (auto simp del: wlist.simps)
  have 3: "src = src'" if "w \<in> set (wlist p' src)" "w \<in> set (wlist p' src')" for w src src'
    using that l fresh wait_invD(3) [OF i, of w src src'] by (auto split: if_splits)
  have 4: "\<exists>src. w \<in> set (wlist p' src)" if "phase_of p' w = Waiting k" for w k
  proof (cases "w = t")
    case True
    then have "w \<in> set (wlist p' (Inl key))" using l [of "Inl key"] True by (simp del: wlist.simps)
    then show ?thesis by blast
  next
    case False
    then obtain src where "w \<in> set (wlist p src)" using wait_invD(4) [OF i, of w k] \<open>phase_of p' w = Waiting k\<close> f by auto
    then have "w \<in> set (wlist p' src)" using l [of src] by (auto simp del: wlist.simps)
    then show ?thesis by blast
  qed
  show ?thesis unfolding wait_inv_def using 1 2 3 4 by blast
qed

lemma wait_inv_return:
  assumes i: "wait_inv p" and return: "p' = call_return t key r p" "phase_of p t = Running key"
  shows "wait_inv p'"
proof -
  let ?ws = "wlist p (Inl key)"
  have f: "phase_of p' = (phase_of p)(t := Delivering key r ?ws)" using return by (simp add: call_return_def Let_def)
  have l: "wlist p' src = (if src = Inl key then [] else if src = Inr t then ?ws else wlist p src)" for src
    using return f by (cases src) (auto simp: call_return_def Let_def split: phase.splits)
  have old: "wlist p (Inr t) = []" using return by simp
  have k: "wkey p' src k" if "wkey p src k" "src \<noteq> Inr t" for src k
    using that f by (cases src) auto
  have 1: "\<exists>k. phase_of p' w = Waiting k \<and> wkey p' src k" if w: "w \<in> set (wlist p' src)" for w src
  proof (cases "src = Inr t")
    case True
    then have "w \<in> set ?ws" using w l [of src] by (simp del: wlist.simps)
    from wait_invD(1) [OF i this] return(2) show ?thesis using True f by auto
  next
    case False
    then have w': "w \<in> set (wlist p src)" using w l [of src] by (auto split: if_splits simp del: wlist.simps)
    from wait_invD(1) [OF i this] return(2) show ?thesis using k [OF _ False] f by auto
  qed
  have 2: "distinct (wlist p' src)" for src
    using l [of src] wait_invD(2) [OF i, of src] wait_invD(2) [OF i, of "Inl key"] by (simp del: wlist.simps)
  have 3: "src = src'" if "w \<in> set (wlist p' src)" "w \<in> set (wlist p' src')" for w src src'
  proof -
    define g where "g = (\<lambda>s. if s = Inr t then Inl key else s)"
    have "w \<in> set (wlist p (g s)) \<and> s \<noteq> Inl key" if "w \<in> set (wlist p' s)" for s
      using that l [of s] by (auto simp: g_def simp del: wlist.simps split: if_splits)
    then have "g src = g src'" "src \<noteq> Inl key" "src' \<noteq> Inl key" using that wait_invD(3) [OF i] by blast+
    then show ?thesis by (auto simp: g_def split: if_splits)
  qed
  have 4: "\<exists>src. w \<in> set (wlist p' src)" if "phase_of p' w = Waiting k" for w k
  proof -
    have "phase_of p w = Waiting k" using that f by (auto split: if_splits)
    then obtain src where src: "w \<in> set (wlist p src)" using wait_invD(4) [OF i] by blast
    then have "src \<noteq> Inr t" using old by auto
    then have "w \<in> set (wlist p' (if src = Inl key then Inr t else src))"
      using src l [of "Inr t"] l [of src] by (auto simp del: wlist.simps)
    then show ?thesis by blast
  qed
  show ?thesis unfolding wait_inv_def using 1 2 3 4 by blast
qed

lemma wait_inv_deliver:
  assumes i: "wait_inv p" and deliver: "p' = call_deliver t key r w ws p" "phase_of p t = Delivering key r (w # ws)"
    "phase_of p w = Waiting key"
  shows "wait_inv p'"
proof -
  have tw: "t \<noteq> w" using deliver by auto
  have f: "phase_of p' = (phase_of p)(t := Delivering key r ws, w := Finished key r)"
    using deliver by (simp add: call_deliver_def)
  have lt: "wlist p (Inr t) = w # ws" using deliver by simp
  have l: "wlist p' src = (if src = Inr t then ws else wlist p src)" for src
    using deliver f tw by (cases src) (auto simp: call_deliver_def split: phase.splits)
  have gone: "w \<notin> set (wlist p' src)" for src
    using wait_invD(2) [OF i, of "Inr t"] wait_invD(3) [OF i, of w "Inr t" src] lt l [of src]
    by (auto split: if_splits simp del: wlist.simps)
  have sub: "u \<in> set (wlist p src)" if "u \<in> set (wlist p' src)" for u src using that l [of src] lt
    by (auto split: if_splits simp del: wlist.simps)
  have k: "wkey p' src k" if "wkey p src k" for src k
    using that f deliver tw by (cases src) auto
  have 1: "\<exists>k. phase_of p' u = Waiting k \<and> wkey p' src k" if u: "u \<in> set (wlist p' src)" for u src
  proof -
    obtain k' where k': "phase_of p u = Waiting k'" "wkey p src k'" using wait_invD(1) [OF i sub [OF u]] by blast
    have "u \<noteq> w" using u gone by blast
    moreover have "u \<noteq> t" using k'(1) deliver(2) by auto
    ultimately show ?thesis using k' k f by auto
  qed
  have 2: "distinct (wlist p' src)" for src using l [of src] wait_invD(2) [OF i, of "Inr t"] wait_invD(2) [OF i, of src] lt
    by (simp del: wlist.simps split: if_splits)
  have 3: "src = src'" if "u \<in> set (wlist p' src)" "u \<in> set (wlist p' src')" for u src src'
    using wait_invD(3) [OF i] sub that by blast
  have 4: "\<exists>src. u \<in> set (wlist p' src)" if "phase_of p' u = Waiting k" for u k
  proof -
    have u: "phase_of p u = Waiting k" "u \<noteq> w" using that f by (auto split: if_splits)
    then obtain src where "u \<in> set (wlist p src)" using wait_invD(4) [OF i] by blast
    then have "u \<in> set (wlist p' src)" using l [of src] lt u(2) by (auto simp del: wlist.simps)
    then show ?thesis by blast
  qed
  show ?thesis unfolding wait_inv_def using 1 2 3 4 by blast
qed

lemma wait_inv_step:
  assumes "ms_step p p'" and i: "wait_inv p"
  shows "wait_inv p'"
  using assms(1)
proof cases
  case (enter t key)
  show ?thesis
  proof (cases "caches p key = None")
    case True
    then have "wlist p' src = wlist p src" for src
      using enter by (cases src) (auto simp: call_enter_def split: phase.splits)
    then show ?thesis using enter True by (intro wait_inv_same [OF i, of _ t "Running key"]) (auto simp: call_enter_def)
  qed (use wait_inv_enter [OF i enter] in blast)
next
  case (return t key r)
  show ?thesis by (rule wait_inv_return [OF i return])
next
  case (deliver t key r w ws)
  show ?thesis by (rule wait_inv_deliver [OF i deliver])
next
  case (finish t key r)
  have "wlist p' src = wlist p src" for src using finish by (cases src) auto
  then show ?thesis using finish by (intro wait_inv_same [OF i, of _ t "Finished key r"]) auto
qed

lemma ms_reachable_inv: "ms_reachable p \<Longrightarrow> owner_inv p \<and> wait_inv p \<and> result_inv p"
proof (induction rule: ms_reachable.induct)
  case ms_new
  have "wlist NewMergeSearch src = []" for src :: "'a + nat" by (cases src) (simp_all add: NewMergeSearch_def)
  then show ?case by (auto simp: owner_inv_def wait_inv_def result_inv_def at_most_one_def NewMergeSearch_def)
next
  case (ms_move p p')
  then show ?case using owner_inv_step wait_inv_step result_inv_step by blast
qed

section \<open>Properties\<close>

lemma waiting_has_server:
  assumes r: "ms_reachable p" and w: "phase_of p w = Waiting k"
  shows "(\<exists>t. phase_of p t = Running k) \<or> (\<exists>t r ws. phase_of p t = Delivering k r ws \<and> w \<in> set ws)"
proof -
  note i = ms_reachable_inv [OF r]
  obtain src where src: "w \<in> set (wlist p src)" using wait_invD(4) [of p w k] i w by blast
  have key: "wkey p src k" using wait_invD(1) [of p w src] i src w by auto
  show ?thesis
  proof (cases src)
    case (Inl k')
    then have "waits p k \<noteq> None" using src key by (cases "waits p k") auto
    then show ?thesis using owner_invD(1,3) [of p k] i by blast
  next
    case (Inr t)
    then show ?thesis using src key by auto
  qed
qed

text \<open>C21: At most one goroutine runs the function for a key at a time, exactly when the key is cached; and
  every result a call has returned with is one the function returned for its key.\<close>

theorem one_run_per_key:
  assumes "ms_reachable p"
  shows "(phase_of p t = Running k \<longrightarrow> phase_of p t' = Running k \<longrightarrow> t = t') \<and>
    (caches p k \<noteq> None \<longleftrightarrow> (\<exists>t. phase_of p t = Running k)) \<and>
    (phase_of p t = Finished k r \<longrightarrow> (k, r) \<in> set (runs p))"
  using ms_reachable_inv [OF assms] owner_invD [of p k] by (auto simp: at_most_one_def result_inv_def)

definition demo_ms :: "(string, int) msearch" where
  "demo_ms = call_enter 1 ''u1'' (call_enter 0 ''u1'' NewMergeSearch)"

lemma demo_ms_reachable: "ms_reachable demo_ms"
proof -
  have "ms_reachable (call_enter 0 ''u1'' NewMergeSearch :: (string, int) msearch)"
    by (rule ms_move [OF ms_new enter]) (simp add: NewMergeSearch_def)
  moreover have "phase_of (call_enter 0 ''u1'' NewMergeSearch) 1 = Idle" by (simp add: call_enter_def NewMergeSearch_def)
  ultimately show ?thesis unfolding demo_ms_def by (rule ms_move [OF _ enter])
qed

lemma demo_ms_phases: "phase_of demo_ms 0 = Running ''u1''" "phase_of demo_ms 1 = Waiting ''u1''"
  by (simp_all add: demo_ms_def call_enter_def NewMergeSearch_def)

lemma one_run_per_key_witness: "caches demo_ms ''u1'' \<noteq> None \<and> phase_of demo_ms 1 \<noteq> Running ''u1''"
  using one_run_per_key [OF demo_ms_reachable, of 0 "''u1''" 1] demo_ms_phases by auto

text \<open>C22: No caller is forgotten: a caller that waits is served by the run for its key or is on the list of
  a delivery in progress, and in every state in which some call has not returned a step is
  possible, whatever result the function returns.\<close>

theorem no_lost_waiter:
  assumes r: "ms_reachable p" and t: "phase_of p t \<noteq> Idle" "\<forall>k r. phase_of p t \<noteq> Finished k r"
  shows "(\<forall>k. phase_of p t = Waiting k \<longrightarrow>
      (\<exists>u. phase_of p u = Running k) \<or> (\<exists>u r ws. phase_of p u = Delivering k r ws \<and> t \<in> set ws)) \<and>
    (\<exists>u q. phase_of p u \<noteq> Idle \<and> (\<forall>k r. phase_of p u \<noteq> Finished k r) \<and> ms_step p q \<and>
      phase_of q u \<noteq> phase_of p u)"
proof -
  have run: "\<exists>q. ms_step p q \<and> phase_of q u \<noteq> phase_of p u" if "phase_of p u = Running k" for u k
    using ms_step.return [OF that, of undefined] that by (intro exI) (auto simp: call_return_def Let_def)
  have del: "\<exists>q. ms_step p q \<and> phase_of q u \<noteq> phase_of p u" if u: "phase_of p u = Delivering k r ws" for u k r ws
  proof (cases ws)
    case Nil
    then show ?thesis using finish [of p u k r] u by (intro exI) auto
  next
    case (Cons w ws')
    then have "w \<in> set (wlist p (Inr u))" using u by simp
    from wait_invD(1) [OF _ this] have "phase_of p w = Waiting k" using ms_reachable_inv [OF r] u by auto
    moreover from this have "u \<noteq> w" using u by auto
    ultimately show ?thesis using deliver [of p u k r w ws'] u Cons by (intro exI) (auto simp: call_deliver_def)
  qed
  have act: "\<exists>u q. phase_of p u \<noteq> Idle \<and> (\<forall>k r. phase_of p u \<noteq> Finished k r) \<and> ms_step p q \<and> phase_of q u \<noteq> phase_of p u"
    if "phase_of p u = Running k \<or> phase_of p u = Delivering k r ws" for u k r ws
    using that run [of u k] del [of u k r ws] by (intro exI [of _ u]) auto
  have "\<exists>u k r ws. phase_of p u = Running k \<or> phase_of p u = Delivering k r ws"
    using t waiting_has_server [OF r, of t] by (cases "phase_of p t") blast+
  then show ?thesis using waiting_has_server [OF r] act by blast
qed

lemma no_lost_waiter_witness: "\<exists>u. phase_of demo_ms u = Running ''u1''"
  using no_lost_waiter [OF demo_ms_reachable, of 1] demo_ms_phases by auto

end
