(* ===== verification/GoStrings.thy ===== *)
theory GoStrings
  imports Prelude "HOL-Library.Char_ord"
begin

text \<open>
  The string functions of Go's standard library the code calls: \<^verbatim>\<open>strings.Split\<close> on one byte,
  \<^verbatim>\<open>filepath.Split\<close>, decimal printing (\<^verbatim>\<open>%d\<close>) and \<^verbatim>\<open>strconv.Atoi\<close>.
\<close>

fun split_on :: "char \<Rightarrow> string \<Rightarrow> string list" where
  "split_on c [] = [[]]"
| "split_on c (x # xs) =
     (if x = c then [] # split_on c xs
      else case split_on c xs of [] \<Rightarrow> [[x]] | p # ps \<Rightarrow> (x # p) # ps)"

definition file_of :: "string \<Rightarrow> string" where
  "file_of s = rev (takeWhile (\<lambda>x. x \<noteq> CHR ''/'') (rev s))"

definition dir_of :: "string \<Rightarrow> string" where
  "dir_of s = rev (dropWhile (\<lambda>x. x \<noteq> CHR ''/'') (rev s))"

lemma dir_file: "dir_of s @ file_of s = s"
  by (simp add: dir_of_def file_of_def flip: rev_append)

definition digit :: "nat \<Rightarrow> char" where
  "digit d = char_of (48 + d)"

fun show_nat :: "nat \<Rightarrow> string" where
  "show_nat n = (if n < 10 then [digit n] else show_nat (n div 10) @ [digit (n mod 10)])"

declare show_nat.simps [simp del]

definition show_int :: "int \<Rightarrow> string" where
  "show_int n = (if n < 0 then CHR ''-'' # show_nat (nat (- n)) else show_nat (nat n))"

definition digit_val :: "char \<Rightarrow> nat option" where
  "digit_val c = (let k = of_char c :: nat in if 48 \<le> k \<and> k \<le> 57 then Some (k - 48) else None)"

fun read_digits :: "nat \<Rightarrow> string \<Rightarrow> nat option" where
  "read_digits acc [] = Some acc"
| "read_digits acc (c # cs) =
     (case digit_val c of None \<Rightarrow> None | Some d \<Rightarrow> read_digits (10 * acc + d) cs)"

definition read_nat :: "string \<Rightarrow> nat option" where
  "read_nat s = (if s = [] then None else read_digits 0 s)"

text \<open>\<^term>\<open>None\<close> is the error result: no digits, another byte, or a value outside \<^verbatim>\<open>int\<close>.\<close>

definition Atoi :: "string \<Rightarrow> int option" where
  "Atoi s =
     (let v = (case s of
                 [] \<Rightarrow> None
               | c # cs \<Rightarrow> if c = CHR ''-'' then map_option (\<lambda>n. - int n) (read_nat cs)
                           else if c = CHR ''+'' then map_option int (read_nat cs)
                           else map_option int (read_nat s))
      in case v of None \<Rightarrow> None | Some n \<Rightarrow> if is_i64 n then Some n else None)"

section \<open>Splitting\<close>

lemma split_on_ne [simp]: "split_on c s \<noteq> []"
  by (induction s) (auto split: list.splits)

lemma split_on_none: "c \<notin> set s \<Longrightarrow> split_on c s = [s]"
  by (induction s) auto

lemma split_on_sep: "c \<notin> set a \<Longrightarrow> split_on c (a @ c # b) = a # split_on c b"
  by (induction a) auto

lemma length_split_on: "length (split_on c s) = Suc (length (filter (\<lambda>x. x = c) s))"
  by (induction s) (auto split: list.splits)

lemma file_of_none: "CHR ''/'' \<notin> set b \<Longrightarrow> file_of (a @ CHR ''/'' # b) = b"
proof -
  assume b: "CHR ''/'' \<notin> set b"
  have "takeWhile (\<lambda>x. x \<noteq> CHR ''/'') (rev b @ CHR ''/'' # rev a) = rev b @ takeWhile (\<lambda>x. x \<noteq> CHR ''/'') (CHR ''/'' # rev a)"
    by (rule takeWhile_append2) (use b in auto)
  then show ?thesis by (simp add: file_of_def)
qed

section \<open>Numbers\<close>

lemma digit_val_digit: "d < 10 \<Longrightarrow> digit_val (digit d) = Some d"
  by (simp add: digit_val_def digit_def of_char_of Let_def)

lemma digit_ne: "d < 10 \<Longrightarrow> digit d \<noteq> CHR ''-'' \<and> digit d \<noteq> CHR ''+'' \<and> digit d \<noteq> CHR ''_'' \<and> digit d \<noteq> CHR ''/''"
proof -
  assume d: "d < 10"
  then have "digit_val (digit d) = Some d" by (rule digit_val_digit)
  moreover have "digit_val CHR ''-'' = None" "digit_val CHR ''+'' = None" "digit_val CHR ''_'' = None"
    "digit_val CHR ''/'' = None" by (simp_all add: digit_val_def)
  ultimately show ?thesis by (metis option.distinct(1))
qed

lemma read_digits_append: "read_digits acc (a @ b) = (case read_digits acc a of None \<Rightarrow> None | Some v \<Rightarrow> read_digits v b)"
  by (induction a arbitrary: acc) (auto split: option.splits)

lemma show_nat_digits: "c \<in> set (show_nat n) \<Longrightarrow> \<exists>d<10. c = digit d"
proof (induction n rule: show_nat.induct)
  case (1 n)
  have m: "\<exists>d<10. digit (n mod 10) = digit d" by (rule exI [of _ "n mod 10"]) simp
  show ?case
  proof (cases "n < 10")
    case True
    then show ?thesis using 1(2) by (subst (asm) show_nat.simps) auto
  next
    case False
    then have "c \<in> set (show_nat (n div 10)) \<or> c = digit (n mod 10)" using 1(2) by (subst (asm) show_nat.simps) auto
    then show ?thesis using 1(1) [OF False] m by auto
  qed
qed

lemma show_nat_ne: "show_nat n \<noteq> []"
  by (subst show_nat.simps) simp

lemma read_digits_show: "read_digits 0 (show_nat n) = Some n"
proof (induction n rule: show_nat.induct)
  case (1 n)
  show ?case
  proof (cases "n < 10")
    case True
    then show ?thesis by (subst show_nat.simps) (simp add: digit_val_digit)
  next
    case False
    then show ?thesis using 1 by (subst show_nat.simps) (simp add: read_digits_append digit_val_digit)
  qed
qed

lemma read_nat_show: "read_nat (show_nat n) = Some n"
  by (simp add: read_nat_def show_nat_ne read_digits_show)

lemma Atoi_show_int: "is_i64 n \<Longrightarrow> Atoi (show_int n) = Some n"
proof -
  assume n: "is_i64 n"
  show ?thesis
  proof (cases "n < 0")
    case True
    then show ?thesis using n by (simp add: Atoi_def show_int_def read_nat_show)
  next
    case False
    obtain c cs where s: "show_nat (nat n) = c # cs" using show_nat_ne by (cases "show_nat (nat n)") auto
    then have "c \<noteq> CHR ''-''" "c \<noteq> CHR ''+''" using show_nat_digits [of c "nat n"] digit_ne by auto
    then show ?thesis using False n read_nat_show [of "nat n"] s by (simp add: Atoi_def show_int_def)
  qed
qed

lemma show_int_chars: "CHR ''_'' \<notin> set (show_int n)" "CHR ''/'' \<notin> set (show_int n)"
  using show_nat_digits digit_ne by (auto simp: show_int_def) metis+

end
