(* ===== verification/Naming.thy ===== *)
theory Naming
  imports GoStrings Sync "HOL-Library.Sublist" "HOL-Library.Multiset"
begin

text \<open>
  \<^verbatim>\<open>src/mservice/naming/naming.go\<close>: registration and discovery of services. A service is one etcd
  key, \<^verbatim>\<open>NameService/{name}/{name}/{name}_{host}_{port}\<close>, with the service id as its value. The etcd client
  is outside the repository: what a call to it returns is an argument. A context is a number,
  \<open>cancelled\<close> the set of those that were cancelled, and \<open>watching\<close> the watches the goroutines of
  \<open>Subscribe\<close> start.
\<close>

section \<open>The operations\<close>

definition ServicePut :: int where "ServicePut = 1"
definition ServiceDel :: int where "ServiceDel = 2"
definition kNameServiceDir :: string where "kNameServiceDir = ''NameService''"
definition kErrorKeyAlreadyWatch :: string where "kErrorKeyAlreadyWatch = ''key already watch''"
definition kErrorServiceIdAlreadyRegister :: string
  where "kErrorServiceIdAlreadyRegister = ''service_id already register''"
definition kErrorServiceIdNotRegister :: string where "kErrorServiceIdNotRegister = ''service_id not register''"

record ServiceInfo =
  Name :: string
  ServiceId :: string
  Host :: string
  Port :: int

record ServiceChange =
  ChService :: ServiceInfo
  ChOp :: int

record Naming =
  watch_cancels :: "string \<rightharpoonup> nat"
  register_cancels :: "string \<rightharpoonup> nat"
  nlock :: bool
  next_ctx :: nat
  cancelled :: "nat list"
  watching :: "(nat \<times> string) list"
  keeping :: "(nat \<times> int) list"

definition NewNaming :: Naming where
  "NewNaming = \<lparr>watch_cancels = Map.empty, register_cancels = Map.empty, nlock = False, next_ctx = 0,
     cancelled = [], watching = [], keeping = []\<rparr>"

definition get_name_dir :: "string \<Rightarrow> string" where
  "get_name_dir name = kNameServiceDir @ ''/'' @ name"

definition convert_service_info_to_str :: "ServiceInfo \<Rightarrow> string \<times> string" where
  "convert_service_info_to_str info =
     (get_name_dir (Name info) @ ''/'' @ Name info @ ''/'' @ Name info @ ''_'' @ Host info @ ''_'' @ show_int (Port info),
      ServiceId info)"

text \<open>\<^verbatim>\<open>keys[2]\<close> is read before the number of parts is checked: \<^term>\<open>None\<close> is its panic.\<close>

definition convert_str_to_service_info :: "string \<Rightarrow> string \<Rightarrow> ServiceInfo option option" where
  "convert_str_to_service_info key value =
     (let keys = split_on CHR ''_'' (file_of key)
      in do { k2 \<leftarrow> idx keys 2;
              let port = Atoi k2;
              if length keys \<noteq> 3 \<or> port = None then Some None
              else Some (Some \<lparr>Name = keys ! 0, ServiceId = value, Host = keys ! 1, Port = the port\<rparr>) })"

text \<open>\<open>Find\<close>: \<open>result\<close> is what etcd holds below the prefix, in the order the map is ranged over.\<close>

definition find_prefix :: "string \<Rightarrow> string" where
  "find_prefix name = get_name_dir name @ ''/'' @ name"

fun convert_all :: "(string \<times> string) list \<Rightarrow> ServiceInfo list option" where
  "convert_all [] = Some []"
| "convert_all ((k, v) # kvs) =
     do { info \<leftarrow> convert_str_to_service_info k v;
          infos \<leftarrow> convert_all kvs;
          Some (case info of Some i \<Rightarrow> i # infos | None \<Rightarrow> infos) }"

definition Find :: "(string \<Rightarrow> string + (string \<times> string) list) \<Rightarrow> string \<Rightarrow> (string + ServiceInfo list) option" where
  "Find GetWithPrefix name =
     (case GetWithPrefix (find_prefix name) of
        Inl e \<Rightarrow> Some (Inl e)
      | Inr result \<Rightarrow> map_option Inr (convert_all result))"

text \<open>The callback \<^verbatim>\<open>watch_f\<close>: a watch result is a key, a value and whether it was put.\<close>

fun watch_f :: "(string \<times> string \<times> bool) list \<Rightarrow> ServiceChange list option" where
  "watch_f [] = Some []"
| "watch_f ((k, v, put) # ws) =
     do { info \<leftarrow> convert_str_to_service_info k v;
          changes \<leftarrow> watch_f ws;
          Some (case info of
                  Some s \<Rightarrow> \<lparr>ChService = s, ChOp = (if put then ServicePut else ServiceDel)\<rparr> # changes
                | None \<Rightarrow> changes) }"

definition naming_critical :: "(Naming \<Rightarrow> (Naming \<times> 'a) option) \<Rightarrow> Naming \<Rightarrow> (Naming \<times> 'a) outcome" where
  "naming_critical = critical nlock (\<lambda>b. nlock_update (\<lambda>_. b))"

interpretation naming_mutex: mutex nlock "\<lambda>b. nlock_update (\<lambda>_. b)"
  by unfold_locales simp_all

definition Subscribe :: "Naming \<Rightarrow> string \<Rightarrow> (Naming \<times> string option) outcome" where
  "Subscribe p name = naming_critical (\<lambda>p.
     if watch_cancels p name \<noteq> None then Some (p, Some kErrorKeyAlreadyWatch)
     else Some (p\<lparr>watch_cancels := (watch_cancels p)(name \<mapsto> next_ctx p), next_ctx := Suc (next_ctx p),
                  watching := (next_ctx p, get_name_dir name @ ''/'' @ name @ ''/'' @ name) # watching p\<rparr>, None)) p"

definition Unsubscribe :: "Naming \<Rightarrow> string \<Rightarrow> (Naming \<times> unit) outcome" where
  "Unsubscribe p name = naming_critical (\<lambda>p.
     case watch_cancels p name of
       Some c \<Rightarrow> Some (p\<lparr>cancelled := c # cancelled p, watch_cancels := (watch_cancels p)(name := None)\<rparr>, ())
     | None \<Rightarrow> Some (p, ())) p"

text \<open>
  \<open>Register\<close> returns from its first test without releasing the mutex. \<open>PutWithTimeout\<close> is the etcd
  call, on key, value and time to live; a lease id comes back and a goroutine keeps it alive.
\<close>

definition Register ::
  "(string \<Rightarrow> string \<Rightarrow> int \<Rightarrow> string + int) \<Rightarrow> int \<Rightarrow> Naming \<Rightarrow> ServiceInfo \<Rightarrow> (Naming \<times> string option) outcome" where
  "Register PutWithTimeout KeepAliveTtl p info =
     obind (Lock (nlock p)) (\<lambda>b.
       let p = p\<lparr>nlock := b\<rparr> in
       if register_cancels p (ServiceId info) \<noteq> None then Ret (p, Some kErrorServiceIdAlreadyRegister)
       else let ctx = next_ctx p;
                p = p\<lparr>register_cancels := (register_cancels p)(ServiceId info \<mapsto> next_ctx p), next_ctx := Suc (next_ctx p)\<rparr>
            in obind (Unlock (nlock p)) (\<lambda>b.
                 let p = p\<lparr>nlock := b\<rparr>; (k, v) = convert_service_info_to_str info
                 in case PutWithTimeout k v (i64 (3 * KeepAliveTtl)) of
                      Inl e \<Rightarrow> Ret (p, Some e)
                    | Inr lease_id \<Rightarrow> Ret (p\<lparr>keeping := (ctx, lease_id) # keeping p\<rparr>, None)))"

text \<open>
  The goroutine of \<open>Register\<close>: what its \<^verbatim>\<open>select\<close> finds ready at each round, and the keep-alives it
  sends. The \<^verbatim>\<open>break\<close> of the first case leaves the \<^verbatim>\<open>select\<close>, not the loop.
\<close>

datatype ready = CtxDone | Tick

fun keep_alive_loop :: "int \<Rightarrow> ready list \<Rightarrow> int list" where
  "keep_alive_loop lease_id [] = []"
| "keep_alive_loop lease_id (CtxDone # rs) = keep_alive_loop lease_id rs"
| "keep_alive_loop lease_id (Tick # rs) = lease_id # keep_alive_loop lease_id rs"

text \<open>\<open>Deregister\<close> cancels the context and keeps the entry.\<close>

definition Deregister :: "Naming \<Rightarrow> string \<Rightarrow> (Naming \<times> string option) outcome" where
  "Deregister p service_id = naming_critical (\<lambda>p.
     case register_cancels p service_id of
       None \<Rightarrow> Some (p, Some kErrorServiceIdNotRegister)
     | Some c \<Rightarrow> Some (p\<lparr>cancelled := c # cancelled p\<rparr>, None)) p"

section \<open>Keys\<close>

lemma key_file: "CHR ''/'' \<notin> set (Name info) \<Longrightarrow> CHR ''/'' \<notin> set (Host info) \<Longrightarrow>
    file_of (fst (convert_service_info_to_str info)) = Name info @ ''_'' @ Host info @ ''_'' @ show_int (Port info)"
  using file_of_none [of "Name info @ ''_'' @ Host info @ ''_'' @ show_int (Port info)"
      "get_name_dir (Name info) @ ''/'' @ Name info"] show_int_chars
  by (simp add: convert_service_info_to_str_def)

lemma convert_round_trip:
  assumes "CHR ''/'' \<notin> set (Name info)" "CHR ''/'' \<notin> set (Host info)"
    and "CHR ''_'' \<notin> set (Name info)" "CHR ''_'' \<notin> set (Host info)" "is_i64 (Port info)"
  shows "(case convert_service_info_to_str info of (k, v) \<Rightarrow> convert_str_to_service_info k v) = Some (Some info)"
proof -
  have "split_on CHR ''_'' (Name info @ ''_'' @ Host info @ ''_'' @ show_int (Port info)) =
      [Name info, Host info, show_int (Port info)]"
    using split_on_sep [OF assms(3), of "Host info @ ''_'' @ show_int (Port info)"]
      split_on_sep [OF assms(4), of "show_int (Port info)"] split_on_none show_int_chars by simp
  then have "convert_str_to_service_info (fst (convert_service_info_to_str info)) (ServiceId info) =
      Some (Some \<lparr>Name = Name info, ServiceId = ServiceId info, Host = Host info, Port = Port info\<rparr>)"
    unfolding convert_str_to_service_info_def key_file [OF assms(1,2)]
    by (simp add: idx_def Atoi_show_int assms(5))
  then show ?thesis by (simp add: convert_service_info_to_str_def)
qed

lemma underscore_rejected:
  assumes "CHR ''/'' \<notin> set (Name info)" "CHR ''/'' \<notin> set (Host info)"
    and "CHR ''_'' \<in> set (Name info) \<or> CHR ''_'' \<in> set (Host info)"
  shows "convert_str_to_service_info (fst (convert_service_info_to_str info)) v = Some None"
proof -
  let ?s = "Name info @ ''_'' @ Host info @ ''_'' @ show_int (Port info)"
  let ?u = "filter (\<lambda>x. x = CHR ''_'')"
  have "?u (Name info) \<noteq> [] \<or> ?u (Host info) \<noteq> []" using assms(3) by (auto simp: filter_empty_conv)
  then have "0 < length (?u (Name info)) + length (?u (Host info))" by (simp add: add_gr_0 del: filter_empty_conv)
  moreover have "length (split_on CHR ''_'' ?s) = 3 + length (?u (Name info)) + length (?u (Host info)) + length (?u (show_int (Port info)))"
    unfolding length_split_on by simp
  ultimately have "3 < length (split_on CHR ''_'' ?s)" by linarith
  then show ?thesis unfolding convert_str_to_service_info_def key_file [OF assms(1,2)] by (simp add: idx_def Let_def)
qed

lemma short_key_panics:
  "length (filter (\<lambda>x. x = CHR ''_'') (file_of key)) < 2 \<Longrightarrow> convert_str_to_service_info key v = None"
  by (simp add: convert_str_to_service_info_def Let_def idx_def length_split_on)

text \<open>The keys etcd finds below a name's prefix are the keys of that name.\<close>

lemma prefix_slash:
  assumes "c \<notin> set n" "c \<notin> set m"
  shows "prefix (n @ c # a) (m @ c # b) \<longleftrightarrow> n = m \<and> prefix a b"
  using assms
proof (induction n arbitrary: m)
  case Nil
  then show ?case by (cases m) auto
next
  case (Cons x n)
  then show ?case by (cases m) auto
qed

lemma find_prefix_key:
  assumes "CHR ''/'' \<notin> set n" "CHR ''/'' \<notin> set (Name info)"
  shows "prefix (find_prefix n) (fst (convert_service_info_to_str info)) \<longleftrightarrow> Name info = n"
  using prefix_slash [OF assms, of n] by (auto simp: find_prefix_def get_name_dir_def convert_service_info_to_str_def)

definition slash_free :: "ServiceInfo \<Rightarrow> bool" where
  "slash_free info \<longleftrightarrow> CHR ''/'' \<notin> set (Name info) \<and> CHR ''/'' \<notin> set (Host info) \<and> is_i64 (Port info)"

definition plain :: "ServiceInfo \<Rightarrow> bool" where
  "plain info \<longleftrightarrow> CHR ''_'' \<notin> set (Name info) \<and> CHR ''_'' \<notin> set (Host info)"

lemma convert_key:
  assumes "slash_free info"
  shows "convert_str_to_service_info (fst (convert_service_info_to_str info)) (snd (convert_service_info_to_str info)) =
    Some (if plain info then Some info else None)"
  using assms convert_round_trip [of info] underscore_rejected [of info]
  by (auto simp: slash_free_def plain_def split: prod.splits)

lemma convert_all_keys:
  "list_all slash_free infos \<Longrightarrow> convert_all (map convert_service_info_to_str infos) = Some (filter plain infos)"
proof (induction infos)
  case (Cons i infos)
  then show ?case using convert_key [of i] by (cases "convert_service_info_to_str i") auto
qed simp

lemma convert_all_panics: "(k, v) \<in> set kvs \<Longrightarrow> convert_str_to_service_info k v = None \<Longrightarrow> convert_all kvs = None"
proof (induction kvs)
  case (Cons kv kvs)
  then show ?case by (cases kv) (auto split: option.splits bind_splits)
qed simp

lemma watch_f_panics: "(k, v, b) \<in> set ws \<Longrightarrow> convert_str_to_service_info k v = None \<Longrightarrow> watch_f ws = None"
proof (induction ws)
  case (Cons w ws)
  then show ?case by (cases w) (auto split: option.splits bind_splits)
qed simp

lemma filter_keys:
  "CHR ''/'' \<notin> set name \<Longrightarrow> list_all slash_free infos \<Longrightarrow>
    filter (\<lambda>(k, v). prefix (find_prefix name) k) (map convert_service_info_to_str infos) =
    map convert_service_info_to_str (filter (\<lambda>i. Name i = name) infos)"
proof (induction infos)
  case (Cons i infos)
  then show ?case using find_prefix_key [of name i] by (auto simp: slash_free_def case_prod_beta)
qed simp

lemma mset_map_split: "mset ys = mset (map f xs) \<Longrightarrow> \<exists>zs. ys = map f zs \<and> mset zs = mset xs"
proof (induction ys arbitrary: xs)
  case (Cons y ys)
  then have "y \<in> set (map f xs)" by (metis list.set_intros(1) set_mset_mset)
  then obtain x where x: "x \<in> set xs" "y = f x" by auto
  then have xs: "mset xs = add_mset x (mset (remove1 x xs))" by simp
  have "mset (y # ys) = image_mset f (mset xs)" using Cons.prems by (simp only: mset_map)
  also have "\<dots> = image_mset f (add_mset x (mset (remove1 x xs)))" by (rule arg_cong [OF xs])
  finally have "mset ys = mset (map f (remove1 x xs))" unfolding x(2)
    by (simp only: mset.simps mset_map image_mset_add_mset add_mset_add_mset_same_iff)
  from Cons.IH [OF this] obtain zs where zs: "ys = map f zs" "mset zs = mset (remove1 x xs)" by blast
  have "mset (x # zs) = mset xs" unfolding xs by (simp only: mset.simps zs(2))
  with zs(1) x(2) show ?case by (intro exI [of _ "x # zs"]) (simp only: list.map)
qed simp

section \<open>Properties\<close>

text \<open>
  C23: discovery finds what was registered. With the keys of \<open>infos\<close> in etcd, and etcd returning
  the keys below a prefix, in whatever order the map of them is ranged over, \<open>Find name\<close> returns
  exactly the services of that name, each with its id, host and port; but only those whose name and
  host have no \<^verbatim>\<open>_\<close>: the others are dropped, because the key is taken apart at every \<^verbatim>\<open>_\<close>.
\<close>

theorem Find_correct:
  assumes "CHR ''/'' \<notin> set name" and "list_all slash_free infos"
    and "GetWithPrefix (find_prefix name) = Inr kvs"
    and "mset kvs = mset (filter (\<lambda>(k, v). prefix (find_prefix name) k) (map convert_service_info_to_str infos))"
  shows "\<exists>found. Find GetWithPrefix name = Some (Inr found) \<and>
    mset found = mset (filter (\<lambda>i. Name i = name \<and> plain i) infos)"
proof -
  let ?js = "filter (\<lambda>i. Name i = name) infos"
  have "mset kvs = mset (map convert_service_info_to_str ?js)"
    using assms(4) by (simp only: filter_keys [OF assms(1,2)])
  then obtain zs where zs: "kvs = map convert_service_info_to_str zs" "mset zs = mset ?js"
    using mset_map_split by blast
  have "set zs = set ?js" using zs(2) by (rule mset_eq_setD)
  then have "list_all slash_free zs" using assms(2) by (simp add: list_all_iff)
  then have "Find GetWithPrefix name = Some (Inr (filter plain zs))"
    using assms(3) by (simp add: Find_def zs(1) convert_all_keys)
  moreover have "mset (filter plain zs) = mset (filter plain ?js)" using zs(2) by (simp only: mset_filter)
  moreover have "filter plain ?js = filter (\<lambda>i. Name i = name \<and> plain i) infos"
    by (simp add: filter_filter conj_commute)
  ultimately show ?thesis by auto
qed

definition demo_infos :: "ServiceInfo list" where
  "demo_infos = [\<lparr>Name = ''pusher'', ServiceId = ''p1'', Host = ''10.0.0.1'', Port = 8000\<rparr>,
                 \<lparr>Name = ''user_db'', ServiceId = ''u1'', Host = ''10.0.0.2'', Port = 8001\<rparr>]"

lemma demo_infos_ok: "list_all slash_free demo_infos"
  by (simp add: demo_infos_def slash_free_def is_i64_def)

theorem Find_correct_witness:
  "\<exists>found. Find (\<lambda>pre. Inr (rev (filter (\<lambda>(k, v). prefix pre k) (map convert_service_info_to_str demo_infos)))) ''pusher'' =
     Some (Inr found) \<and> mset found = {#demo_infos ! 0#}"
  using Find_correct [OF _ demo_infos_ok, of "''pusher''"
      "\<lambda>pre. Inr (rev (filter (\<lambda>(k, v). prefix pre k) (map convert_service_info_to_str demo_infos)))",
      OF _ refl]
  by (simp add: demo_infos_def plain_def)

text \<open>
  One foreign key is enough to bring the process down. If the last component of a key below
  the prefix has fewer than two \<^verbatim>\<open>_\<close>, \<open>Find\<close> panics, and so does the watch callback when such a key
  changes: \<^verbatim>\<open>keys[2]\<close> is read before the number of parts is tested.
\<close>

theorem foreign_key_panics:
  assumes "length (filter (\<lambda>x. x = CHR ''_'') (file_of key)) < 2"
  shows "(GetWithPrefix (find_prefix name) = Inr kvs \<and> (key, v) \<in> set kvs \<longrightarrow> Find GetWithPrefix name = None) \<and>
    ((key, v, put) \<in> set ws \<longrightarrow> watch_f ws = None)"
  using convert_all_panics [OF _ short_key_panics [OF assms]] watch_f_panics [OF _ short_key_panics [OF assms]]
  by (auto simp: Find_def)

theorem foreign_key_panics_witness:
  "Find (\<lambda>pre. Inr [(''NameService/a/a_lock'', ''x'')]) ''a'' = None \<and>
   watch_f [(''NameService/a/a_lock'', ''x'', True)] = None"
proof -
  have "length (filter (\<lambda>x. x = CHR ''_'') (file_of ''NameService/a/a_lock'')) < 2"
    by (simp add: file_of_def)
  from foreign_key_panics [OF this, of "\<lambda>pre. Inr [(''NameService/a/a_lock'', ''x'')]" "''a''"
      "[(''NameService/a/a_lock'', ''x'')]" "''x''" True "[(''NameService/a/a_lock'', ''x'', True)]"]
  show ?thesis by simp
qed

text \<open>
  A service id can be registered once per process. On a free mutex \<open>Register\<close> of a new id
  succeeds and leaves the mutex free; \<open>Deregister\<close> then cancels the context and reports success, but
  the goroutine of the registration goes on sending a keep-alive at every tick, and a second
  \<open>Register\<close> of the id fails and leaves the mutex held, after which every operation of the naming
  client blocks.
\<close>

theorem Register_once:
  assumes "\<not> nlock p" and "register_cancels p (ServiceId info) = None"
    and "PutWithTimeout (fst (convert_service_info_to_str info)) (ServiceId info) (i64 (3 * ttl)) = Inr lease"
  shows "\<exists>p1 p2 p3. Register PutWithTimeout ttl p info = Ret (p1, None) \<and> \<not> nlock p1 \<and>
      (next_ctx p, lease) \<in> set (keeping p1) \<and>
      Deregister p1 (ServiceId info) = Ret (p2, None) \<and> \<not> nlock p2 \<and> next_ctx p \<in> set (cancelled p2) \<and>
      (\<forall>rs. keep_alive_loop lease (CtxDone # rs) = replicate (length (filter (\<lambda>r. r = Tick) rs)) lease) \<and>
      Register PutWithTimeout ttl p2 info = Ret (p3, Some kErrorServiceIdAlreadyRegister) \<and> nlock p3 \<and>
      (\<forall>i. Register PutWithTimeout ttl p3 i = Blocked) \<and>
      (\<forall>n. Subscribe p3 n = Blocked \<and> Unsubscribe p3 n = Blocked \<and> Deregister p3 n = Blocked)"
proof -
  have ka: "keep_alive_loop lease rs = replicate (length (filter (\<lambda>r. r = Tick) rs)) lease" for rs
  proof (induction rs)
    case (Cons r rs)
    then show ?case by (cases r) simp_all
  qed simp
  let ?i = "ServiceId info"
  let ?p1 = "p\<lparr>nlock := False, register_cancels := (register_cancels p)(?i \<mapsto> next_ctx p),
    next_ctx := Suc (next_ctx p), keeping := (next_ctx p, lease) # keeping p\<rparr>"
  let ?p2 = "?p1\<lparr>cancelled := next_ctx p # cancelled p\<rparr>"
  have 1: "Register PutWithTimeout ttl p info = Ret (?p1, None)"
    using assms by (simp add: Register_def Let_def convert_service_info_to_str_def)
  have 2: "Deregister ?p1 ?i = Ret (?p2, None)"
    by (simp add: Deregister_def naming_critical_def naming_mutex.runs)
  have 3: "Register PutWithTimeout ttl ?p2 info = Ret (?p2\<lparr>nlock := True\<rparr>, Some kErrorServiceIdAlreadyRegister)"
    by (simp add: Register_def Let_def)
  show ?thesis
    by (intro exI [of _ ?p1] exI [of _ ?p2] exI [of _ "?p2\<lparr>nlock := True\<rparr>"] conjI allI 1 2 3)
      (simp_all add: ka Register_def Subscribe_def Unsubscribe_def Deregister_def naming_critical_def naming_mutex.blocks)
qed

theorem Register_once_witness:
  "\<exists>p1 p2 p3. Register (\<lambda>k v t. Inr 7) 5 NewNaming (demo_infos ! 0) = Ret (p1, None) \<and>
     Deregister p1 ''p1'' = Ret (p2, None) \<and>
     Register (\<lambda>k v t. Inr 7) 5 p2 (demo_infos ! 0) = Ret (p3, Some kErrorServiceIdAlreadyRegister) \<and>
     Deregister p3 ''p1'' = Blocked"
proof -
  have "\<not> nlock NewNaming" "register_cancels NewNaming (ServiceId (demo_infos ! 0)) = None"
    "ServiceId (demo_infos ! 0) = ''p1''"
    by (simp_all add: NewNaming_def demo_infos_def)
  then show ?thesis
    using Register_once [of NewNaming "demo_infos ! 0" "\<lambda>k v t. Inr 7" 5 7] by auto
qed

end
