(* ===== verification/CommonUtil.thy ===== *)
theory CommonUtil
  imports Prelude "HOL-Library.Word" "HOL-Library.Char_ord"
begin

unbundle bit_operations_syntax

text \<open>
  \<^verbatim>\<open>src/util/common_util.go\<close>: the hash that spreads calls over the nodes of a service (32-bit FNV-1a
  of \<^verbatim>\<open>hash/fnv\<close>) and \<open>SliceInsertHead\<close>.
\<close>

definition fnv32a_step :: "32 word \<Rightarrow> char \<Rightarrow> 32 word" where
  "fnv32a_step h c = (h XOR word_of_nat (of_char c)) * 16777619"

definition GenHash :: "string \<Rightarrow> 32 word" where
  "GenHash str = foldl fnv32a_step 2166136261 str"

definition SliceInsertHead :: "'a \<Rightarrow> 'a list \<Rightarrow> 'a list" where
  "SliceInsertHead e s = [e] @ s"

lemma GenHash_append: "GenHash (s @ [c]) = fnv32a_step (GenHash s) c"
  by (simp add: GenHash_def)

end
