(* ===== verification/NetUtil.thy ===== *)
theory NetUtil
  imports GoStrings "HOL-Library.Word"
begin

unbundle bit_operations_syntax

text \<open>
  \<^verbatim>\<open>src/util/net_util.go\<close>, lines 61-130: the address of a network interface. The interfaces of the
  machine are an argument; an IP address is its bytes, with \<^verbatim>\<open>To4\<close>, \<^verbatim>\<open>IsLoopback\<close> and \<^verbatim>\<open>String\<close> of Go's
  \<^verbatim>\<open>net\<close> package for IPv4 written out.
\<close>

type_synonym ip = "8 word list"

text \<open>An \<^verbatim>\<open>IPNet\<close> and an \<^verbatim>\<open>IPAddr\<close> hold an address, which may be nil (no bytes).\<close>

datatype net_addr = IPNet ip | IPAddr ip | OtherAddr

record net_iface =
  ifName :: string
  ifFlags :: "32 word"
  ifAddrs :: "string + net_addr list"
  ifMac :: string
  ifMtu :: int

record NetInterfaceInfo =
  niName :: string
  niIpAddr :: string
  niMacAddr :: string
  niMtu :: int

definition FlagUp :: "32 word" where "FlagUp = 1"
definition FlagLoopback :: "32 word" where "FlagLoopback = 4"

definition To4 :: "ip \<Rightarrow> ip option" where
  "To4 b =
     (if length b = 4 then Some b
      else if length b = 16 \<and> take 10 b = replicate 10 0 \<and> b ! 10 = 255 \<and> b ! 11 = 255 then Some (drop 12 b)
      else None)"

definition IsLoopback :: "ip \<Rightarrow> bool" where
  "IsLoopback b = (case To4 b of Some b4 \<Rightarrow> b4 ! 0 = 127 | None \<Rightarrow> b = replicate 15 0 @ [1])"

definition ip4_String :: "ip \<Rightarrow> string" where
  "ip4_String b = show_nat (unat (b ! 0)) @ ''.'' @ show_nat (unat (b ! 1)) @ ''.'' @ show_nat (unat (b ! 2)) @ ''.'' @ show_nat (unat (b ! 3))"

definition get_ip_from_addr :: "net_addr \<Rightarrow> ip option" where
  "get_ip_from_addr addr =
     (let ip = (case addr of IPNet b \<Rightarrow> b | IPAddr b \<Rightarrow> b | OtherAddr \<Rightarrow> [])
      in if ip = [] \<or> IsLoopback ip then None else To4 ip)"

text \<open>The first address of the interface that gives an IP; the \<^verbatim>\<open>break\<close> ends the loop there.\<close>

fun first_ip :: "net_addr list \<Rightarrow> ip option" where
  "first_ip [] = None"
| "first_ip (addr # addrs) = (case get_ip_from_addr addr of Some ip \<Rightarrow> Some ip | None \<Rightarrow> first_ip addrs)"

fun active_infos :: "net_iface list \<Rightarrow> NetInterfaceInfo list" where
  "active_infos [] = []"
| "active_infos (iface # ifaces) =
     (if ifFlags iface AND FlagUp = 0 then active_infos ifaces
      else if ifFlags iface AND FlagLoopback \<noteq> 0 then active_infos ifaces
      else case ifAddrs iface of
        Inl err \<Rightarrow> active_infos ifaces
      | Inr addrs \<Rightarrow>
        (case first_ip addrs of
           None \<Rightarrow> active_infos ifaces
         | Some ip \<Rightarrow> \<lparr>niName = ifName iface, niIpAddr = ip4_String ip, niMacAddr = ifMac iface, niMtu = ifMtu iface\<rparr> #
             active_infos ifaces))"

definition GetActiveNetInterfaces :: "string + net_iface list \<Rightarrow> string + NetInterfaceInfo list" where
  "GetActiveNetInterfaces ifaces = (case ifaces of Inl err \<Rightarrow> Inl err | Inr is \<Rightarrow> Inr (active_infos is))"

fun find_iface :: "string \<Rightarrow> NetInterfaceInfo list \<Rightarrow> string + string" where
  "find_iface iface_name [] = Inl ''not exists iface''"
| "find_iface iface_name (x # xs) = (if iface_name = niName x then Inr (niIpAddr x) else find_iface iface_name xs)"

definition GetIfaceIpAddr :: "string + net_iface list \<Rightarrow> string \<Rightarrow> string + string" where
  "GetIfaceIpAddr ifaces iface_name =
     (case GetActiveNetInterfaces ifaces of Inl err \<Rightarrow> Inl err | Inr infos \<Rightarrow> find_iface iface_name infos)"

text \<open>An address that is found belongs to an interface of that name that is up and no loopback.\<close>

lemma get_ip_from_addr_4: "get_ip_from_addr a = Some ip \<Longrightarrow> length ip = 4"
  by (auto simp: get_ip_from_addr_def To4_def Let_def split: if_splits net_addr.splits)

lemma get_ip_from_addr_loopback: "get_ip_from_addr a = Some ip \<Longrightarrow> ip ! 0 \<noteq> 127"
  by (auto simp: get_ip_from_addr_def IsLoopback_def Let_def split: if_splits)

lemma first_ip_Some: "first_ip addrs = Some ip \<Longrightarrow> \<exists>a\<in>set addrs. get_ip_from_addr a = Some ip"
  by (induction addrs) (auto split: option.splits)

lemma active_infos_sound:
  "x \<in> set (active_infos is) \<Longrightarrow>
    \<exists>iface\<in>set is. \<exists>ip. ifName iface = niName x \<and> ifFlags iface AND FlagUp \<noteq> 0 \<and> ifFlags iface AND FlagLoopback = 0 \<and>
      niIpAddr x = ip4_String ip \<and> length ip = 4 \<and> ip ! 0 \<noteq> 127"
proof (induction "is")
  case (Cons iface "is")
  show ?case
  proof (cases "x \<in> set (active_infos is)")
    case True
    then show ?thesis using Cons.IH by auto
  next
    case False
    then obtain addrs ip where "ifFlags iface AND FlagUp \<noteq> 0" "ifFlags iface AND FlagLoopback = 0" "first_ip addrs = Some ip"
      "x = \<lparr>niName = ifName iface, niIpAddr = ip4_String ip, niMacAddr = ifMac iface, niMtu = ifMtu iface\<rparr>"
      using Cons.prems by (auto split: if_splits sum.splits option.splits)
    moreover from this(3) have "length ip = 4" "ip ! 0 \<noteq> 127"
      using first_ip_Some get_ip_from_addr_4 get_ip_from_addr_loopback by blast+
    ultimately show ?thesis by (intro bexI [of _ iface]) auto
  qed
qed simp

lemma find_iface_sound: "find_iface name xs = Inr ip \<Longrightarrow> \<exists>x\<in>set xs. niName x = name \<and> niIpAddr x = ip"
  by (induction xs) (auto split: if_splits)

lemma GetIfaceIpAddr_sound:
  assumes "GetIfaceIpAddr (Inr ifaces) name = Inr s"
  shows "\<exists>iface\<in>set ifaces. \<exists>ip. ifName iface = name \<and> ifFlags iface AND FlagUp \<noteq> 0 \<and> ifFlags iface AND FlagLoopback = 0 \<and>
    s = ip4_String ip \<and> length ip = 4 \<and> ip ! 0 \<noteq> 127"
  using assms active_infos_sound by (fastforce simp: GetIfaceIpAddr_def GetActiveNetInterfaces_def dest: find_iface_sound)

end
