(* ===== verification/TimerMgr.thy ===== *)
theory TimerMgr
  imports Sync
begin

text \<open>
  \<^verbatim>\<open>src/util/timer_util.go\<close>: named timers. \<open>running\<close> lists the goroutines the manager has started, as
  the timer each fires and its delay and period in seconds; \<open>stopped\<close> the timers that were stopped.
  \<open>new(TimerMgr)\<close> leaves the map nil, which reads as the empty map.
\<close>

section \<open>The operations\<close>

definition TIMER_DELAY :: int where "TIMER_DELAY = 1"
definition TIMER_PERIOD :: int where "TIMER_PERIOD = 2"

record 'v TimerInfo =
  timerId :: string
  ntype :: int
  timerValue :: 'v

record 'v TimerMgr =
  timers :: "string \<rightharpoonup> 'v TimerInfo"
  timer_lock :: bool
  running :: "('v TimerInfo \<times> int \<times> int) list"
  stopped :: "'v TimerInfo list"

definition GetTimerMgrInstance :: "'v TimerMgr" where
  "GetTimerMgrInstance = \<lparr>timers = Map.empty, timer_lock = False, running = [], stopped = []\<rparr>"

definition timer_critical :: "('v TimerMgr \<Rightarrow> ('v TimerMgr \<times> 'a) option) \<Rightarrow> 'v TimerMgr \<Rightarrow> ('v TimerMgr \<times> 'a) outcome" where
  "timer_critical = critical timer_lock (\<lambda>b. timer_lock_update (\<lambda>_. b))"

interpretation timer_mutex: mutex timer_lock "\<lambda>b. timer_lock_update (\<lambda>_. b)"
  by unfold_locales simp_all

definition add_timer :: "'v TimerMgr \<Rightarrow> 'v TimerInfo \<Rightarrow> ('v TimerMgr \<times> string option) outcome" where
  "add_timer p t = timer_critical (\<lambda>p.
     if timers p (timerId t) \<noteq> None then Some (p, Some ''exists timer'') else Some (p, None)) p"

definition SetTimerDelay :: "'v TimerMgr \<Rightarrow> string \<Rightarrow> 'v \<Rightarrow> int \<Rightarrow> ('v TimerMgr \<times> string option) outcome" where
  "SetTimerDelay p tid value delay =
     (let ti = \<lparr>timerId = tid, ntype = TIMER_DELAY, timerValue = value\<rparr>
      in obind (add_timer p ti) (\<lambda>(p, err).
           case err of
             Some e \<Rightarrow> Ret (p, Some e)
           | None \<Rightarrow> Ret (p\<lparr>running := running p @ [(ti, delay, 0)]\<rparr>, None)))"

text \<open>\<^verbatim>\<open>time.NewTicker\<close> panics on an interval that is not positive; the product wraps.\<close>

definition SetTimerPeriod :: "'v TimerMgr \<Rightarrow> string \<Rightarrow> 'v \<Rightarrow> int \<Rightarrow> int \<Rightarrow> ('v TimerMgr \<times> string option) outcome" where
  "SetTimerPeriod p tid value delay period =
     (if i64 (period * 1000000000) \<le> 0 then Crash
      else let ti = \<lparr>timerId = tid, ntype = TIMER_PERIOD, timerValue = value\<rparr>
           in obind (add_timer p ti) (\<lambda>(p, err).
                case err of
                  Some e \<Rightarrow> Ret (p, Some e)
                | None \<Rightarrow> Ret (p\<lparr>running := running p @ [(ti, delay, period)]\<rparr>, None)))"

definition IsExistsTimer :: "'v TimerMgr \<Rightarrow> string \<Rightarrow> ('v TimerMgr \<times> bool) outcome" where
  "IsExistsTimer p tid = timer_critical (\<lambda>p. Some (p, timers p tid \<noteq> None)) p"

text \<open>\<open>CancelTimer\<close> returns from the not-found branch with the mutex held.\<close>

definition CancelTimer :: "'v TimerMgr \<Rightarrow> string \<Rightarrow> ('v TimerMgr \<times> string option) outcome" where
  "CancelTimer p tid =
     obind (Lock (timer_lock p)) (\<lambda>b.
       let p = p\<lparr>timer_lock := b\<rparr>
       in case timers p tid of
            None \<Rightarrow> Ret (p, Some ''no exists timer'')
          | Some ti \<Rightarrow>
            let p = p\<lparr>timers := (timers p)(tid := None)\<rparr>
            in obind (Unlock (timer_lock p)) (\<lambda>b. Ret (p\<lparr>timer_lock := b, stopped := ti # stopped p\<rparr>, None)))"

section \<open>Timers of the server\<close>

text \<open>
  \<^verbatim>\<open>src/net/tcp/tcp_server.go\<close>: a timer set through the server carries the handler whose \<^verbatim>\<open>OnTimer\<close> it calls,
  with the timer's id and value.
\<close>

record 'v NetTimerParam =
  ntId :: string
  ntType :: int
  ntDelay :: int
  ntPeriod :: int
  ntValue :: 'v

record ('h, 'v) CbTimerValue =
  cbHandle :: 'h
  cbValue :: 'v

definition SetTimer ::
  "('h, 'v) CbTimerValue TimerMgr \<Rightarrow> 'v NetTimerParam \<Rightarrow> 'h \<Rightarrow> (('h, 'v) CbTimerValue TimerMgr \<times> string option) outcome" where
  "SetTimer p param handle =
     (let cb_value = \<lparr>cbHandle = handle, cbValue = ntValue param\<rparr>
      in if ntType param = TIMER_DELAY then SetTimerDelay p (ntId param) cb_value (ntDelay param)
         else SetTimerPeriod p (ntId param) cb_value (ntDelay param) (ntPeriod param))"

definition TimerCallback :: "('h \<Rightarrow> string \<Rightarrow> 'v \<Rightarrow> 'a) \<Rightarrow> string \<Rightarrow> ('h, 'v) CbTimerValue \<Rightarrow> 'a" where
  "TimerCallback OnTimer tid cb_value = OnTimer (cbHandle cb_value) tid (cbValue cb_value)"

section \<open>Every run\<close>

inductive timer_step :: "'v TimerMgr \<Rightarrow> 'v TimerMgr \<Rightarrow> bool" where
  set_delay: "SetTimerDelay p tid v d = Ret (p', err) \<Longrightarrow> timer_step p p'"
| set_period: "SetTimerPeriod p tid v d n = Ret (p', err) \<Longrightarrow> timer_step p p'"
| is_exists: "IsExistsTimer p tid = Ret (p', b) \<Longrightarrow> timer_step p p'"
| cancel: "CancelTimer p tid = Ret (p', err) \<Longrightarrow> timer_step p p'"

inductive timer_reachable :: "'v TimerMgr \<Rightarrow> bool" where
  timer_start: "timer_reachable GetTimerMgrInstance"
| timer_move: "timer_reachable p \<Longrightarrow> timer_step p p' \<Longrightarrow> timer_reachable p'"

inductive_cases timer_stepE: "timer_step p p'"

text \<open>No operation stores a timer, so the map stays empty and nothing is ever stopped.\<close>

definition no_timers :: "'v TimerMgr \<Rightarrow> bool" where
  "no_timers p \<longleftrightarrow> timers p = Map.empty \<and> stopped p = []"

lemma add_timer_eq: "no_timers p \<Longrightarrow> add_timer p t = (if timer_lock p then Blocked else Ret (p, None))"
  by (simp add: add_timer_def timer_critical_def timer_mutex.blocks timer_mutex.reads no_timers_def)

lemma CancelTimer_eq: "no_timers p \<Longrightarrow>
    CancelTimer p tid = (if timer_lock p then Blocked else Ret (p\<lparr>timer_lock := True\<rparr>, Some ''no exists timer''))"
  by (simp add: CancelTimer_def no_timers_def)

lemma IsExistsTimer_eq: "no_timers p \<Longrightarrow> IsExistsTimer p tid = (if timer_lock p then Blocked else Ret (p, False))"
  by (simp add: IsExistsTimer_def timer_critical_def timer_mutex.blocks timer_mutex.reads no_timers_def)

lemma SetTimerDelay_eq: "no_timers p \<Longrightarrow> SetTimerDelay p tid v d =
    (if timer_lock p then Blocked
     else Ret (p\<lparr>running := running p @ [(\<lparr>timerId = tid, ntype = TIMER_DELAY, timerValue = v\<rparr>, d, 0)]\<rparr>, None))"
  by (simp add: SetTimerDelay_def add_timer_eq)

lemma SetTimerPeriod_eq: "no_timers p \<Longrightarrow> SetTimerPeriod p tid v d n =
    (if i64 (n * 1000000000) \<le> 0 then Crash else if timer_lock p then Blocked
     else Ret (p\<lparr>running := running p @ [(\<lparr>timerId = tid, ntype = TIMER_PERIOD, timerValue = v\<rparr>, d, n)]\<rparr>, None))"
  by (simp add: SetTimerPeriod_def add_timer_eq)

lemma timer_step_no_timers: "timer_step p p' \<Longrightarrow> no_timers p \<Longrightarrow> no_timers p'"
  by (erule timer_stepE)
    (auto simp: SetTimerDelay_eq SetTimerPeriod_eq IsExistsTimer_eq CancelTimer_eq no_timers_def split: if_splits)

lemma timer_reachable_no_timers: "timer_reachable p \<Longrightarrow> no_timers p"
  by (induction rule: timer_reachable.induct)
    (auto simp: no_timers_def GetTimerMgrInstance_def dest: timer_step_no_timers [unfolded no_timers_def])

section \<open>Properties\<close>

text \<open>
  C30: timers cannot be told apart or cancelled. In every state the manager can reach, an id is never
  known, so setting a timer under the same id again starts a second goroutine instead of failing;
  \<open>CancelTimer\<close> of any id reports that there is no such timer, stops nothing, and leaves the mutex
  held, so that every later operation blocks.
\<close>

theorem timers_never_cancelled:
  assumes "timer_reachable p" "\<not> timer_lock p"
  shows "IsExistsTimer p tid = Ret (p, False) \<and> stopped p = [] \<and>
    (\<exists>p1 p2. SetTimerDelay p tid v 5 = Ret (p1, None) \<and> SetTimerDelay p1 tid v 5 = Ret (p2, None) \<and>
       length (filter (\<lambda>(t, _). timerId t = tid) (running p2)) = length (filter (\<lambda>(t, _). timerId t = tid) (running p)) + 2) \<and>
    (\<exists>p3. CancelTimer p tid = Ret (p3, Some ''no exists timer'') \<and> running p3 = running p \<and> stopped p3 = [] \<and>
       (\<forall>i w d. IsExistsTimer p3 i = Blocked \<and> CancelTimer p3 i = Blocked \<and> SetTimerDelay p3 i w d = Blocked \<and>
          SetTimerPeriod p3 i w d 1 = Blocked))"
proof -
  note n = timer_reachable_no_timers [OF assms(1)]
  have n2: "no_timers (p\<lparr>running := r\<rparr>)" "no_timers (p\<lparr>timer_lock := True\<rparr>)" for r
    using n by (simp_all add: no_timers_def)
  have 1: "i64 (1 * 1000000000) = 1000000000" by (simp add: i64_id is_i64_def)
  show ?thesis using n n2 1 assms(2)
    by (simp add: IsExistsTimer_eq SetTimerDelay_eq CancelTimer_eq SetTimerPeriod_eq)
      (simp add: no_timers_def)
qed

theorem timers_never_cancelled_witness:
  "\<exists>p3. CancelTimer (GetTimerMgrInstance :: unit TimerMgr) ''t'' = Ret (p3, Some ''no exists timer'') \<and>
     IsExistsTimer p3 ''t'' = Blocked"
proof -
  have "\<not> timer_lock (GetTimerMgrInstance :: unit TimerMgr)" by (simp add: GetTimerMgrInstance_def)
  from timers_never_cancelled [OF timer_start this, of "''t''"] show ?thesis by blast
qed

end
