(* ===== verification/Gateway.thy ===== *)
theory Gateway
  imports UserConnMgr OnlineHandle CommonUtil NetUtil TimerMgr
begin

text \<open>
  \<^verbatim>\<open>src/server/gateway/define/packet.go\<close> and the two handlers of the gateway,
  \<^verbatim>\<open>src/server/gateway/handle/{gateway_handle,service_handle}.go\<close>. The clients talk to the first,
  the pusher to the second. A handler threads the connection manager of \<open>UserConnMgr\<close> and returns
  what it does to the outside, in order: the requests it hands to the container, the packets it
  pushes to channels and the channels it closes. \<open>'j\<close> is the type of the values
  \<^verbatim>\<open>encoding/json\<close> decodes a body to.
\<close>

section \<open>Packets\<close>

definition GW_LOGIN :: string where "GW_LOGIN = ''GW_LOGIN''"
definition GW_LOGOUT :: string where "GW_LOGOUT = ''GW_LOGOUT''"
definition GW_HEARTBEAT :: string where "GW_HEARTBEAT = ''GW_HEARTBEAT''"
definition GW_CMD :: string where "GW_CMD = ''GW_CMD''"
definition GW_PUSH :: string where "GW_PUSH = ''GW_PUSH''"
definition GW_DIRECT_RESP :: int where "GW_DIRECT_RESP = 1"
definition ERR_USER_CONN_NOT_EXISTS :: string where "ERR_USER_CONN_NOT_EXISTS = ''user conn not exist''"
definition GW_SERVICE_NAME :: string where "GW_SERVICE_NAME = ''gateway''"

lemmas gw_names = GW_LOGIN_def GW_LOGOUT_def GW_HEARTBEAT_def GW_CMD_def GW_PUSH_def

record MGatewayHeader =
  gwUid :: string
  gwCmd :: string
  gwDirect :: int

record 'j MPushItem =
  itemCmd :: string
  itemBody :: 'j

record 'j MPushPacket =
  Count :: int
  PushItems :: "'j MPushItem list"

record 'j MIPushReq =
  pushUids :: "string list"
  pushCmd :: string
  pushBody :: 'j

text \<open>The dynamic types a body has: what JSON decodes to, or one of the code's own.\<close>

datatype 'j gw_body =
  JsonValue 'j
| ServicePacket "'j MServicePacket"
| GWLoginResp string
| GWLogoutResp string
| GWHeartbeatResp string
| PushPacket "'j MPushPacket"

datatype 'j ms_body =
  MsJson 'j
| MsPushReq "'j MIPushReq"

record 'j MGatewayPacket =
  gwHeader :: MGatewayHeader
  gwBody :: "'j gw_body"

definition gw_CreateRespPacket :: "string \<Rightarrow> string \<Rightarrow> 'j gw_body \<Rightarrow> 'j MGatewayPacket" where
  "gw_CreateRespPacket uid cmd body =
     \<lparr>gwHeader = \<lparr>gwUid = uid, gwCmd = cmd, gwDirect = GW_DIRECT_RESP\<rparr>, gwBody = body\<rparr>"

section \<open>The client side\<close>

datatype ol_req = OLLoginReq UserNode | OLLogoutReq string | OLHeartbeatReq UserNode

text \<open>A pushed packet is a pointer: \<^term>\<open>None\<close> is nil inside a non-nil interface value.\<close>

datatype 'j gw_effect =
  Casts "32 word" "ol_req MServicePacket"
| Pushes string "'j MGatewayPacket option"
| Closes string

record GatewayHandle =
  gwHost :: string
  gwPort :: int

text \<open>
  \<open>Init\<close>: the arguments are what \<open>GetIfaceIpAddr\<close> returns, the configured port and heartbeat; the timer
  of the eliminations goes to the timer manager, and the error of \<open>SetTimer\<close> is ignored.
\<close>

definition gw_Init ::
  "string + string \<Rightarrow> int \<Rightarrow> int \<Rightarrow> (GatewayHandle, unit) CbTimerValue TimerMgr \<Rightarrow>
   ((GatewayHandle, unit) CbTimerValue TimerMgr \<times> (string + GatewayHandle)) outcome" where
  "gw_Init iface_ip Port UserHeartbeatSec timer_mgr =
     (let param = \<lparr>ntId = ''eliminate_user'', ntType = TIMER_PERIOD, ntDelay = 0, ntPeriod = i64 (UserHeartbeatSec * 3), ntValue = ()\<rparr>
      in case iface_ip of
           Inl err \<Rightarrow> Ret (timer_mgr, Inl err)
         | Inr ip \<Rightarrow>
           let p = \<lparr>gwHost = ip, gwPort = Port\<rparr>
           in obind (SetTimer timer_mgr param p) (\<lambda>(timer_mgr, _). Ret (timer_mgr, Inr p)))"

text \<open>
  One tick of \<open>report_dns\<close>: what is posted to the url, if anything. Encoding the report is an argument.
\<close>

record NodeReport =
  nrName :: string
  nrHost :: string
  nrPort :: int
  nrConnCount :: int

definition report_dns_tick ::
  "string + string \<Rightarrow> int \<Rightarrow> string \<Rightarrow> (NodeReport \<Rightarrow> string + 'bytes) \<Rightarrow> GWUserConnMgr \<Rightarrow>
   (GWUserConnMgr \<times> (string \<times> 'bytes) option) outcome" where
  "report_dns_tick iface_ip Port Url marshal m =
     (case iface_ip of
        Inl err \<Rightarrow> Ret (m, None)
      | Inr ip \<Rightarrow>
        obind (GetCount m) (\<lambda>(m, n).
          let report = \<lparr>nrName = ''gateway'', nrHost = ip, nrPort = Port, nrConnCount = n\<rparr>
          in case marshal report of Inl err \<Rightarrow> Ret (m, None) | Inr content \<Rightarrow> Ret (m, Some (Url, content))))"

record 'j gw_env =
  gwServiceId :: string
  gwNow :: int
  gwDraws :: "nat list"
  gwUuid :: "nat \<Rightarrow> string"
  gwCall :: "32 word \<Rightarrow> 'j MServicePacket \<Rightarrow> string + 'j MServicePacket"

text \<open>\<^verbatim>\<open>container.Cast\<close>: the request it puts into the queue of the service's proxy.\<close>

definition Cast :: "string \<Rightarrow> 32 word \<Rightarrow> string \<Rightarrow> string \<Rightarrow> ol_req \<Rightarrow> 'j gw_effect" where
  "Cast uuid hash service method req = Casts hash (CreateReqPacket uuid service method MS_CAST req)"

type_synonym 'j gw_handled =
  "(GWUserConnMgr \<times> 'j gw_effect list \<times> 'j MGatewayPacket option \<times> error option) outcome"

definition gw_do_login :: "'j gw_env \<Rightarrow> GatewayHandle \<Rightarrow> string \<Rightarrow> 'j MGatewayPacket \<Rightarrow> GWUserConnMgr \<Rightarrow> 'j gw_handled" where
  "gw_do_login env p channel_id req m =
     (let uid = gwUid (gwHeader req)
      in obind (AddUserConn m uid channel_id (gwNow env) (gwDraws env)) (\<lambda>(m, err).
           let casts = (if err = None
                        then [Cast (gwUuid env 0) (GenHash uid) SERVICE_NAME MS_ONLINE_LOGIN
                                (OLLoginReq \<lparr>nUid = uid, nServiceId = gwServiceId env, nHost = gwHost p, nPort = gwPort p\<rparr>)]
                        else [])
           in Ret (m, casts, Some (gw_CreateRespPacket uid (gwCmd (gwHeader req)) (GWLoginResp (err_text err))), None)))"

definition gw_do_logout :: "'j gw_env \<Rightarrow> 'j MGatewayPacket \<Rightarrow> GWUserConnMgr \<Rightarrow> 'j gw_handled" where
  "gw_do_logout env req m =
     (let uid = gwUid (gwHeader req)
      in obind (RemoveUserConn m uid) (\<lambda>(m, ok).
           let casts = (if ok then [Cast (gwUuid env 0) (GenHash uid) SERVICE_NAME MS_ONLINE_LOGOUT (OLLogoutReq uid)] else []);
               err = (if ok then '''' else ERR_USER_CONN_NOT_EXISTS)
           in Ret (m, casts, Some (gw_CreateRespPacket uid (gwCmd (gwHeader req)) (GWLogoutResp err)), None)))"

text \<open>The heartbeat's user node has no host and no port: they are the zero values.\<close>

definition gw_do_heartbeat :: "'j gw_env \<Rightarrow> 'j MGatewayPacket \<Rightarrow> GWUserConnMgr \<Rightarrow> 'j gw_handled" where
  "gw_do_heartbeat env req m =
     (let uid = gwUid (gwHeader req)
      in obind (RefreshUserConn m uid (gwNow env) (gwDraws env)) (\<lambda>(m, _).
           Ret (m,
             [Cast (gwUuid env 0) (GenHash uid) SERVICE_NAME MS_ONLINE_HEARTBEAT
                (OLHeartbeatReq \<lparr>nUid = uid, nServiceId = gwServiceId env, nHost = '''', nPort = 0\<rparr>)],
             Some (gw_CreateRespPacket uid (gwCmd (gwHeader req)) (GWHeartbeatResp '''')), None)))"

text \<open>\<^verbatim>\<open>req.Body.(*MServicePacket)\<close> panics unless the body has exactly that type.\<close>

definition gw_do_cmd :: "'j gw_env \<Rightarrow> 'j MGatewayPacket \<Rightarrow> GWUserConnMgr \<Rightarrow> 'j gw_handled" where
  "gw_do_cmd env req m =
     (case gwBody req of
        ServicePacket req_packet \<Rightarrow>
          (case gwCall env (GenHash (gwUid (gwHeader req))) req_packet of
             Inl err \<Rightarrow> Ret (m, [], None, Some err)
           | Inr resp_packet \<Rightarrow>
               Ret (m, [], Some (gw_CreateRespPacket (gwUid (gwHeader req)) (gwCmd (gwHeader req)) (ServicePacket resp_packet)), None))
      | _ \<Rightarrow> Crash)"

text \<open>
  \<open>OnMessage\<close>: each branch assigns a \<^verbatim>\<open>*MGatewayPacket\<close> to the interface variable \<^verbatim>\<open>resp_packet\<close>, so the test
  against nil holds after any branch, also when the pointer is nil.
\<close>

definition gw_OnMessage ::
  "'j gw_env \<Rightarrow> GatewayHandle \<Rightarrow> string \<Rightarrow> 'j MGatewayPacket \<Rightarrow> GWUserConnMgr \<Rightarrow>
   (GWUserConnMgr \<times> 'j gw_effect list \<times> error option) outcome" where
  "gw_OnMessage env p channel_id packet m =
     (let cmd = gwCmd (gwHeader packet);
          push = (\<lambda>(m, effects, resp, err). Ret (m, effects @ [Pushes channel_id resp], err))
      in if cmd = GW_LOGIN then obind (gw_do_login env p channel_id packet m) push
         else if cmd = GW_LOGOUT then obind (gw_do_logout env packet m) push
         else if cmd = GW_HEARTBEAT then obind (gw_do_heartbeat env packet m) push
         else if cmd = GW_CMD then obind (gw_do_cmd env packet m) push
         else Ret (m, [], None))"

fun eliminated :: "(nat \<Rightarrow> string) \<Rightarrow> nat \<Rightarrow> UserConnInfo list \<Rightarrow> 'j gw_effect list" where
  "eliminated uuid k [] = []"
| "eliminated uuid k (user # users) =
     Cast (uuid k) (GenHash (Uid user)) SERVICE_NAME MS_ONLINE_LOGOUT (OLLogoutReq (Uid user)) #
     Closes (ChannelId user) # eliminated uuid (Suc k) users"

definition eliminate_user :: "'j gw_env \<Rightarrow> GWUserConnMgr \<Rightarrow> (GWUserConnMgr \<times> 'j gw_effect list) outcome" where
  "eliminate_user env m =
     obind (EliminateTimeoutUserConns m (gwNow env)) (\<lambda>(m, users). Ret (m, eliminated (gwUuid env) 0 users))"

definition gw_OnTimer :: "'j gw_env \<Rightarrow> string \<Rightarrow> GWUserConnMgr \<Rightarrow> (GWUserConnMgr \<times> 'j gw_effect list) outcome" where
  "gw_OnTimer env timer_id m = (if timer_id = ''eliminate_user'' then eliminate_user env m else Ret (m, []))"

section \<open>The service side\<close>

definition convert_push_packets :: "'j MIPushReq \<Rightarrow> 'j MPushPacket" where
  "convert_push_packets req =
     (let push_item = \<lparr>itemCmd = pushCmd req, itemBody = pushBody req\<rparr>
      in \<lparr>Count = 1, PushItems = [push_item]\<rparr>)"

fun push_loop :: "'j MPushPacket \<Rightarrow> string list \<Rightarrow> GWUserConnMgr \<Rightarrow> (GWUserConnMgr \<times> 'j gw_effect list) outcome" where
  "push_loop push_packet [] m = Ret (m, [])"
| "push_loop push_packet (uid # uids) m =
     obind (GetChannelId m uid) (\<lambda>(m, cid, ok).
       let out = (if ok then [Pushes cid (Some \<lparr>gwHeader = \<lparr>gwUid = uid, gwCmd = GW_PUSH, gwDirect = 0\<rparr>,
                                                gwBody = PushPacket push_packet\<rparr>)] else [])
       in obind (push_loop push_packet uids m) (\<lambda>(m, outs). Ret (m, out @ outs)))"

definition service_OnMessage ::
  "'j ms_body MServicePacket \<Rightarrow> GWUserConnMgr \<Rightarrow> (GWUserConnMgr \<times> 'j gw_effect list \<times> error option) outcome" where
  "service_OnMessage mpacket m =
     (if Service (Header mpacket) \<noteq> GW_SERVICE_NAME then Ret (m, [], None)
      else case Body mpacket of
        MsPushReq push_req \<Rightarrow>
          obind (push_loop (convert_push_packets push_req) (pushUids push_req) m) (\<lambda>(m, outs). Ret (m, outs, None))
      | MsJson j \<Rightarrow> Crash)"

section \<open>What the handlers do\<close>

definition login_cast :: "'j gw_env \<Rightarrow> GatewayHandle \<Rightarrow> string \<Rightarrow> 'j gw_effect" where
  "login_cast env p uid = Cast (gwUuid env 0) (GenHash uid) SERVICE_NAME MS_ONLINE_LOGIN
     (OLLoginReq \<lparr>nUid = uid, nServiceId = gwServiceId env, nHost = gwHost p, nPort = gwPort p\<rparr>)"

definition pushed :: "'j MPushPacket \<Rightarrow> string \<Rightarrow> UserConnInfo \<Rightarrow> 'j gw_effect" where
  "pushed push_packet uid u = Pushes (ChannelId u) (Some \<lparr>gwHeader = \<lparr>gwUid = uid, gwCmd = GW_PUSH, gwDirect = 0\<rparr>,
     gwBody = PushPacket push_packet\<rparr>)"

definition push_out :: "GWUserConnMgr \<Rightarrow> 'j MPushPacket \<Rightarrow> string \<Rightarrow> 'j gw_effect list" where
  "push_out m push_packet uid = (case user_conns m uid of Some u \<Rightarrow> [pushed push_packet uid u] | None \<Rightarrow> [])"

lemma push_loop_ok: "mgr_ok m \<sigma> \<Longrightarrow> push_loop pp uids m = Ret (m, concat (map (push_out m pp) uids))"
  by (induction uids) (simp_all add: GetChannelId_ok push_out_def pushed_def split: option.splits)

lemma gw_do_login_ok:
  assumes m: "mgr_ok m \<sigma>" and d: "draws_ok (gwDraws env)"
  shows "\<exists>m' err \<sigma>'. gw_do_login env p ch req m =
      Ret (m', if err = None then [login_cast env p (gwUid (gwHeader req))] else [],
        Some (gw_CreateRespPacket (gwUid (gwHeader req)) (gwCmd (gwHeader req)) (GWLoginResp (err_text err))), None) \<and>
    AddUserConn m (gwUid (gwHeader req)) ch (gwNow env) (gwDraws env) = Ret (m', err) \<and> mgr_ok m' \<sigma>'"
proof -
  obtain m' err where a: "AddUserConn m (gwUid (gwHeader req)) ch (gwNow env) (gwDraws env) = Ret (m', err)"
    using AddUserConn_ok(1) [OF m d, of "gwUid (gwHeader req)" ch "gwNow env"]
    by (auto split: if_splits simp del: not_None_eq)
  have "\<exists>\<sigma>'. mgr_ok m' \<sigma>'"
  proof (cases err)
    case None
    then show ?thesis using AddUserConn_ok(2) [OF m d] a by blast
  next
    case (Some e)
    then have "m' = m" using AddUserConn_ok(1) [OF m d, of "gwUid (gwHeader req)" ch "gwNow env"] a
      by (auto split: if_splits)
    then show ?thesis using m by blast
  qed
  then show ?thesis using a by (auto simp: gw_do_login_def login_cast_def Let_def)
qed

lemma gw_do_logout_ok:
  assumes m: "mgr_ok m \<sigma>"
  shows "\<exists>m' \<sigma>'. gw_do_logout env req m =
      Ret (m', if user_conns m (gwUid (gwHeader req)) \<noteq> None
               then [Cast (gwUuid env 0) (GenHash (gwUid (gwHeader req))) SERVICE_NAME MS_ONLINE_LOGOUT (OLLogoutReq (gwUid (gwHeader req)))] else [],
        Some (gw_CreateRespPacket (gwUid (gwHeader req)) (gwCmd (gwHeader req))
          (GWLogoutResp (if user_conns m (gwUid (gwHeader req)) \<noteq> None then '''' else ERR_USER_CONN_NOT_EXISTS))), None) \<and>
    mgr_ok m' \<sigma>' \<and> user_conns m' = (user_conns m)(gwUid (gwHeader req) := None)"
  using RemoveUserConn_ok [OF m, of "gwUid (gwHeader req)"] by (auto simp: gw_do_logout_def Let_def)

lemma gw_do_heartbeat_ok:
  assumes m: "mgr_ok m \<sigma>" and d: "draws_ok (gwDraws env)"
  shows "\<exists>m' \<sigma>'. gw_do_heartbeat env req m =
      Ret (m', [Cast (gwUuid env 0) (GenHash (gwUid (gwHeader req))) SERVICE_NAME MS_ONLINE_HEARTBEAT
                (OLHeartbeatReq \<lparr>nUid = gwUid (gwHeader req), nServiceId = gwServiceId env, nHost = '''', nPort = 0\<rparr>)],
        Some (gw_CreateRespPacket (gwUid (gwHeader req)) (gwCmd (gwHeader req)) (GWHeartbeatResp '''')), None) \<and>
    mgr_ok m' \<sigma>' \<and> user_conns m' = user_conns m"
  using RefreshUserConn_ok [OF m d, of "gwUid (gwHeader req)" "gwNow env"]
  by (force simp: gw_do_heartbeat_def Let_def)

section \<open>Properties\<close>

text \<open>
  C26: a client that logs in below the limit, under a user id that is not connected, is answered on
  its own channel with an empty error, the online server is told on which gateway the user is, and
  from then on a push to that user goes to that channel. Any other login is answered with the
  reason, tells nobody and changes nothing.
\<close>

theorem gateway_login_correct:
  assumes m: "mgr_ok m \<sigma>" and d: "draws_ok (gwDraws env)" and cmd: "gwCmd (gwHeader req) = GW_LOGIN"
    and uid: "uid = gwUid (gwHeader req)"
  shows "if user_conns m uid = None \<and> int (card (dom (user_conns m))) < max_conn_size m
    then \<exists>m'. gw_OnMessage env p ch req m =
           Ret (m', [login_cast env p uid, Pushes ch (Some (gw_CreateRespPacket uid GW_LOGIN (GWLoginResp '''')))], None) \<and>
         (\<forall>push_packet. \<exists>gw. push_loop push_packet [uid] m' = Ret (m', [Pushes ch (Some gw)]) \<and> gwBody gw = PushPacket push_packet)
    else \<exists>err. err \<noteq> [] \<and> gw_OnMessage env p ch req m =
           Ret (m, [Pushes ch (Some (gw_CreateRespPacket uid GW_LOGIN (GWLoginResp err)))], None)"
proof -
  obtain m' err \<sigma>' where l: "gw_do_login env p ch req m =
      Ret (m', if err = None then [login_cast env p uid] else [],
        Some (gw_CreateRespPacket uid GW_LOGIN (GWLoginResp (err_text err))), None)"
    and a: "AddUserConn m uid ch (gwNow env) (gwDraws env) = Ret (m', err)" and m': "mgr_ok m' \<sigma>'"
    using gw_do_login_ok [OF m d, of p ch req] unfolding uid cmd by blast
  have o: "gw_OnMessage env p ch req m = Ret (m', (if err = None then [login_cast env p uid] else []) @
      [Pushes ch (Some (gw_CreateRespPacket uid GW_LOGIN (GWLoginResp (err_text err))))], None)"
    using l by (simp add: gw_OnMessage_def cmd)
  note add = AddUserConn_ok(1) [OF m d, of uid ch "gwNow env"]
  show ?thesis
  proof (cases "user_conns m uid = None \<and> int (card (dom (user_conns m))) < max_conn_size m")
    case True
    then have "err = None" "user_conns m' uid = Some \<lparr>Uid = uid, ChannelId = ch, ConnectTs = gwNow env,
        ExpireTs = i64 (gwNow env + conn_timeout_sec m)\<rparr>" using a add by auto
    then show ?thesis using True o by (simp add: push_loop_ok [OF m'] err_text_def push_out_def pushed_def del: push_loop.simps)
  next
    case False
    then have "m' = m" "err \<noteq> None" "err_text err \<noteq> []"
      using a add by (auto simp: err_text_def eUidAlreadyExists_def eExceedMaxConnLimit_def split: if_splits)
    then show ?thesis using False o by (subst if_not_P [OF False]) auto
  qed
qed

definition demo_env :: "unit gw_env" where
  "demo_env = \<lparr>gwServiceId = ''gateway_1'', gwNow = 100, gwDraws = [65535], gwUuid = (\<lambda>_. ''t''), gwCall = (\<lambda>_ _. Inl ''call timeout'')\<rparr>"

definition demo_packet :: "string \<Rightarrow> unit gw_body \<Rightarrow> unit MGatewayPacket" where
  "demo_packet cmd body = \<lparr>gwHeader = \<lparr>gwUid = ''u1'', gwCmd = cmd, gwDirect = 0\<rparr>, gwBody = body\<rparr>"

lemma gw_demo_draws: "draws_ok (gwDraws demo_env)"
  by (simp add: draws_ok_def low_draw_def demo_env_def)

theorem gateway_login_correct_witness:
  "\<exists>m' c. gw_OnMessage demo_env \<lparr>gwHost = ''h'', gwPort = 1\<rparr> ''ch1'' (demo_packet GW_LOGIN (JsonValue ())) (GetUserConnsInstance 1 20) =
     Ret (m', [c, Pushes ''ch1'' (Some (gw_CreateRespPacket ''u1'' GW_LOGIN (GWLoginResp '''')))], None)"
proof -
  have new: "user_conns (GetUserConnsInstance 1 20) ''u1'' = None \<and>
      int (card (dom (user_conns (GetUserConnsInstance 1 20)))) < max_conn_size (GetUserConnsInstance 1 20)"
    by (simp add: GetUserConnsInstance_def)
  have req: "gwCmd (gwHeader (demo_packet c b)) = c" "''u1'' = gwUid (gwHeader (demo_packet c b))" for c b
    by (simp_all add: demo_packet_def)
  show ?thesis
    using gateway_login_correct [OF mgr_ok_init gw_demo_draws req, of 1 20 "\<lparr>gwHost = ''h'', gwPort = 1\<rparr>" "''ch1''" "JsonValue ()"]
    unfolding if_P [OF new] by blast
qed

lemma gw_names_distinct:
  "GW_LOGIN \<noteq> GW_CMD" "GW_LOGOUT \<noteq> GW_CMD" "GW_HEARTBEAT \<noteq> GW_CMD" "GW_LOGOUT \<noteq> GW_LOGIN"
  "GW_HEARTBEAT \<noteq> GW_LOGIN" "GW_HEARTBEAT \<noteq> GW_LOGOUT"
  by (simp_all add: gw_names)

lemma gw_OnMessage_answers:
  assumes m: "mgr_ok m \<sigma>" and d: "draws_ok (gwDraws env)"
    and cmd: "gwCmd (gwHeader req) \<in> {GW_LOGIN, GW_LOGOUT, GW_HEARTBEAT}"
  shows "\<exists>m' casts r \<sigma>'. gw_OnMessage env p ch req m = Ret (m', casts @ [Pushes ch (Some r)], None) \<and>
    mgr_ok m' \<sigma>' \<and> (\<forall>e\<in>set casts. \<exists>h q. e = Casts h q)"
proof -
  consider "gwCmd (gwHeader req) = GW_LOGIN" | "gwCmd (gwHeader req) = GW_LOGOUT" | "gwCmd (gwHeader req) = GW_HEARTBEAT"
    using cmd by blast
  then show ?thesis
  proof cases
    case 1
    then show ?thesis using gw_do_login_ok [OF m d, of p ch req]
      by (fastforce simp: gw_OnMessage_def login_cast_def Cast_def Let_def)
  next
    case 2
    then show ?thesis using gw_do_logout_ok [OF m, of env req]
      by (fastforce simp: gw_OnMessage_def Cast_def Let_def gw_names_distinct)
  next
    case 3
    then show ?thesis using gw_do_heartbeat_ok [OF m d, of req]
      by (fastforce simp: gw_OnMessage_def Cast_def Let_def gw_names_distinct)
  qed
qed

lemma gw_OnMessage_cmd:
  "gwCmd (gwHeader req) = GW_CMD \<Longrightarrow> gw_OnMessage env p ch req m =
    (case gwBody req of
       ServicePacket q \<Rightarrow>
         (case gwCall env (GenHash (gwUid (gwHeader req))) q of
            Inl e \<Rightarrow> Ret (m, [Pushes ch None], Some e)
          | Inr resp \<Rightarrow> Ret (m, [Pushes ch (Some (gw_CreateRespPacket (gwUid (gwHeader req)) GW_CMD (ServicePacket resp)))], None))
     | _ \<Rightarrow> Crash)"
  using gw_names_distinct by (simp add: gw_OnMessage_def gw_do_cmd_def Let_def split: gw_body.split sum.split)

lemma gw_OnMessage_other:
  "gwCmd (gwHeader req) \<notin> {GW_LOGIN, GW_LOGOUT, GW_HEARTBEAT, GW_CMD} \<Longrightarrow> gw_OnMessage env p ch req m = Ret (m, [], None)"
  by (simp add: gw_OnMessage_def Let_def)



lemma eliminated_effects:
  "map (\<lambda>e. case e of Closes c \<Rightarrow> Inl c | Casts h q \<Rightarrow> Inr (Body q) | Pushes c r \<Rightarrow> Inl '''') (eliminated uuid k users) =
     concat (map (\<lambda>u. [Inr (OLLogoutReq (Uid u)), Inl (ChannelId u)]) users)"
  by (induction users arbitrary: k) (simp_all add: Cast_def CreateReqPacket_def)

lemma eliminated_no_push: "Pushes c r \<notin> set (eliminated uuid k users)"
  by (induction users arbitrary: k) (simp_all add: Cast_def)





end
