(* ===== verification/GoChan.thy ===== *)
theory GoChan
  imports Sync
begin

text \<open>
  Go channels. A send on a nil channel, or on a full one nobody reads, does not return; a send on a
  closed channel, and closing a nil or closed channel, panics. \<^term>\<open>Crash\<close> is a panic here, which
  the callers of the code often recover from: \<open>recovering\<close> is a call inside such a function.
\<close>

record 'a gochan =
  buf :: "'a list"
  cap :: nat
  closed :: bool

definition make_chan :: "nat \<Rightarrow> 'a gochan" where
  "make_chan n = \<lparr>buf = [], cap = n, closed = False\<rparr>"

definition chan_send :: "'a gochan option \<Rightarrow> 'a \<Rightarrow> 'a gochan outcome" where
  "chan_send c x =
     (case c of
        None \<Rightarrow> Blocked
      | Some c \<Rightarrow> if closed c then Crash
                  else if length (buf c) < cap c then Ret (c\<lparr>buf := buf c @ [x]\<rparr>)
                  else Blocked)"

definition chan_close :: "'a gochan option \<Rightarrow> 'a gochan outcome" where
  "chan_close c =
     (case c of None \<Rightarrow> Crash | Some c \<Rightarrow> if closed c then Crash else Ret (c\<lparr>closed := True\<rparr>))"

text \<open>\<open>x, ok := <-c\<close>: \<^term>\<open>None\<close> is \<open>!ok\<close>.\<close>

definition chan_recv :: "'a gochan \<Rightarrow> ('a gochan \<times> 'a option) outcome" where
  "chan_recv c =
     (case buf c of
        x # xs \<Rightarrow> Ret (c\<lparr>buf := xs\<rparr>, Some x)
      | [] \<Rightarrow> if closed c then Ret (c, None) else Blocked)"

fun recovering :: "'b \<Rightarrow> ('a \<Rightarrow> 'b outcome) \<Rightarrow> 'a outcome \<Rightarrow> 'b outcome" where
  "recovering r f (Ret x) = f x"
| "recovering r f Blocked = Blocked"
| "recovering r f Crash = Ret r"

lemma chan_send_Ret:
  "chan_send (Some c) x = Ret c' \<longleftrightarrow> \<not> closed c \<and> length (buf c) < cap c \<and> c' = c\<lparr>buf := buf c @ [x]\<rparr>"
  by (auto simp: chan_send_def)

lemma chan_send_keeps: "chan_send (Some c) x = Ret c' \<Longrightarrow> closed c' = closed c \<and> cap c' = cap c"
  by (auto simp: chan_send_Ret)

text \<open>What is sent on an open channel with room is received, after what was sent before.\<close>

lemma chan_fifo:
  assumes "chan_send (Some c) x = Ret c'"
  shows "(case chan_recv c' of Ret (c2, y) \<Rightarrow> (if buf c = [] then y = Some x \<and> c2 = c
      else y = Some (hd (buf c)) \<and> buf c2 = tl (buf c) @ [x]) | _ \<Rightarrow> False)"
  using assms by (cases "buf c") (auto simp: chan_send_Ret chan_recv_def)

end
