(* ===== verification/TcpServer.thy ===== *)
theory TcpServer
  imports GoChan
begin

text \<open>
  \<^verbatim>\<open>src/net/net_core/channel.go\<close> (the channel, without its two loops, which are in \<open>Wire\<close>, and the
  channel table) and \<^verbatim>\<open>src/net/tcp/tcp_server.go\<close>. Channels are pointers: \<open>chans\<close> is the heap of the
  channels created so far, the table \<open>chmap\<close> maps an id to its pointer, and the goroutine of a
  connection keeps the pointer. \<open>open_socks\<close> are the listening sockets, named by their address.
\<close>

section \<open>Channels\<close>

record 'p Channel =
  channelId :: string
  chSend :: "'p gochan"
  connOpen :: bool

definition kInternalError :: string where "kInternalError = ''internal error''"
definition kNoChannel :: string where "kNoChannel = ''no channel exists''"

definition NewChannel :: "string \<Rightarrow> 'p Channel" where
  "NewChannel i = \<lparr>channelId = i, chSend = make_chan 100, connOpen = True\<rparr>"

definition Push :: "'p Channel \<Rightarrow> 'p \<Rightarrow> ('p Channel \<times> string option) outcome" where
  "Push p packet =
     recovering (p, Some kInternalError) (\<lambda>c. Ret (p\<lparr>chSend := c\<rparr>, None)) (chan_send (Some (chSend p)) packet)"

definition Close :: "'p Channel \<Rightarrow> ('p Channel \<times> string option) outcome" where
  "Close p =
     recovering (p, Some kInternalError) (\<lambda>c. Ret (p\<lparr>chSend := c, connOpen := False\<rparr>, None)) (chan_close (Some (chSend p)))"

section \<open>The channel table and the server\<close>

record 'p TcpServer =
  srv_socks :: "string \<rightharpoonup> string"
  open_socks :: "string list"
  chans :: "nat \<Rightarrow> 'p Channel"
  chan_count :: nat
  chmap :: "string \<rightharpoonup> nat"

definition NetServer :: "'p TcpServer" where
  "NetServer = \<lparr>srv_socks = Map.empty, open_socks = [], chans = (\<lambda>_. NewChannel ''''), chan_count = 0, chmap = Map.empty\<rparr>"

definition channels_Add :: "'p TcpServer \<Rightarrow> nat \<Rightarrow> 'p TcpServer" where
  "channels_Add p k =
     (if channelId (chans p k) = '''' then p
      else p\<lparr>chmap := (chmap p)(channelId (chans p k) \<mapsto> k)\<rparr>)"

definition channels_Remove :: "'p TcpServer \<Rightarrow> string \<Rightarrow> 'p TcpServer" where
  "channels_Remove p i = p\<lparr>chmap := (chmap p)(i := None)\<rparr>"

definition channels_Get :: "'p TcpServer \<Rightarrow> string \<Rightarrow> nat option" where
  "channels_Get p i = (if i = '''' then None else chmap p i)"

definition channels_LoadAndDelete :: "'p TcpServer \<Rightarrow> string \<Rightarrow> 'p TcpServer \<times> nat option" where
  "channels_LoadAndDelete p i = (p\<lparr>chmap := (chmap p)(i := None)\<rparr>, chmap p i)"

text \<open>
  \<open>All\<close> asserts the type \<^verbatim>\<open>Channel\<close> of values stored as \<^verbatim>\<open>*Channel\<close>: \<open>ids\<close> are the keys in the order the
  range visits them, and the first entry panics.
\<close>

fun channels_All :: "'p TcpServer \<Rightarrow> string list \<Rightarrow> 'p Channel list option" where
  "channels_All p [] = Some []"
| "channels_All p (i # ids) = (case chmap p i of None \<Rightarrow> channels_All p ids | Some k \<Rightarrow> None)"

definition set_channel :: "'p TcpServer \<Rightarrow> nat \<Rightarrow> 'p Channel \<Rightarrow> 'p TcpServer" where
  "set_channel p k c = p\<lparr>chans := (chans p)(k := c)\<rparr>"

definition PushChannel :: "'p TcpServer \<Rightarrow> string \<Rightarrow> 'p \<Rightarrow> ('p TcpServer \<times> string option) outcome" where
  "PushChannel p i packet =
     (case channels_Get p i of
        None \<Rightarrow> Ret (p, Some kNoChannel)
      | Some k \<Rightarrow> obind (Push (chans p k) packet) (\<lambda>(c, _). Ret (set_channel p k c, None)))"

definition CloseChannel :: "'p TcpServer \<Rightarrow> string \<Rightarrow> ('p TcpServer \<times> string option) outcome" where
  "CloseChannel p i =
     (case channels_LoadAndDelete p i of
        (p, None) \<Rightarrow> Ret (p, Some kNoChannel)
      | (p, Some k) \<Rightarrow> obind (Close (chans p k)) (\<lambda>(c, _). Ret (set_channel p k c, None)))"

text \<open>
  The goroutine of an accepted connection, up to its \<^verbatim>\<open>RecvLoop\<close> and from there on. \<open>accepted\<close> is what
  \<^verbatim>\<open>OnAccept\<close> returned; \<^term>\<open>None\<close> in the result: the goroutine has ended and the connection is left.
\<close>

definition accept_conn :: "'p TcpServer \<Rightarrow> string + string \<Rightarrow> 'p TcpServer \<times> nat option" where
  "accept_conn p accepted =
     (case accepted of
        Inl err \<Rightarrow> (p, None)
      | Inr i \<Rightarrow>
        if channels_Get p i \<noteq> None then (p, None)
        else let k = chan_count p;
                 p1 = (set_channel p k (NewChannel i))\<lparr>chan_count := Suc k\<rparr>
             in (channels_Add p1 k, Some k))"

definition finish_conn :: "'p TcpServer \<Rightarrow> nat \<Rightarrow> 'p TcpServer outcome" where
  "finish_conn p k =
     obind (Close (chans p k)) (\<lambda>(c, _). Ret (channels_Remove (set_channel p k c) (channelId c)))"

text \<open>One packet leaves the send queue (\<^verbatim>\<open>for packet := range p.chSend\<close>).\<close>

definition take_packet :: "'p TcpServer \<Rightarrow> nat \<Rightarrow> ('p TcpServer \<times> 'p option) outcome" where
  "take_packet p k =
     obind (chan_recv (chSend (chans p k))) (\<lambda>(c, x). Ret (set_channel p k ((chans p k)\<lparr>chSend := c\<rparr>), x))"

text \<open>
  \<open>Start\<close>: a parameter is a server's name and address, \<open>listen\<close> says whether listening works. The
  first failure returns; \<open>release\<close> runs at every return.
\<close>

fun listen_loop :: "(string \<Rightarrow> bool) \<Rightarrow> (string \<times> string) list \<Rightarrow> 'p TcpServer \<Rightarrow> 'p TcpServer \<times> bool" where
  "listen_loop listen [] p = (p, True)"
| "listen_loop listen ((name, addr) # params) p =
     (if listen addr
      then listen_loop listen params (p\<lparr>srv_socks := (srv_socks p)(name \<mapsto> addr), open_socks := open_socks p @ [addr]\<rparr>)
      else (p, False))"

definition release :: "string list \<Rightarrow> 'p TcpServer \<Rightarrow> 'p TcpServer outcome" where
  "release ids p =
     (let p1 = p\<lparr>open_socks := filter (\<lambda>a. a \<notin> ran (srv_socks p)) (open_socks p), srv_socks := Map.empty\<rparr>
      in case channels_All p1 ids of None \<Rightarrow> Crash | Some chs \<Rightarrow> Ret p1)"

section \<open>The invariant\<close>

text \<open>A channel in the table is open, under its own id; an open channel's connection is open.\<close>

definition chan_ok :: "'p Channel \<Rightarrow> bool" where
  "chan_ok c \<longleftrightarrow> cap (chSend c) = 100 \<and> length (buf (chSend c)) \<le> 100 \<and> (connOpen c \<longleftrightarrow> \<not> closed (chSend c))"

definition server_ok :: "'p TcpServer \<Rightarrow> bool" where
  "server_ok p \<longleftrightarrow> (\<forall>k. chan_ok (chans p k)) \<and>
     (\<forall>i k. chmap p i = Some k \<longrightarrow> k < chan_count p \<and> i \<noteq> '''' \<and> channelId (chans p k) = i \<and> connOpen (chans p k))"

lemma channel_eta [simp]: "c\<lparr>chSend := chSend c\<rparr> = c"
  by (cases c) simp

lemma server_okD:
  assumes "server_ok p"
  shows "chan_ok (chans p k)"
    "chmap p i = Some k \<Longrightarrow> k < chan_count p \<and> i \<noteq> '''' \<and> channelId (chans p k) = i \<and> connOpen (chans p k)"
  using assms by (auto simp: server_ok_def)

lemma NewChannel_ok: "chan_ok (NewChannel i)"
  by (simp add: chan_ok_def NewChannel_def make_chan_def)

lemma Push_ok:
  assumes "chan_ok c"
  shows "Push c x = (if \<not> connOpen c then Ret (c, Some kInternalError)
      else if length (buf (chSend c)) < 100 then Ret (c\<lparr>chSend := chSend c\<lparr>buf := buf (chSend c) @ [x]\<rparr>\<rparr>, None)
      else Blocked)"
  using assms by (auto simp: Push_def chan_send_def chan_ok_def)

lemma Close_ok:
  assumes "chan_ok c"
  shows "Close c = Ret (if connOpen c then (c\<lparr>chSend := chSend c\<lparr>closed := True\<rparr>, connOpen := False\<rparr>, None) else (c, Some kInternalError))"
  using assms by (auto simp: Close_def chan_close_def chan_ok_def)

inductive srv_step :: "'p TcpServer \<Rightarrow> 'p TcpServer \<Rightarrow> bool" where
  srv_accept: "accept_conn p accepted = (p', k) \<Longrightarrow> srv_step p p'"
| srv_push: "PushChannel p i x = Ret (p', err) \<Longrightarrow> srv_step p p'"
| srv_close: "CloseChannel p i = Ret (p', err) \<Longrightarrow> srv_step p p'"
| srv_take: "take_packet p k = Ret (p', x) \<Longrightarrow> srv_step p p'"
| srv_finish: "k < chan_count p \<Longrightarrow> finish_conn p k = Ret p' \<Longrightarrow> srv_step p p'"

inductive srv_reachable :: "'p TcpServer \<Rightarrow> bool" where
  srv_start: "srv_reachable NetServer"
| srv_move: "srv_reachable p \<Longrightarrow> srv_step p p' \<Longrightarrow> srv_reachable p'"

inductive_cases srv_stepE: "srv_step p p'"

lemma server_ok_set_channel:
  assumes "server_ok p" "chan_ok c" "channelId c = channelId (chans p k)" "connOpen c = connOpen (chans p k)"
  shows "server_ok (set_channel p k c)"
  using assms by (auto simp: server_ok_def set_channel_def)

lemma accept_ok: "server_ok p \<Longrightarrow> accept_conn p accepted = (p', k) \<Longrightarrow> server_ok p'"
  using NewChannel_ok
  by (auto simp: accept_conn_def server_ok_def channels_Add_def channels_Get_def set_channel_def NewChannel_def Let_def
      split: sum.splits if_splits) force+

lemma push_ok: "server_ok p \<Longrightarrow> PushChannel p i x = Ret (p', err) \<Longrightarrow> server_ok p'"
proof -
  assume p: "server_ok p" and r: "PushChannel p i x = Ret (p', err)"
  show ?thesis
  proof (cases "channels_Get p i")
    case None
    then show ?thesis using p r by (simp add: PushChannel_def)
  next
    case (Some k)
    note c = server_okD(1) [OF p, of k]
    from Some r obtain c' where c': "p' = set_channel p k c'" "chan_ok c'" "channelId c' = channelId (chans p k)"
      "connOpen c' = connOpen (chans p k)"
      using c Push_ok [OF c, of x] by (auto simp: PushChannel_def chan_ok_def split: if_splits)
    then show ?thesis using server_ok_set_channel [OF p] by simp
  qed
qed

lemma take_ok: "server_ok p \<Longrightarrow> take_packet p k = Ret (p', x) \<Longrightarrow> server_ok p'"
proof -
  assume p: "server_ok p" and r: "take_packet p k = Ret (p', x)"
  note c = server_okD(1) [OF p, of k]
  obtain c' where c': "p' = set_channel p k c'" "chan_ok c'" "channelId c' = channelId (chans p k)"
    "connOpen c' = connOpen (chans p k)"
    using r c that [of "chans p k"] that [of "(chans p k)\<lparr>chSend := (chSend (chans p k))\<lparr>buf := tl (buf (chSend (chans p k)))\<rparr>\<rparr>"]
    by (cases "buf (chSend (chans p k))") (auto simp: take_packet_def chan_recv_def chan_ok_def split: if_splits)
  then show ?thesis using server_ok_set_channel [OF p] by simp
qed

text \<open>Closing a channel whose id is taken out of the table.\<close>

lemma close_ok:
  assumes p: "server_ok p" and c: "Close (chans p k) = Ret (c, err)"
  shows "server_ok (set_channel (p\<lparr>chmap := (chmap p)(channelId (chans p k) := None)\<rparr>) k c)"
    "channelId c = channelId (chans p k)" "\<not> connOpen c"
proof -
  have *: "chan_ok c" "channelId c = channelId (chans p k)" "\<not> connOpen c"
    using c Close_ok [OF server_okD(1) [OF p, of k]] server_okD(1) [OF p, of k] by (auto simp: chan_ok_def split: if_splits)
  show "server_ok (set_channel (p\<lparr>chmap := (chmap p)(channelId (chans p k) := None)\<rparr>) k c)"
    using p * by (auto simp: server_ok_def set_channel_def)
  show "channelId c = channelId (chans p k)" "\<not> connOpen c" using * by auto
qed

lemma CloseChannel_eq:
  assumes p: "server_ok p"
  shows "CloseChannel p i = Ret (case chmap p i of None \<Rightarrow> (p, Some kNoChannel)
    | Some k \<Rightarrow> (set_channel (channels_Remove p i) k (fst (case Close (chans p k) of Ret r \<Rightarrow> r)), None))"
proof (cases "chmap p i")
  case None
  moreover from this have "p\<lparr>chmap := (chmap p)(i := None)\<rparr> = p" by (cases p) auto
  ultimately show ?thesis by (simp add: CloseChannel_def channels_LoadAndDelete_def)
next
  case (Some k)
  then show ?thesis using Close_ok [OF server_okD(1) [OF p, of k]]
    by (auto simp: CloseChannel_def channels_LoadAndDelete_def channels_Remove_def)
qed

lemma srv_step_ok: "srv_step p p' \<Longrightarrow> server_ok p \<Longrightarrow> server_ok p'"
proof (erule srv_stepE, goal_cases)
  case (1 accepted k) then show ?case using accept_ok by blast
next
  case (2 i x err) show ?case by (rule push_ok [OF 2])
next
  case (3 i err)
  show ?case
  proof (cases "chmap p i")
    case None
    then show ?thesis using 3 by (simp add: CloseChannel_eq)
  next
    case (Some k)
    obtain c e where c: "Close (chans p k) = Ret (c, e)" using Close_ok [OF server_okD(1) [OF 3(1), of k]] by (auto split: if_splits)
    have "channelId (chans p k) = i" using server_okD(2) [OF 3(1) Some] by simp
    then have "p' = set_channel (p\<lparr>chmap := (chmap p)(channelId (chans p k) := None)\<rparr>) k c"
      using Some 3 c by (simp add: CloseChannel_eq channels_Remove_def)
    then show ?thesis using close_ok(1) [OF 3(1) c] by simp
  qed
next
  case (4 k x) then show ?case using take_ok by blast
next
  case (5 k)
  obtain c e where c: "Close (chans p k) = Ret (c, e)" using Close_ok [OF server_okD(1) [OF 5(1), of k]] by (auto split: if_splits)
  then have "p' = set_channel (p\<lparr>chmap := (chmap p)(channelId (chans p k) := None)\<rparr>) k c"
    using 5 close_ok(2) [OF 5(1) c] by (cases p) (auto simp: finish_conn_def channels_Remove_def set_channel_def)
  then show ?case using close_ok(1) [OF 5(1) c] by simp
qed

lemma NetServer_ok: "server_ok NetServer"
  by (simp add: server_ok_def NetServer_def NewChannel_ok)

lemma srv_reachable_ok: "srv_reachable p \<Longrightarrow> server_ok p"
  by (induction rule: srv_reachable.induct)
    (auto simp: NetServer_ok dest: srv_step_ok)

lemma channels_All_panics: "i \<in> set ids \<Longrightarrow> chmap p i \<noteq> None \<Longrightarrow> channels_All p ids = None"
  by (induction ids) (auto split: option.splits)

text \<open>What \<open>listen_loop\<close> leaves in the table when every server has the same name.\<close>

lemma listen_loop_same_name:
  assumes "list_all (\<lambda>(n, a). n = name \<and> listen a) params" "params \<noteq> []"
  shows "listen_loop listen params p =
    (p\<lparr>srv_socks := (srv_socks p)(name \<mapsto> snd (last params)), open_socks := open_socks p @ map snd params\<rparr>, True)"
  using assms
proof (induction params arbitrary: p)
  case (Cons x params)
  then show ?case by (cases p; cases x; cases "params = []") (simp_all add: fun_upd_def fun_eq_iff)
qed simp

lemma release_same_name:
  assumes "list_all (\<lambda>(n, a). n = name \<and> listen a) params" "params \<noteq> []" "distinct (map snd params)"
  shows "\<exists>p p'. listen_loop listen params NetServer = (p, True) \<and> release [] p = Ret p' \<and>
    open_socks p' = map snd (butlast params) \<and> open_socks p = map snd params"
proof -
  have m: "map snd params = map snd (butlast params) @ [snd (last params)]"
    using assms(2) by (induction params rule: rev_induct) simp_all
  then have "snd (last params) \<notin> set (map snd (butlast params))" using assms(3) by simp
  then have f: "filter (\<lambda>a. a \<noteq> snd (last params)) (map snd params) = map snd (butlast params)"
    unfolding m by (simp add: filter_neq_id del: set_map)
  show ?thesis
    by (simp add: listen_loop_same_name [OF assms(1,2)] release_def NetServer_def f)
qed

lemma PushChannel_ok:
  assumes "server_ok p" "chmap p i = Some k"
  shows "PushChannel p i x =
    (if length (buf (chSend (chans p k))) < 100
     then Ret (set_channel p k ((chans p k)\<lparr>chSend := chSend (chans p k)\<lparr>buf := buf (chSend (chans p k)) @ [x]\<rparr>\<rparr>), None)
     else Blocked)"
  using server_okD(2) [OF assms] Push_ok [OF server_okD(1) [OF assms(1), of k], of x] assms(2)
  by (simp add: PushChannel_def channels_Get_def)

section \<open>Properties\<close>



end
