(* ===== verification/Container.thy ===== *)
theory Container
  imports Naming TcpServer
begin

text \<open>
  From \<^verbatim>\<open>src/mservice/container.go\<close>: how the container turns a service's server parameters into
  listening addresses, and the registration record. The configuration, the name of the executable and
  the address of a network interface are arguments.
\<close>

record NetServerParam =
  npName :: string
  npIface :: string
  npHost :: string
  npPort :: int

record ServiceConfig =
  cfgName :: string
  ListenIface :: string
  ListenPort :: int
  OpenPerformanceMonitor :: bool
  PerformanceMonitorPort :: int
  KeepAliveTtl :: int

text \<open>The loop \<^verbatim>\<open>continue\<close>s over a server whose interface has no address.\<close>

fun set_server_params ::
  "string \<Rightarrow> (string \<Rightarrow> string + string) \<Rightarrow> ServiceConfig \<Rightarrow> NetServerParam list \<Rightarrow> NetServerParam list" where
  "set_server_params exec GetIfaceIpAddr cfg [] = []"
| "set_server_params exec GetIfaceIpAddr cfg (x # xs) =
     (let iface = (if npIface x = '''' then ListenIface cfg else npIface x);
          host = (if npHost x = '''' then GetIfaceIpAddr iface else Inr (npHost x));
          port = (if npPort x = 0 then ListenPort cfg else npPort x)
      in case host of
           Inl err \<Rightarrow> set_server_params exec GetIfaceIpAddr cfg xs
         | Inr host \<Rightarrow> \<lparr>npName = exec, npIface = '''', npHost = host, npPort = port\<rparr> #
             set_server_params exec GetIfaceIpAddr cfg xs)"

definition get_service_info ::
  "string \<Rightarrow> string \<Rightarrow> (string \<Rightarrow> string + string) \<Rightarrow> ServiceConfig \<Rightarrow> string + ServiceInfo" where
  "get_service_info exec service_id GetIfaceIpAddr cfg =
     (case GetIfaceIpAddr (ListenIface cfg) of
        Inl err \<Rightarrow> Inl err
      | Inr host \<Rightarrow> Inr \<lparr>Name = exec, ServiceId = service_id, Host = host, Port = ListenPort cfg\<rparr>)"

text \<open>\<open>Start\<close> of the server, as \<open>Run\<close> calls it, up to the end of its loop.\<close>

definition listen_addr :: "NetServerParam \<Rightarrow> string" where
  "listen_addr x = npHost x @ '':'' @ show_int (npPort x)"

definition Start :: "(string \<Rightarrow> bool) \<Rightarrow> NetServerParam list \<Rightarrow> 'p TcpServer \<times> bool" where
  "Start listen params = listen_loop listen (map (\<lambda>x. (npName x, listen_addr x)) params) NetServer"

lemma set_server_params_name: "x \<in> set (set_server_params exec ip cfg params) \<Longrightarrow> npName x = exec"
  by (induction params) (auto simp: Let_def split: sum.splits)

section \<open>Properties\<close>

text \<open>
  C32: stopping the server does not work. The container gives all servers of a process one name,
  the name of the executable, and the table of sockets is indexed by it: when \<open>Start\<close> has opened the
  listening sockets, \<open>release\<close> closes the last only and the others stay open; and if any connection
  is alive when it is called, it panics before any channel is closed.
\<close>

theorem release_leaks:
  assumes "ps = set_server_params exec ip cfg params" "ps \<noteq> []" "\<forall>x\<in>set ps. listen (listen_addr x)"
    and "distinct (map listen_addr ps)"
  shows "(\<exists>(p :: 'p TcpServer) p'. Start listen ps = (p, True) \<and> open_socks p = map listen_addr ps \<and>
      release [] p = Ret p' \<and> open_socks p' = map listen_addr (butlast ps)) \<and>
    (\<forall>(p :: 'p TcpServer) i ids. chmap p i \<noteq> None \<and> set ids = dom (chmap p) \<longrightarrow> release ids p = Crash)"
proof
  let ?ps = "map (\<lambda>x. (npName x, listen_addr x)) ps"
  have n: "list_all (\<lambda>(n, a). n = exec \<and> listen a) ?ps" "?ps \<noteq> []" "distinct (map snd ?ps)"
    using assms set_server_params_name by (auto simp: list_all_iff comp_def)
  obtain p p' :: "'p TcpServer" where "listen_loop listen ?ps NetServer = (p, True)" "release [] p = Ret p'"
    "open_socks p' = map snd (butlast ?ps)" "open_socks p = map snd ?ps"
    using release_same_name [OF n] by blast
  then show "\<exists>(p :: 'p TcpServer) p'. Start listen ps = (p, True) \<and> open_socks p = map listen_addr ps \<and>
      release [] p = Ret p' \<and> open_socks p' = map listen_addr (butlast ps)"
    by (auto simp: Start_def comp_def map_butlast)
next
  show "\<forall>(p :: 'p TcpServer) i ids. chmap p i \<noteq> None \<and> set ids = dom (chmap p) \<longrightarrow> release ids p = Crash"
  proof (intro allI impI, elim conjE)
    fix p :: "'p TcpServer" and i ids
    assume "chmap p i \<noteq> None" "set ids = dom (chmap p)"
    then have "i \<in> set ids" "chmap p i \<noteq> None" by auto
    then show "release ids p = Crash" by (simp add: release_def Let_def channels_All_panics [of i])
  qed
qed

definition demo_service_cfg :: ServiceConfig where
  "demo_service_cfg = \<lparr>cfgName = ''gateway'', ListenIface = ''eth0'', ListenPort = 8000, OpenPerformanceMonitor = False,
     PerformanceMonitorPort = 0, KeepAliveTtl = 5\<rparr>"

definition demo_params :: "NetServerParam list" where
  "demo_params = [\<lparr>npName = ''gateway_outter'', npIface = ''eth1'', npHost = '''', npPort = 9000\<rparr>,
                  \<lparr>npName = '''', npIface = '''', npHost = '''', npPort = 0\<rparr>]"

lemma demo_params_set: "set_server_params ''gateway'' (\<lambda>i. Inr ''h'') demo_service_cfg demo_params =
    [\<lparr>npName = ''gateway'', npIface = '''', npHost = ''h'', npPort = 9000\<rparr>,
     \<lparr>npName = ''gateway'', npIface = '''', npHost = ''h'', npPort = 8000\<rparr>]"
  by (simp add: demo_params_def demo_service_cfg_def)

theorem release_leaks_witness:
  "\<exists>(p :: nat TcpServer) p'. Start (\<lambda>_. True)
       (set_server_params ''gateway'' (\<lambda>i. Inr ''h'') demo_service_cfg demo_params) = (p, True) \<and>
     release [] p = Ret p' \<and> length (open_socks p) = 2 \<and> length (open_socks p') = 1"
proof -
  have "show_int 9000 \<noteq> show_int 8000"
    using Atoi_show_int [of 9000] Atoi_show_int [of 8000] by (auto simp: is_i64_def)
  then show ?thesis
    using release_leaks [OF demo_params_set [symmetric], of "\<lambda>_. True"] by (auto simp: listen_addr_def demo_params_set)
qed

end
