(* ===== verification/TcpClient.thy ===== *)
theory TcpClient
  imports GoChan
begin

text \<open>
  \<^verbatim>\<open>src/util/tcp_client.go\<close> (a client connection with its send queue) and \<^verbatim>\<open>src/util/lru_cache.go\<close> (a
  typed wrapper of the third-party \<^verbatim>\<open>groupcache/lru\<close>, whose operations are the record \<open>lru_ops\<close>).
  The dial, the connection and \<^verbatim>\<open>SendPacket\<close> are outside the repository: their results are arguments.
\<close>

section \<open>TcpClient\<close>

definition StateClose :: int where "StateClose = 0"
definition StateConnected :: int where "StateConnected = 1"
definition kMaxSendChannelSize :: nat where "kMaxSendChannelSize = 1000"

record ('p, 'd) TcpClient =
  tHost :: string
  tPort :: int
  tParam :: 'd
  tState :: int
  tChan :: "'p gochan option"
  tConn :: bool
  tCancelled :: bool
  tCbClose :: bool
  tLock :: bool

definition NewTcpClient :: "string \<Rightarrow> int \<Rightarrow> bool \<Rightarrow> 'd \<Rightarrow> ('p, 'd) TcpClient" where
  "NewTcpClient host port has_cb_close param =
     \<lparr>tHost = host, tPort = port, tParam = param, tState = StateClose, tChan = None, tConn = False,
      tCancelled = False, tCbClose = has_cb_close, tLock = False\<rparr>"

definition client_critical ::
  "(('p, 'd) TcpClient \<Rightarrow> (('p, 'd) TcpClient \<times> 'a) option) \<Rightarrow> ('p, 'd) TcpClient \<Rightarrow> (('p, 'd) TcpClient \<times> 'a) outcome" where
  "client_critical = critical tLock (\<lambda>b. tLock_update (\<lambda>_. b))"

interpretation client_mutex: mutex tLock "\<lambda>b. tLock_update (\<lambda>_. b)"
  by unfold_locales simp_all

definition Connect :: "string option \<Rightarrow> ('p, 'd) TcpClient \<Rightarrow> (('p, 'd) TcpClient \<times> string option) outcome" where
  "Connect dial_err p = client_critical (\<lambda>p.
     if tState p = StateConnected then Some (p, None)
     else case dial_err of
       Some err \<Rightarrow> Some (p, Some err)
     | None \<Rightarrow> Some (p\<lparr>tCancelled := False, tChan := Some (make_chan kMaxSendChannelSize),
                       tState := StateConnected, tConn := True\<rparr>, None)) p"

text \<open>The deferred function of \<open>Send\<close> sets the error whether or not the send panicked.\<close>

definition Send :: "('p, 'd) TcpClient \<Rightarrow> 'p \<Rightarrow> (('p, 'd) TcpClient \<times> string option) outcome" where
  "Send p packet =
     recovering (p, Some ''channel close'') (\<lambda>c. Ret (p\<lparr>tChan := Some c\<rparr>, Some ''channel close'')) (chan_send (tChan p) packet)"

definition GetState :: "('p, 'd) TcpClient \<Rightarrow> (('p, 'd) TcpClient \<times> int) outcome" where
  "GetState p = client_critical (\<lambda>p. Some (p, tState p)) p"

text \<open>
  \<open>close\<close>, with whether the close callback is called. On a client that is closed already it returns
  with the mutex held.
\<close>

definition client_close :: "bool \<Rightarrow> ('p, 'd) TcpClient \<Rightarrow> (('p, 'd) TcpClient \<times> bool) outcome" where
  "client_close is_active_close p =
     obind (Lock (tLock p)) (\<lambda>b.
       let p = p\<lparr>tLock := b\<rparr>
       in if tState p = StateClose then Ret (p, False)
          else let p = p\<lparr>tState := StateClose\<rparr>
               in obind (Unlock (tLock p)) (\<lambda>b.
                    let p = p\<lparr>tLock := b, tCancelled := (is_active_close \<or> tCancelled p), tConn := False\<rparr>
                    in recovering (p, False) (\<lambda>c. Ret (p\<lparr>tChan := Some c\<rparr>, tCbClose p)) (chan_close (tChan p))))"

definition client_Close :: "('p, 'd) TcpClient \<Rightarrow> (('p, 'd) TcpClient \<times> bool) outcome" where
  "client_Close p = client_close True p"

text \<open>
  \<open>do_send_loop\<close>: \<open>picks\<close> says for each round which ready case the \<^verbatim>\<open>select\<close> takes, and the result lists
  the packets written. Every \<^verbatim>\<open>break\<close> leaves the \<^verbatim>\<open>select\<close> only, so no round ends the loop.
\<close>

datatype pick = PickDone | PickChan

fun do_send_loop :: "('p \<Rightarrow> string option) \<Rightarrow> 'p gochan \<Rightarrow> pick list \<Rightarrow> 'p gochan \<times> 'p list" where
  "do_send_loop SendPacket c [] = (c, [])"
| "do_send_loop SendPacket c (PickDone # ps) = do_send_loop SendPacket c ps"
| "do_send_loop SendPacket c (PickChan # ps) =
     (case chan_recv c of
        Ret (c, Some packet) \<Rightarrow>
          (case SendPacket packet of
             Some err \<Rightarrow> do_send_loop SendPacket c ps
           | None \<Rightarrow> let (c, sent) = do_send_loop SendPacket c ps in (c, packet # sent))
      | Ret (c, None) \<Rightarrow> do_send_loop SendPacket c ps
      | _ \<Rightarrow> do_send_loop SendPacket c ps)"

text \<open>
  \<open>do_recv_loop\<close>, which no code starts: the list has the results of \<open>RecvPacket\<close> so far, and at its end the loop
  waits (\<^term>\<open>None\<close>). The errors are assigned to variables of the loop's body, so the close callback is called
  with the outer \<^verbatim>\<open>err\<close>, nil.
\<close>

fun do_recv_loop ::
  "('s \<Rightarrow> 'p \<Rightarrow> 's \<times> string option) option \<Rightarrow> string option \<Rightarrow> (string + 'p) list \<Rightarrow> 's \<Rightarrow> 's \<times> string option option" where
  "do_recv_loop cb_recv err [] s = (s, None)"
| "do_recv_loop cb_recv err (Inl e # rs) s = (s, Some err)"
| "do_recv_loop cb_recv err (Inr packet # rs) s =
     (case cb_recv of
        None \<Rightarrow> do_recv_loop cb_recv err rs s
      | Some f \<Rightarrow> (case f s packet of (s, e) \<Rightarrow> if e \<noteq> None then (s, Some err) else do_recv_loop cb_recv err rs s))"

lemma do_recv_loop_hides_error: "snd (do_recv_loop cb_recv None rs s) \<in> {None, Some None}"
proof (induction rs arbitrary: s)
  case (Cons r rs)
  then show ?case by (cases r; cases cb_recv) (auto split: prod.split)
qed simp

section \<open>LruCache\<close>

text \<open>\<open>lruAdd\<close>, \<open>lruRemove\<close> and \<open>lruRemoveOldest\<close> return the entry \<^verbatim>\<open>OnEvicted\<close> is called on, if any.\<close>

record ('c, 'k, 'v) lru_ops =
  lruNew :: "int \<Rightarrow> 'c"
  lruAdd :: "'c \<Rightarrow> 'k \<Rightarrow> 'v \<Rightarrow> 'c \<times> ('k \<times> 'v) option"
  lruGet :: "'c \<Rightarrow> 'k \<Rightarrow> 'c \<times> 'v option"
  lruRemove :: "'c \<Rightarrow> 'k \<Rightarrow> 'c \<times> ('k \<times> 'v) option"
  lruRemoveOldest :: "'c \<Rightarrow> 'c \<times> ('k \<times> 'v) option"
  lruLen :: "'c \<Rightarrow> int"

text \<open>\<open>do_evicted\<close>: calling a nil \<open>evicted\<close> panics, \<^term>\<open>None\<close>; the entry is gone from the cache already.\<close>

definition do_evicted :: "('k \<Rightarrow> 'v \<Rightarrow> 'e) option \<Rightarrow> ('k \<times> 'v) option \<Rightarrow> 'e list option" where
  "do_evicted evicted entry =
     (case entry of
        None \<Rightarrow> Some []
      | Some (k, v) \<Rightarrow> (case evicted of None \<Rightarrow> None | Some f \<Rightarrow> Some [f k v]))"

definition lru_Set :: "('c, 'k, 'v) lru_ops \<Rightarrow> ('k \<Rightarrow> 'v \<Rightarrow> 'e) option \<Rightarrow> 'c \<Rightarrow> 'k \<Rightarrow> 'v \<Rightarrow> 'c \<times> 'e list option" where
  "lru_Set L evicted c key v = (case lruAdd L c key v of (c, entry) \<Rightarrow> (c, do_evicted evicted entry))"

definition lru_Get :: "('c, 'k, 'v) lru_ops \<Rightarrow> 'c \<Rightarrow> 'k \<Rightarrow> 'c \<times> 'v option" where
  "lru_Get L c key = lruGet L c key"

definition lru_Remove :: "('c, 'k, 'v) lru_ops \<Rightarrow> ('k \<Rightarrow> 'v \<Rightarrow> 'e) option \<Rightarrow> 'c \<Rightarrow> 'k \<Rightarrow> 'c \<times> 'e list option" where
  "lru_Remove L evicted c key = (case lruRemove L c key of (c, entry) \<Rightarrow> (c, do_evicted evicted entry))"

definition lru_RemoveOldest :: "('c, 'k, 'v) lru_ops \<Rightarrow> ('k \<Rightarrow> 'v \<Rightarrow> 'e) option \<Rightarrow> 'c \<Rightarrow> 'c \<times> 'e list option" where
  "lru_RemoveOldest L evicted c = (case lruRemoveOldest L c of (c, entry) \<Rightarrow> (c, do_evicted evicted entry))"

definition lru_Len :: "('c, 'k, 'v) lru_ops \<Rightarrow> 'c \<Rightarrow> int" where
  "lru_Len L c = lruLen L c"

text \<open>What the package documents of a removal: an entry that \<^verbatim>\<open>Get\<close> found is evicted by \<^verbatim>\<open>Remove\<close>.\<close>

definition lru_removes :: "('c, 'k, 'v) lru_ops \<Rightarrow> bool" where
  "lru_removes L \<longleftrightarrow> (\<forall>c k c' v. lruGet L c k = (c', Some v) \<longrightarrow> snd (lruRemove L c' k) = Some (k, v))"

lemma lru_Remove_nil:
  "lru_removes L \<Longrightarrow> lru_Get L c k = (c', Some v) \<Longrightarrow> lru_Remove L None c' k = (fst (lruRemove L c' k), None :: 'e list option)"
  by (cases "lruRemove L c' k") (force simp: lru_removes_def lru_Get_def lru_Remove_def do_evicted_def)

section \<open>What the client's operations do\<close>

lemma Send_Ret: "Send p x = (case tChan p of
    None \<Rightarrow> Blocked
  | Some c \<Rightarrow> if closed c then Ret (p, Some ''channel close'')
      else if length (buf c) < cap c then Ret (p\<lparr>tChan := Some (c\<lparr>buf := buf c @ [x]\<rparr>)\<rparr>, Some ''channel close'')
      else Blocked)"
  by (auto simp: Send_def chan_send_def split: option.splits)

lemma Send_error: "Send p x = Ret (p', err) \<Longrightarrow> err = Some ''channel close'' \<and> tHost p' = tHost p \<and> tPort p' = tPort p \<and> tParam p' = tParam p"
  by (auto simp: Send_Ret split: option.splits if_splits)

lemma close_twice_blocks:
  assumes "tState p = StateClose" "\<not> tLock p"
  shows "\<exists>p'. client_Close p = Ret (p', False) \<and> client_Close p' = Blocked \<and> GetState p' = Blocked \<and> Connect e p' = Blocked"
  using assms by (simp add: client_Close_def client_close_def GetState_def Connect_def client_critical_def client_mutex.blocks)

end
