(* ===== verification/ObjProxy.thy ===== *)
theory ObjProxy
  imports TcpClient MServicePacket Naming CommonUtil "HOL-Library.List_Lexorder"
begin

text \<open>
  \<^verbatim>\<open>src/mservice/obj_client/{obj_client_proxy,obj_proxy_mgr}.go\<close>: the proxy of a service, which queues
  calls and sends each to the node its hash picks. Clients are pointers: \<open>clients\<close> is the heap of
  the clients created so far, the two lists hold pointers into it, and one client can be on both.
  \<open>answered\<close> records what was sent to the channel a caller waits on. The cache of pending calls is a
  parameter (\<open>lru_ops\<close>) created without an eviction callback, as the code does; a dial and the clock
  are arguments.
\<close>

section \<open>Data\<close>

definition kCall :: int where "kCall = 1"
definition kCallAsync :: int where "kCallAsync = 2"
definition kCast :: int where "kCast = 3"
definition kBroadcast :: int where "kBroadcast = 4"
definition kClientExit :: int where "kClientExit = 1"
definition kClientClose :: int where "kClientClose = 2"
definition kClientTimeout :: int where "kClientTimeout = 3"
definition kErrorCallTimeout :: string where "kErrorCallTimeout = ''call timeout''"
definition kErrorCallNotExistsClient :: string where "kErrorCallNotExistsClient = ''call not exists client''"

record EventClientChange =
  ecEvent :: int
  ecServiceId :: string
  ecHost :: string
  ecPort :: int

datatype EventInfo = EvServiceChange "ServiceChange list" | EvClientChange EventClientChange

record 'b CallRecord =
  call_type :: int
  rhash :: "32 word"
  req :: "'b MServicePacket"
  send_ts :: int

record ClientData =
  cdServiceId :: string
  retry_connect_ts :: int
  series_fail_count :: int

type_synonym 'b client = "('b MServicePacket, ClientData) TcpClient"

record ('c, 'b) ObjectProxy =
  pname :: string
  lru_reqs :: 'c
  active_clients :: "nat list"
  inactive_clients :: "nat list"
  clients :: "nat \<Rightarrow> 'b client"
  client_count :: nat
  channel_event :: "EventInfo gochan"
  channel_send :: "'b CallRecord gochan"
  RetryConnectSec :: int
  CallTimeoutSec :: int
  InvalidSeriesFailCount :: int
  plock :: bool
  answered :: "(string \<times> (string + 'b MServicePacket)) list"

type_synonym ('c, 'b) pending_ops = "('c, string, 'b CallRecord) lru_ops"

text \<open>\<^verbatim>\<open>NewLruCache(size, nil)\<close>: there is no callback for evicted entries.\<close>

definition no_evicted :: "(string \<Rightarrow> 'b CallRecord \<Rightarrow> unit) option" where "no_evicted = None"

section \<open>Queueing a call\<close>

text \<open>
  A panic of \<open>Set\<close> ends the caller; the queue is filled with the mutex held, and a full queue keeps
  the caller, and with it the mutex.
\<close>

definition add_to_call_queue ::
  "('c, 'b) pending_ops \<Rightarrow> ('c, 'b) ObjectProxy \<Rightarrow> 'b CallRecord \<Rightarrow> ('c, 'b) ObjectProxy outcome" where
  "add_to_call_queue L p record =
     obind (Lock (plock p)) (\<lambda>b.
       case lru_Set L no_evicted (lru_reqs p) (TraceId (Header (req record))) record of
         (c, None) \<Rightarrow> Crash
       | (c, Some _) \<Rightarrow>
         obind (chan_send (Some (channel_send p)) record) (\<lambda>ch.
           obind (Unlock b) (\<lambda>b. Ret (p\<lparr>lru_reqs := c, channel_send := ch, plock := b\<rparr>))))"

definition CallBegin :: "('c, 'b) pending_ops \<Rightarrow> int \<Rightarrow> ('c, 'b) ObjectProxy \<Rightarrow> 32 word \<Rightarrow> 'b MServicePacket \<Rightarrow> ('c, 'b) ObjectProxy outcome" where
  "CallBegin L now p hash r = add_to_call_queue L p \<lparr>call_type = kCall, rhash = hash, req = r, send_ts = now\<rparr>"

text \<open>The \<^verbatim>\<open>select\<close> of \<open>Call\<close>: \<open>result\<close> is what the record's channel delivers in time, if anything.\<close>

definition CallResult :: "(string + 'b MServicePacket) option \<Rightarrow> string + 'b MServicePacket" where
  "CallResult result = (case result of None \<Rightarrow> Inl kErrorCallTimeout | Some r \<Rightarrow> r)"

text \<open>\<open>CallAsync\<close> does not store the callback it is given.\<close>

definition CallAsync :: "('c, 'b) pending_ops \<Rightarrow> int \<Rightarrow> ('c, 'b) ObjectProxy \<Rightarrow> 32 word \<Rightarrow> 'b MServicePacket \<Rightarrow> ('c, 'b) ObjectProxy outcome" where
  "CallAsync L now p hash r = add_to_call_queue L p \<lparr>call_type = kCallAsync, rhash = hash, req = r, send_ts = now\<rparr>"

definition proxy_Cast :: "('c, 'b) pending_ops \<Rightarrow> int \<Rightarrow> ('c, 'b) ObjectProxy \<Rightarrow> 32 word \<Rightarrow> 'b MServicePacket \<Rightarrow> ('c, 'b) ObjectProxy outcome" where
  "proxy_Cast L now p hash r = add_to_call_queue L p \<lparr>call_type = kCast, rhash = hash, req = r, send_ts = now\<rparr>"

definition Broadcast :: "('c, 'b) pending_ops \<Rightarrow> int \<Rightarrow> ('c, 'b) ObjectProxy \<Rightarrow> 'b MServicePacket \<Rightarrow> ('c, 'b) ObjectProxy outcome" where
  "Broadcast L now p r = add_to_call_queue L p \<lparr>call_type = kBroadcast, rhash = 0, req = r, send_ts = now\<rparr>"

section \<open>Clients\<close>

definition set_client :: "('c, 'b) ObjectProxy \<Rightarrow> nat \<Rightarrow> 'b client \<Rightarrow> ('c, 'b) ObjectProxy" where
  "set_client p k c = p\<lparr>clients := (clients p)(k := c)\<rparr>"

definition new_client :: "('c, 'b) ObjectProxy \<Rightarrow> string \<Rightarrow> int \<Rightarrow> string \<Rightarrow> ('c, 'b) ObjectProxy \<times> nat" where
  "new_client p host port service_id =
     (let k = client_count p
      in ((set_client p k (NewTcpClient host port True
             \<lparr>cdServiceId = service_id, retry_connect_ts = 0, series_fail_count = 0\<rparr>))\<lparr>client_count := Suc k\<rparr>, k))"

definition on_client_close :: "('c, 'b) ObjectProxy \<Rightarrow> nat \<Rightarrow> ('c, 'b) ObjectProxy outcome" where
  "on_client_close p k =
     (let client = clients p k
      in obind (chan_send (Some (channel_event p))
           (EvClientChange \<lparr>ecEvent = kClientClose, ecServiceId = cdServiceId (tParam client),
              ecHost = tHost client, ecPort = tPort client\<rparr>))
         (\<lambda>ch. Ret (p\<lparr>channel_event := ch\<rparr>)))"

definition proxy_close_client :: "('c, 'b) ObjectProxy \<Rightarrow> nat \<Rightarrow> ('c, 'b) ObjectProxy outcome" where
  "proxy_close_client p k =
     obind (client_Close (clients p k)) (\<lambda>(c, cb).
       let p = set_client p k c in if cb then on_client_close p k else Ret p)"

text \<open>\<open>find_client_index\<close>: the \<^verbatim>\<open>break\<close> on another id ends the search; -1 is \<^term>\<open>None\<close>.\<close>

fun find_client_index :: "(nat \<Rightarrow> 'b client) \<Rightarrow> nat list \<Rightarrow> string \<Rightarrow> int \<Rightarrow> string \<Rightarrow> nat option" where
  "find_client_index h [] host port service_id = None"
| "find_client_index h (k # ks) host port service_id =
     (if tHost (h k) = host \<and> tPort (h k) = port
      then if service_id \<noteq> '''' \<and> service_id \<noteq> cdServiceId (tParam (h k)) then None else Some 0
      else map_option Suc (find_client_index h ks host port service_id))"

definition find_client :: "('c, 'b) ObjectProxy \<Rightarrow> string \<Rightarrow> int \<Rightarrow> string \<Rightarrow> nat option" where
  "find_client p host port service_id =
     (case find_client_index (clients p) (active_clients p) host port service_id of
        Some index \<Rightarrow> Some (active_clients p ! index)
      | None \<Rightarrow>
        (case find_client_index (clients p) (inactive_clients p) host port service_id of
           Some index \<Rightarrow> Some (inactive_clients p ! index)
         | None \<Rightarrow> None))"

text \<open>\<open>sort_clients\<close>: stable, by the text of the address.\<close>

definition client_addr :: "'b client \<Rightarrow> string" where
  "client_addr c = tHost c @ '':'' @ show_int (tPort c)"

definition sort_clients :: "(nat \<Rightarrow> 'b client) \<Rightarrow> nat list \<Rightarrow> nat list" where
  "sort_clients h ks = sort_key (\<lambda>k. client_addr (h k)) ks"

definition remove_at :: "nat \<Rightarrow> 'a list \<Rightarrow> 'a list" where
  "remove_at i xs = take i xs @ drop (Suc i) xs"

text \<open>
  \<open>remove_active_client_by_index\<close>, with its first test as the code has it. The changes to \<^verbatim>\<open>cdata\<close>, a
  copy of the client's parameter, go nowhere.
\<close>

definition remove_active_client_by_index :: "('c, 'b) ObjectProxy \<Rightarrow> nat \<Rightarrow> (('c, 'b) ObjectProxy \<times> bool) outcome" where
  "remove_active_client_by_index p index =
     (if length (active_clients p) \<ge> index then Ret (p, False)
      else case idx (active_clients p) index of
        None \<Rightarrow> Crash
      | Some k \<Rightarrow>
        obind (proxy_close_client p k) (\<lambda>p.
          let p = p\<lparr>active_clients := remove_at index (active_clients p), inactive_clients := inactive_clients p @ [k]\<rparr>
          in Ret (p\<lparr>active_clients := sort_clients (clients p) (active_clients p)\<rparr>, True)))"

definition do_client_remove :: "('c, 'b) ObjectProxy \<Rightarrow> string \<Rightarrow> int \<Rightarrow> string \<Rightarrow> ('c, 'b) ObjectProxy outcome" where
  "do_client_remove p host port service_id =
     (case find_client_index (clients p) (active_clients p) host port service_id of
        Some index \<Rightarrow>
          obind (proxy_close_client p (active_clients p ! index)) (\<lambda>p.
            Ret (p\<lparr>active_clients := remove_at index (active_clients p)\<rparr>))
      | None \<Rightarrow>
        (case find_client_index (clients p) (inactive_clients p) host port service_id of
           Some index \<Rightarrow> Ret (p\<lparr>inactive_clients := remove_at index (inactive_clients p)\<rparr>)
         | None \<Rightarrow> Ret p))"

section \<open>Sending\<close>

definition find_pending :: "('c, 'b) pending_ops \<Rightarrow> ('c, 'b) ObjectProxy \<Rightarrow> string \<Rightarrow> ('c, 'b) ObjectProxy \<times> 'b CallRecord option" where
  "find_pending L p trace_id =
     (case lru_Get L (lru_reqs p) trace_id of (c, r) \<Rightarrow> (p\<lparr>lru_reqs := c\<rparr>, r))"

text \<open>
  The common part of \<open>do_send_by_hash\<close> without a client and of \<open>on_client_recv\<close>, between \<^verbatim>\<open>p.Lock()\<close> and
  \<^verbatim>\<open>p.Unlock()\<close>: \<open>Inl\<close> is a return or a recovered panic, after neither of which the mutex is released.
\<close>

definition take_pending ::
  "('c, 'b) pending_ops \<Rightarrow> ('c, 'b) ObjectProxy \<Rightarrow> string \<Rightarrow> (('c, 'b) ObjectProxy + ('c, 'b) ObjectProxy \<times> 'b CallRecord) outcome" where
  "take_pending L p trace_id =
     obind (Lock (plock p)) (\<lambda>b.
       case find_pending L (p\<lparr>plock := b\<rparr>) trace_id of
         (p, None) \<Rightarrow> Ret (Inl p)
       | (p, Some record) \<Rightarrow>
         (case lru_Remove L no_evicted (lru_reqs p) trace_id of
            (c, None) \<Rightarrow> Ret (Inl (p\<lparr>lru_reqs := c\<rparr>))
          | (c, Some _) \<Rightarrow> obind (Unlock (plock p)) (\<lambda>b. Ret (Inr (p\<lparr>lru_reqs := c, plock := b\<rparr>, record)))))"

text \<open>
  Answering a call: the channel is unbuffered, so the send returns only to a caller that still waits
  (\<open>waiting\<close>); calling the nil callback of an asynchronous call panics, and the panic is recovered.
\<close>

definition answer_call ::
  "(string \<Rightarrow> bool) \<Rightarrow> ('c, 'b) ObjectProxy \<Rightarrow> 'b CallRecord \<Rightarrow> string + 'b MServicePacket \<Rightarrow> ('c, 'b) ObjectProxy outcome" where
  "answer_call waiting p record result =
     (let trace_id = TraceId (Header (req record))
      in if call_type record = kCall
         then if waiting trace_id then Ret (p\<lparr>answered := (trace_id, result) # answered p\<rparr>) else Blocked
         else Ret p)"

definition do_send_by_hash ::
  "('c, 'b) pending_ops \<Rightarrow> (string \<Rightarrow> bool) \<Rightarrow> ('c, 'b) ObjectProxy \<Rightarrow> 32 word \<Rightarrow> 'b MServicePacket \<Rightarrow> ('c, 'b) ObjectProxy outcome" where
  "do_send_by_hash L waiting p hash packet =
     (let count = length (active_clients p)
      in if count = 0
         then obind (take_pending L p (TraceId (Header packet))) (\<lambda>r.
                case r of
                  Inl p \<Rightarrow> Ret p
                | Inr (p, record) \<Rightarrow> answer_call waiting p record (Inl kErrorCallNotExistsClient))
         else if (of_nat count :: 32 word) = 0 then Crash
         else let index = unat (hash mod of_nat count)
              in case idx (active_clients p) index of
                   None \<Rightarrow> Crash
                 | Some k \<Rightarrow>
                   obind (Send (clients p k) packet) (\<lambda>(c, err).
                     let p = set_client p k c
                     in if err \<noteq> None
                        then obind (remove_active_client_by_index p index) (\<lambda>(p, _). Ret p)
                        else Ret p))"

fun broadcast_send :: "('c, 'b) ObjectProxy \<Rightarrow> 'b MServicePacket \<Rightarrow> nat list \<Rightarrow> (('c, 'b) ObjectProxy \<times> string list) outcome" where
  "broadcast_send p packet [] = Ret (p, [])"
| "broadcast_send p packet (k # ks) =
     obind (Send (clients p k) packet) (\<lambda>(c, err).
       obind (broadcast_send (set_client p k c) packet ks) (\<lambda>(p, removes).
         Ret (p, if err \<noteq> None then cdServiceId (tParam c) # removes else removes)))"

text \<open>The inner loop ranges over the list as it was when the loop started; \<open>i\<close> is its index.\<close>

fun remove_by_id :: "('c, 'b) ObjectProxy \<Rightarrow> string \<Rightarrow> nat \<Rightarrow> nat list \<Rightarrow> ('c, 'b) ObjectProxy outcome" where
  "remove_by_id p i_d i [] = Ret p"
| "remove_by_id p i_d i (k # ks) =
     (if i_d = cdServiceId (tParam (clients p k))
      then obind (remove_active_client_by_index p i) (\<lambda>(p, _). remove_by_id p i_d (Suc i) ks)
      else remove_by_id p i_d (Suc i) ks)"

fun remove_ids :: "('c, 'b) ObjectProxy \<Rightarrow> string list \<Rightarrow> ('c, 'b) ObjectProxy outcome" where
  "remove_ids p [] = Ret p"
| "remove_ids p (i # is) = obind (remove_by_id p i 0 (active_clients p)) (\<lambda>p. remove_ids p is)"

definition do_send_by_broadcast :: "('c, 'b) ObjectProxy \<Rightarrow> 'b MServicePacket \<Rightarrow> ('c, 'b) ObjectProxy outcome" where
  "do_send_by_broadcast p packet =
     obind (broadcast_send p packet (active_clients p)) (\<lambda>(p, removes). remove_ids p removes)"

definition do_send ::
  "('c, 'b) pending_ops \<Rightarrow> (string \<Rightarrow> bool) \<Rightarrow> ('c, 'b) ObjectProxy \<Rightarrow> 'b CallRecord \<Rightarrow> ('c, 'b) ObjectProxy outcome" where
  "do_send L waiting p record =
     (if call_type record = kBroadcast then do_send_by_broadcast p (req record)
      else do_send_by_hash L waiting p (rhash record) (req record))"

section \<open>What a client receives\<close>

definition on_client_recv ::
  "('c, 'b) pending_ops \<Rightarrow> (string \<Rightarrow> bool) \<Rightarrow> int \<Rightarrow> ('c, 'b) ObjectProxy \<Rightarrow> nat \<Rightarrow> 'b MServicePacket \<Rightarrow> ('c, 'b) ObjectProxy outcome" where
  "on_client_recv L waiting now p k mpacket =
     obind (take_pending L p (TraceId (Header mpacket))) (\<lambda>r.
       case r of
         Inl p \<Rightarrow> Ret p
       | Inr (p, record) \<Rightarrow>
         obind (answer_call waiting p record (Inr mpacket)) (\<lambda>p.
           if call_type record \<noteq> kCall then Ret p
           else if i64 (now - send_ts record) \<ge> CallTimeoutSec p
                then let client = clients p k
                     in obind (chan_send (Some (channel_event p))
                          (EvClientChange \<lparr>ecEvent = kClientTimeout, ecServiceId = cdServiceId (tParam client),
                             ecHost = tHost client, ecPort = tPort client\<rparr>))
                        (\<lambda>ch. Ret (p\<lparr>channel_event := ch\<rparr>))
                else Ret p))"

section \<open>Events\<close>

definition add_inactive :: "('c, 'b) ObjectProxy \<Rightarrow> ServiceInfo \<Rightarrow> ('c, 'b) ObjectProxy" where
  "add_inactive p s =
     (case new_client p (Host s) (Port s) (ServiceId s) of
        (p, k) \<Rightarrow> p\<lparr>inactive_clients := inactive_clients p @ [k]\<rparr>)"

fun do_event_service_change :: "('c, 'b) ObjectProxy \<Rightarrow> ServiceChange list \<Rightarrow> ('c, 'b) ObjectProxy outcome" where
  "do_event_service_change p [] = Ret p"
| "do_event_service_change p (x # xs) =
     (let s = ChService x
      in obind (if ChOp x = ServicePut
                then case find_client p (Host s) (Port s) (ServiceId s) of
                       None \<Rightarrow> Ret (add_inactive p s)
                     | Some k \<Rightarrow>
                       if cdServiceId (tParam (clients p k)) \<noteq> ServiceId s
                       then obind (do_client_remove p (Host s) (Port s) (ServiceId s)) (\<lambda>p. Ret (add_inactive p s))
                       else Ret p
                else do_client_remove p (Host s) (Port s) (ServiceId s))
           (\<lambda>p. do_event_service_change p xs))"

definition do_client_close :: "('c, 'b) ObjectProxy \<Rightarrow> EventClientChange \<Rightarrow> ('c, 'b) ObjectProxy" where
  "do_client_close p change =
     (case find_client_index (clients p) (active_clients p) (ecHost change) (ecPort change) (ecServiceId change) of
        Some index \<Rightarrow> p\<lparr>inactive_clients := inactive_clients p @ [active_clients p ! index]\<rparr>
      | None \<Rightarrow> p)"

definition do_client_timeout :: "('c, 'b) ObjectProxy \<Rightarrow> EventClientChange \<Rightarrow> ('c, 'b) ObjectProxy outcome" where
  "do_client_timeout p change =
     (case find_client_index (clients p) (active_clients p) (ecHost change) (ecPort change) (ecServiceId change) of
        Some index \<Rightarrow>
          let fails = i64 (series_fail_count (tParam (clients p (active_clients p ! index))) + 1)
          in if fails \<ge> InvalidSeriesFailCount p
             then obind (remove_active_client_by_index p index) (\<lambda>(p, _). Ret p)
             else Ret p
      | None \<Rightarrow> Ret p)"

definition do_event_client_change :: "('c, 'b) ObjectProxy \<Rightarrow> EventClientChange \<Rightarrow> ('c, 'b) ObjectProxy outcome" where
  "do_event_client_change p change =
     (if ecEvent change = kClientExit then do_client_remove p (ecHost change) (ecPort change) (ecServiceId change)
      else if ecEvent change = kClientClose then Ret (do_client_close p change)
      else if ecEvent change = kClientTimeout then do_client_timeout p change
      else Ret p)"

definition do_event :: "('c, 'b) ObjectProxy \<Rightarrow> EventInfo \<Rightarrow> ('c, 'b) ObjectProxy outcome" where
  "do_event p ev =
     (case ev of EvServiceChange changes \<Rightarrow> do_event_service_change p changes
      | EvClientChange change \<Rightarrow> do_event_client_change p change)"

section \<open>Reconnecting\<close>

text \<open>
  One scan of the inactive list from \<open>i\<close> on, to the first client that connects: \<open>dial n c\<close> is the result of the
  \<open>n\<close>-th dial. The scan returns the number of dials so far.
\<close>

fun retry_scan ::
  "(nat \<Rightarrow> 'b client \<Rightarrow> string option) \<Rightarrow> int \<Rightarrow> nat \<Rightarrow> nat \<Rightarrow> nat list \<Rightarrow> ('c, 'b) ObjectProxy \<Rightarrow>
   (('c, 'b) ObjectProxy \<times> nat \<times> nat option) outcome" where
  "retry_scan dial now n i [] p = Ret (p, n, None)"
| "retry_scan dial now n i (k # ks) p =
     (if now < retry_connect_ts (tParam (clients p k)) then retry_scan dial now n (Suc i) ks p
      else obind (Connect (dial n (clients p k)) (clients p k)) (\<lambda>(c, err).
             let p = set_client p k c
             in if err = None then Ret (p, Suc n, Some i) else retry_scan dial now (Suc n) (Suc i) ks p))"

text \<open>
  The outer loop rescans as long as a client connected. Each round takes one client off the list:
  \<open>length (inactive_clients p)\<close> rounds and the last scan are enough fuel.
\<close>

fun retry_loop ::
  "nat \<Rightarrow> (nat \<Rightarrow> 'b client \<Rightarrow> string option) \<Rightarrow> int \<Rightarrow> nat \<Rightarrow> ('c, 'b) ObjectProxy \<Rightarrow> ('c, 'b) ObjectProxy outcome option" where
  "retry_loop 0 dial now n p = None"
| "retry_loop (Suc fuel) dial now n p =
     (case retry_scan dial now n 0 (inactive_clients p) p of
        Ret (p, n, Some i) \<Rightarrow>
          retry_loop fuel dial now n (p\<lparr>active_clients := active_clients p @ [inactive_clients p ! i],
            inactive_clients := remove_at i (inactive_clients p)\<rparr>)
      | Ret (p, n, None) \<Rightarrow> Some (Ret p)
      | Blocked \<Rightarrow> Some Blocked
      | Crash \<Rightarrow> Some Crash)"

definition retry_client_connect ::
  "(nat \<Rightarrow> 'b client \<Rightarrow> string option) \<Rightarrow> int \<Rightarrow> ('c, 'b) ObjectProxy \<Rightarrow> ('c, 'b) ObjectProxy outcome" where
  "retry_client_connect dial now p =
     obind (case retry_loop (Suc (length (inactive_clients p))) dial now 0 p of Some r \<Rightarrow> r | None \<Rightarrow> Blocked) (\<lambda>p.
       Ret (p\<lparr>active_clients := sort_clients (clients p) (active_clients p)\<rparr>))"

section \<open>Starting a proxy, and the main loop\<close>

text \<open>\<open>init\<close>: \<open>found\<close> are the services \<open>Find\<close> returned, \<open>dial\<close> the result of connecting to each.\<close>

fun init_clients :: "(ServiceInfo \<Rightarrow> string option) \<Rightarrow> ServiceInfo list \<Rightarrow> ('c, 'b) ObjectProxy \<Rightarrow> ('c, 'b) ObjectProxy outcome" where
  "init_clients dial [] p = Ret p"
| "init_clients dial (info # infos) p =
     (case new_client p (Host info) (Port info) (ServiceId info) of
        (p, k) \<Rightarrow>
          obind (Connect (dial info) (clients p k)) (\<lambda>(c, err).
            let p = set_client p k c
            in init_clients dial infos
                 (if err = None then p\<lparr>active_clients := active_clients p @ [k]\<rparr>
                  else p\<lparr>inactive_clients := inactive_clients p @ [k]\<rparr>)))"

text \<open>The proxy before \<open>init\<close>.\<close>

definition empty_proxy ::
  "('c, 'b) pending_ops \<Rightarrow> int \<Rightarrow> int \<Rightarrow> int \<Rightarrow> int \<Rightarrow> string \<Rightarrow> ('c, 'b) ObjectProxy" where
  "empty_proxy L MaxCacheSize retry_sec timeout_sec invalid_count name =
     \<lparr>pname = name, lru_reqs = lruNew L MaxCacheSize, active_clients = [], inactive_clients = [],
      clients = (\<lambda>_. NewTcpClient '''' 0 True \<lparr>cdServiceId = '''', retry_connect_ts = 0, series_fail_count = 0\<rparr>),
      client_count = 0, channel_event = make_chan 1000, channel_send = make_chan 1000, RetryConnectSec = retry_sec,
      CallTimeoutSec = timeout_sec, InvalidSeriesFailCount = invalid_count, plock = False, answered = []\<rparr>"

text \<open>
  \<open>init\<close>, with the watch it subscribes and the search of the naming client; an error of either panics,
  and so does a foreign key that \<open>Find\<close> comes across.
\<close>

definition proxy_init ::
  "(string \<Rightarrow> string + (string \<times> string) list) \<Rightarrow> (ServiceInfo \<Rightarrow> string option) \<Rightarrow> Naming \<Rightarrow> ('c, 'b) ObjectProxy \<Rightarrow>
   (Naming \<times> ('c, 'b) ObjectProxy) outcome" where
  "proxy_init GetWithPrefix dial n p =
     obind (Subscribe n (pname p)) (\<lambda>(n, err).
       if err \<noteq> None then Crash
       else case Find GetWithPrefix (pname p) of
              None \<Rightarrow> Crash
            | Some (Inl e) \<Rightarrow> obind (Unsubscribe n (pname p)) (\<lambda>_. Crash)
            | Some (Inr infos) \<Rightarrow> obind (init_clients dial infos p) (\<lambda>p. Ret (n, p)))"

definition NewObjectProxy ::
  "('c, 'b) pending_ops \<Rightarrow> int \<Rightarrow> int \<Rightarrow> int \<Rightarrow> int \<Rightarrow> (string \<Rightarrow> string + (string \<times> string) list) \<Rightarrow>
   (ServiceInfo \<Rightarrow> string option) \<Rightarrow> Naming \<Rightarrow> string \<Rightarrow> (Naming \<times> ('c, 'b) ObjectProxy) outcome" where
  "NewObjectProxy L MaxCacheSize retry_sec timeout_sec invalid_count GetWithPrefix dial n name =
     proxy_init GetWithPrefix dial n (empty_proxy L MaxCacheSize retry_sec timeout_sec invalid_count name)"

text \<open>\<open>Close\<close> closes the connections and both queues; closing a queue twice panics.\<close>

fun close_all :: "nat list \<Rightarrow> ('c, 'b) ObjectProxy \<Rightarrow> ('c, 'b) ObjectProxy outcome" where
  "close_all [] p = Ret p"
| "close_all (k # ks) p = obind (proxy_close_client p k) (close_all ks)"

definition proxy_Close :: "('c, 'b) ObjectProxy \<Rightarrow> ('c, 'b) ObjectProxy outcome" where
  "proxy_Close p =
     obind (close_all (active_clients p) p) (\<lambda>p.
       obind (chan_close (Some (channel_event p))) (\<lambda>ev.
         obind (chan_close (Some (channel_send p))) (\<lambda>snd.
           Ret (p\<lparr>channel_event := ev, channel_send := snd\<rparr>))))"

text \<open>The callback of the subscription.\<close>

definition notify_service_change :: "('c, 'b) ObjectProxy \<Rightarrow> ServiceChange list \<Rightarrow> ('c, 'b) ObjectProxy outcome" where
  "notify_service_change p changes =
     obind (chan_send (Some (channel_event p)) (EvServiceChange changes)) (\<lambda>ev. Ret (p\<lparr>channel_event := ev\<rparr>))"

text \<open>A round of \<open>loop_main\<close>: the case the \<^verbatim>\<open>select\<close> takes.\<close>

datatype main_pick = PickTimer | PickSend | PickEvent

definition loop_main_round ::
  "('c, 'b) pending_ops \<Rightarrow> (string \<Rightarrow> bool) \<Rightarrow> (nat \<Rightarrow> 'b client \<Rightarrow> string option) \<Rightarrow> int \<Rightarrow> main_pick \<Rightarrow> ('c, 'b) ObjectProxy \<Rightarrow> ('c, 'b) ObjectProxy outcome" where
  "loop_main_round L waiting dial now pick p =
     (case pick of
        PickTimer \<Rightarrow> retry_client_connect dial now p
      | PickSend \<Rightarrow>
        obind (chan_recv (channel_send p)) (\<lambda>(ch, r).
          let p = p\<lparr>channel_send := ch\<rparr> in case r of None \<Rightarrow> Ret p | Some record \<Rightarrow> do_send L waiting p record)
      | PickEvent \<Rightarrow>
        obind (chan_recv (channel_event p)) (\<lambda>(ch, ev).
          let p = p\<lparr>channel_event := ch\<rparr> in case ev of None \<Rightarrow> Ret p | Some e \<Rightarrow> do_event p e))"

text \<open>\<open>ObjProxyMgr\<close>: the proxies by service name; \<open>fresh\<close> is what \<open>NewObjectProxy\<close> returns for the name.\<close>

record ('c, 'b) ObjProxyMgr =
  proxys :: "string \<rightharpoonup> ('c, 'b) ObjectProxy"
  pmlock :: bool

definition get_obj_proxy ::
  "(string \<Rightarrow> ('c, 'b) ObjectProxy option) \<Rightarrow> ('c, 'b) ObjProxyMgr \<Rightarrow> string \<Rightarrow> (('c, 'b) ObjProxyMgr \<times> ('c, 'b) ObjectProxy) outcome" where
  "get_obj_proxy fresh m name = critical pmlock (\<lambda>b. pmlock_update (\<lambda>_. b)) (\<lambda>m.
     case proxys m name of
       Some proxy \<Rightarrow> Some (m, proxy)
     | None \<Rightarrow> (case fresh name of
                  None \<Rightarrow> None
                | Some proxy \<Rightarrow> Some (m\<lparr>proxys := (proxys m)(name \<mapsto> proxy)\<rparr>, proxy))) m"

text \<open>The calls of the manager go to the proxy of the service the packet names.\<close>

definition via_proxy ::
  "(string \<Rightarrow> ('c, 'b) ObjectProxy option) \<Rightarrow> ('c, 'b) ObjProxyMgr \<Rightarrow> 'b MServicePacket \<Rightarrow>
   (('c, 'b) ObjectProxy \<Rightarrow> ('c, 'b) ObjectProxy outcome) \<Rightarrow> ('c, 'b) ObjProxyMgr outcome" where
  "via_proxy fresh m r f =
     obind (get_obj_proxy fresh m (Service (Header r))) (\<lambda>(m, proxy).
       obind (f proxy) (\<lambda>proxy. Ret (m\<lparr>proxys := (proxys m)(Service (Header r) \<mapsto> proxy)\<rparr>)))"

definition mgr_Call ::
  "('c, 'b) pending_ops \<Rightarrow> int \<Rightarrow> (string \<Rightarrow> ('c, 'b) ObjectProxy option) \<Rightarrow> ('c, 'b) ObjProxyMgr \<Rightarrow> 32 word \<Rightarrow> 'b MServicePacket \<Rightarrow>
   ('c, 'b) ObjProxyMgr outcome" where
  "mgr_Call L now fresh m hash r = via_proxy fresh m r (\<lambda>p. CallBegin L now p hash r)"

definition mgr_CallAsync ::
  "('c, 'b) pending_ops \<Rightarrow> int \<Rightarrow> (string \<Rightarrow> ('c, 'b) ObjectProxy option) \<Rightarrow> ('c, 'b) ObjProxyMgr \<Rightarrow> 32 word \<Rightarrow> 'b MServicePacket \<Rightarrow>
   ('c, 'b) ObjProxyMgr outcome" where
  "mgr_CallAsync L now fresh m hash r = via_proxy fresh m r (\<lambda>p. CallAsync L now p hash r)"

definition mgr_Cast ::
  "('c, 'b) pending_ops \<Rightarrow> int \<Rightarrow> (string \<Rightarrow> ('c, 'b) ObjectProxy option) \<Rightarrow> ('c, 'b) ObjProxyMgr \<Rightarrow> 32 word \<Rightarrow> 'b MServicePacket \<Rightarrow>
   ('c, 'b) ObjProxyMgr outcome" where
  "mgr_Cast L now fresh m hash r = via_proxy fresh m r (\<lambda>p. proxy_Cast L now p hash r)"

end
