(* ===== verification/ObjProxySpec.thy ===== *)
theory ObjProxySpec
  imports ObjProxy "HOL-Library.Multiset"
begin

text \<open>
  What the proxy of \<open>ObjProxy\<close> does: where a call goes, what happens without a node, the retry of
  lost connections, and the two lists of clients.
\<close>

section \<open>The lists of clients\<close>

lemma set_client_simps [simp]:
  "active_clients (set_client p k c) = active_clients p" "inactive_clients (set_client p k c) = inactive_clients p"
  "plock (set_client p k c) = plock p" "clients (set_client p k c) = (clients p)(k := c)"
  "channel_send (set_client p k c) = channel_send p" "channel_event (set_client p k c) = channel_event p"
  "lru_reqs (set_client p k c) = lru_reqs p" "answered (set_client p k c) = answered p"
  by (simp_all add: set_client_def)

text \<open>The guard of \<open>remove_active_client_by_index\<close> holds for every index of the list.\<close>

lemma remove_active_noop: "i \<le> length (active_clients p) \<Longrightarrow> remove_active_client_by_index p i = Ret (p, False)"
  by (simp add: remove_active_client_by_index_def)

lemma remove_by_id_noop: "i + length ks \<le> length (active_clients p) \<Longrightarrow> remove_by_id p s i ks = Ret p"
  by (induction ks arbitrary: i) (auto simp: remove_active_noop)

lemma remove_ids_noop: "remove_ids p is = Ret p"
  by (induction "is") (simp_all add: remove_by_id_noop)

lemma broadcast_send_lists:
  "broadcast_send p packet ks = Ret (p', removes) \<Longrightarrow>
    active_clients p' = active_clients p \<and> inactive_clients p' = inactive_clients p \<and> plock p' = plock p"
  by (induction ks arbitrary: p p' removes) (auto simp: obind_Ret Let_def split: prod.splits)

lemma hash_index_less:
  assumes "0 < n" "n < 2 ^ 32"
  shows "unat (hash mod (of_nat n :: 32 word)) = unat hash mod n" "unat hash mod n < n" "(of_nat n :: 32 word) \<noteq> 0"
proof -
  have u: "unat (of_nat n :: 32 word) = n" using assms(2) by (simp add: unat_of_nat take_bit_nat_eq_self)
  show "unat (hash mod (of_nat n :: 32 word)) = unat hash mod n" by (simp add: unat_mod_distrib u)
  show "unat hash mod n < n" using assms(1) by simp
  show "(of_nat n :: 32 word) \<noteq> 0" using u assms(1) by auto
qed

lemma do_send_by_hash_node:
  assumes "active_clients p \<noteq> []" "length (active_clients p) < 2 ^ 32"
    and k: "k = active_clients p ! (unat hash mod length (active_clients p))"
  shows "do_send_by_hash L waiting p hash packet =
    obind (Send (clients p k) packet) (\<lambda>(c, err). Ret (set_client p k c))"
proof -
  let ?n = "length (active_clients p)"
  have n: "0 < ?n" using assms(1) by simp
  note h = hash_index_less(1,2) [OF n assms(2), of hash] hash_index_less(3) [OF n assms(2)]
  have i: "idx (active_clients p) (unat hash mod ?n) = Some k" using h(2) k by (simp add: idx_Some)
  have "remove_active_client_by_index (set_client p k c) (unat hash mod ?n) = Ret (set_client p k c, False)" for c
    using h(2) by (simp add: remove_active_noop)
  then show ?thesis using n h(3)
    by (cases "Send (clients p k) packet") (auto simp: do_send_by_hash_def Let_def h(1) i)
qed

section \<open>No node\<close>

lemma take_pending_locked: "plock p \<Longrightarrow> take_pending L p t = Blocked"
  by (simp add: take_pending_def)

lemma add_locked: "plock p \<Longrightarrow> add_to_call_queue L p r = Blocked"
  by (simp add: add_to_call_queue_def)

lemma take_pending_leaks:
  assumes "lru_removes L" "\<not> plock p"
  shows "\<exists>c. take_pending L p t = Ret (Inl (p\<lparr>plock := True, lru_reqs := c\<rparr>))"
proof (cases "lru_Get L (lru_reqs p) t")
  case (Pair c r)
  then show ?thesis using assms
    by (cases r) (auto simp: take_pending_def find_pending_def no_evicted_def lru_Remove_nil)
qed

lemma do_send_no_node:
  assumes "lru_removes L" "\<not> plock p" "active_clients p = []" "call_type r \<noteq> kBroadcast"
  shows "\<exists>c. do_send L waiting p r = Ret (p\<lparr>plock := True, lru_reqs := c\<rparr>)"
  using take_pending_leaks [OF assms(1,2), of "TraceId (Header (req r))"] assms(3,4)
  by (auto simp: do_send_def do_send_by_hash_def)

section \<open>Reconnecting\<close>

definition unlocked :: "('c, 'b) ObjectProxy \<Rightarrow> bool" where
  "unlocked p \<longleftrightarrow> (\<forall>k. \<not> tLock (clients p k))"

definition connected :: "('c, 'b) ObjectProxy \<Rightarrow> nat \<Rightarrow> bool" where
  "connected p k \<longleftrightarrow> tState (clients p k) = StateConnected"

definition due :: "int \<Rightarrow> ('c, 'b) ObjectProxy \<Rightarrow> nat \<Rightarrow> bool" where
  "due now p k \<longleftrightarrow> retry_connect_ts (tParam (clients p k)) \<le> now"

text \<open>What a retry leaves as it was: who the clients are and when they are due.\<close>

definition same_clients :: "('c, 'b) ObjectProxy \<Rightarrow> ('c, 'b) ObjectProxy \<Rightarrow> bool" where
  "same_clients p p' \<longleftrightarrow>
     (\<forall>k. tHost (clients p' k) = tHost (clients p k) \<and> tPort (clients p' k) = tPort (clients p k) \<and>
          tParam (clients p' k) = tParam (clients p k) \<and> (connected p k \<longrightarrow> connected p' k))"

lemma same_clients_refl: "same_clients p p" and same_clients_trans: "same_clients p q \<Longrightarrow> same_clients q r \<Longrightarrow> same_clients p r"
  by (auto simp: same_clients_def)

lemma Connect_ok:
  assumes "\<not> tLock c"
  shows "\<exists>c' err. Connect e c = Ret (c', err) \<and> \<not> tLock c' \<and> tParam c' = tParam c \<and> tHost c' = tHost c \<and> tPort c' = tPort c \<and>
    (if err = None then tState c' = StateConnected else c' = c \<and> tState c \<noteq> StateConnected)"
proof -
  have "c\<lparr>tLock := False\<rparr> = c" using assms by (cases c) simp
  then show ?thesis using assms by (cases e) (auto simp: Connect_def client_critical_def client_mutex.runs)
qed

lemma retry_scan_ok:
  assumes "unlocked p"
  shows "\<exists>p' n' r. retry_scan dial now n i ks p = Ret (p', n', r) \<and> unlocked p' \<and> same_clients p p' \<and>
    active_clients p' = active_clients p \<and> inactive_clients p' = inactive_clients p \<and> plock p' = plock p \<and>
    (case r of
       Some j \<Rightarrow> i \<le> j \<and> j < i + length ks \<and> connected p' (ks ! (j - i))
     | None \<Rightarrow> (\<forall>k. connected p' k = connected p k) \<and> (\<forall>k\<in>set ks. due now p k \<longrightarrow> \<not> connected p k))"
  using assms
proof (induction ks arbitrary: n i p)
  case Nil
  then show ?case by (simp add: same_clients_refl)
next
  case (Cons k ks)
  have shift: "(j - i) = Suc (j - Suc i)" if "Suc i \<le> j" for j using that by simp
  show ?case
  proof (cases "due now p k")
    case False
    then have "retry_scan dial now n i (k # ks) p = retry_scan dial now n (Suc i) ks p" by (simp add: due_def)
    then show ?thesis using Cons.IH [OF Cons.prems, of n "Suc i"] False shift
      by (force split: option.splits)
  next
    case True
    obtain c err where c: "Connect (dial n (clients p k)) (clients p k) = Ret (c, err)" "\<not> tLock c"
      "tParam c = tParam (clients p k)" "tHost c = tHost (clients p k)" "tPort c = tPort (clients p k)"
      "if err = None then tState c = StateConnected else c = clients p k \<and> tState (clients p k) \<noteq> StateConnected"
      using Connect_ok [of "clients p k" "dial n (clients p k)"] Cons.prems by (auto simp: unlocked_def)
    let ?p = "set_client p k c"
    have u: "unlocked ?p" using Cons.prems c(2) by (simp add: unlocked_def)
    show ?thesis
    proof (cases err)
      case None
      then have "same_clients p ?p" "connected ?p k" using c by (auto simp: same_clients_def connected_def)
      then show ?thesis using True u c None
        by (intro exI [of _ ?p] exI [of _ "Suc n"] exI [of _ "Some i"]) (simp add: due_def)
    next
      case (Some e)
      then have p: "?p = p" "\<not> connected p k" using c(6) by (cases p; simp add: set_client_def connected_def)+
      have "retry_scan dial now n i (k # ks) p = retry_scan dial now (Suc n) (Suc i) ks p"
        using True c(1) Some p(1) by (simp add: due_def)
      then show ?thesis using Cons.IH [OF Cons.prems, of "Suc n" "Suc i"] p(2) shift
        by (force split: option.splits)
    qed
  qed
qed

lemma mset_remove_at: "i < length xs \<Longrightarrow> mset (remove_at i xs) + {#xs ! i#} = mset xs"
  by (subst (3) id_take_nth_drop [of i xs]) (simp_all add: remove_at_def)

lemma length_remove_at: "i < length xs \<Longrightarrow> Suc (length (remove_at i xs)) = length xs"
  by (simp add: remove_at_def)

lemma set_remove_at: "i < length xs \<Longrightarrow> set xs = insert (xs ! i) (set (remove_at i xs))"
  using mset_remove_at [of i xs] by (metis set_mset_add_mset_insert set_mset_mset union_commute add_mset_add_single)

lemma retry_loop_ok:
  assumes "unlocked p" "length (inactive_clients p) < fuel"
  shows "\<exists>p'. retry_loop fuel dial now n p = Some (Ret p') \<and> unlocked p' \<and> same_clients p p' \<and> plock p' = plock p \<and>
    mset (active_clients p') + mset (inactive_clients p') = mset (active_clients p) + mset (inactive_clients p) \<and>
    (\<exists>new. active_clients p' = active_clients p @ new \<and> (\<forall>k\<in>set new. connected p' k)) \<and>
    (\<forall>k\<in>set (inactive_clients p'). due now p' k \<longrightarrow> \<not> connected p' k)"
  using assms
proof (induction fuel arbitrary: n p)
  case (Suc fuel)
  obtain q m r where q: "retry_scan dial now n 0 (inactive_clients p) p = Ret (q, m, r)" "unlocked q" "same_clients p q"
    "active_clients q = active_clients p" "inactive_clients q = inactive_clients p" "plock q = plock p"
    and r: "case r of Some j \<Rightarrow> 0 \<le> j \<and> j < 0 + length (inactive_clients p) \<and> connected q (inactive_clients p ! (j - 0))
      | None \<Rightarrow> (\<forall>k. connected q k = connected p k) \<and> (\<forall>k\<in>set (inactive_clients p). due now p k \<longrightarrow> \<not> connected p k)"
    using retry_scan_ok [OF Suc.prems(1), of dial now n 0 "inactive_clients p"] by blast
  have d: "due now q k = due now p k" for k using q(3) by (simp add: due_def same_clients_def)
  show ?case
  proof (cases r)
    case None
    then show ?thesis using q r d by (intro exI [of _ q]) simp
  next
    case (Some i)
    then have i: "i < length (inactive_clients p)" "connected q (inactive_clients p ! i)" using r by simp_all
    let ?q = "q\<lparr>active_clients := active_clients q @ [inactive_clients q ! i], inactive_clients := remove_at i (inactive_clients q)\<rparr>"
    have "unlocked ?q" "length (inactive_clients ?q) < fuel"
      using q(2,5) Suc.prems(2) length_remove_at [OF i(1)] by (simp_all add: unlocked_def)
    from Suc.IH [OF this, of m] obtain p' new where p': "retry_loop fuel dial now m ?q = Some (Ret p')" "unlocked p'" "same_clients ?q p'"
      "plock p' = plock p" "mset (active_clients p') + mset (inactive_clients p') = mset (active_clients ?q) + mset (inactive_clients ?q)"
      "active_clients p' = active_clients ?q @ new" "\<forall>k\<in>set new. connected p' k"
      "\<forall>k\<in>set (inactive_clients p'). due now p' k \<longrightarrow> \<not> connected p' k" using q(6) by auto
    have qq: "same_clients q ?q" by (simp add: same_clients_def connected_def)
    have sc: "same_clients p p'" by (rule same_clients_trans [OF same_clients_trans [OF q(3) qq] p'(3)])
    have "connected p' (inactive_clients p ! i)" using i(2) p'(3) by (simp add: same_clients_def connected_def)
    then show ?thesis using p' q i sc Some mset_remove_at [OF i(1)]
      by (intro exI [of _ p'] conjI exI [of _ "(inactive_clients p ! i) # new"]) (auto simp: union_assoc union_commute)
  qed
qed simp

lemma retry_client_connect_ok:
  assumes "unlocked p"
  shows "\<exists>p'. retry_client_connect dial now p = Ret p' \<and> unlocked p' \<and> same_clients p p' \<and> plock p' = plock p \<and>
    mset (active_clients p') + mset (inactive_clients p') = mset (active_clients p) + mset (inactive_clients p) \<and>
    (\<forall>k\<in>set (active_clients p'). k \<in> set (active_clients p) \<or> connected p' k) \<and>
    (\<forall>k\<in>set (inactive_clients p'). due now p' k \<longrightarrow> \<not> connected p' k) \<and>
    sorted (map (\<lambda>k. client_addr (clients p' k)) (active_clients p'))"
proof -
  obtain q new where q: "retry_loop (Suc (length (inactive_clients p))) dial now 0 p = Some (Ret q)" "unlocked q"
    "same_clients p q" "plock q = plock p"
    "mset (active_clients q) + mset (inactive_clients q) = mset (active_clients p) + mset (inactive_clients p)"
    "active_clients q = active_clients p @ new" "\<forall>k\<in>set new. connected q k"
    "\<forall>k\<in>set (inactive_clients q). due now q k \<longrightarrow> \<not> connected q k"
    using retry_loop_ok [OF assms, of "Suc (length (inactive_clients p))" dial now 0] by auto
  let ?q = "q\<lparr>active_clients := sort_clients (clients q) (active_clients q)\<rparr>"
  have eq: "connected (q\<lparr>active_clients := a\<rparr>) = connected q" "due now (q\<lparr>active_clients := a\<rparr>) = due now q" for a by (simp_all add: connected_def due_def fun_eq_iff)
  have "retry_client_connect dial now p = Ret ?q" using q(1) by (simp add: retry_client_connect_def)
  moreover have "same_clients p ?q" using q(3) by (simp add: same_clients_def connected_def)
  moreover have "unlocked ?q" using q(2) by (simp add: unlocked_def)
  ultimately show ?thesis using q(4-8)
    by (intro exI [of _ ?q]) (auto simp: eq sort_clients_def)
qed

section \<open>Properties\<close>

definition demo_lru :: "((string \<times> 'v) list, string, 'v) lru_ops" where
  "demo_lru = \<lparr>lruNew = (\<lambda>_. []), lruAdd = (\<lambda>c k v. ((k, v) # filter (\<lambda>e. fst e \<noteq> k) c, None)),
     lruGet = (\<lambda>c k. (c, map_of c k)), lruRemove = (\<lambda>c k. (filter (\<lambda>e. fst e \<noteq> k) c, map_option (Pair k) (map_of c k))),
     lruRemoveOldest = (\<lambda>c. (butlast c, if c = [] then None else Some (last c))), lruLen = (\<lambda>c. int (length c))\<rparr>"

lemma demo_lru_removes: "lru_removes demo_lru"
  by (simp add: lru_removes_def demo_lru_def)

definition demo_node :: ServiceInfo where
  "demo_node = \<lparr>Name = ''online'', ServiceId = ''o1'', Host = ''h'', Port = 1\<rparr>"

text \<open>A proxy for one node, connected or not.\<close>

definition demo_client :: "string option \<Rightarrow> nat client" where
  "demo_client e = (case e of None \<Rightarrow> (NewTcpClient ''h'' 1 True \<lparr>cdServiceId = ''o1'', retry_connect_ts = 0, series_fail_count = 0\<rparr>)
       \<lparr>tChan := Some (make_chan kMaxSendChannelSize), tState := StateConnected, tConn := True\<rparr>
     | Some _ \<Rightarrow> NewTcpClient ''h'' 1 True \<lparr>cdServiceId = ''o1'', retry_connect_ts = 0, series_fail_count = 0\<rparr>)"

definition demo_proxy :: "string option \<Rightarrow> ((string \<times> nat CallRecord) list, nat) ObjectProxy" where
  "demo_proxy e = (case init_clients (\<lambda>_. e) [demo_node] (empty_proxy demo_lru 10 5 5 3 ''online'') of Ret p \<Rightarrow> p)"

definition demo_call :: "nat CallRecord" where
  "demo_call = \<lparr>call_type = kCall, rhash = 7, req = CreateReqPacket ''t1'' ''online'' ''m'' MS_CALL 42, send_ts = 0\<rparr>"

lemma demo_proxy_simps:
  "active_clients (demo_proxy None) = [0]" "inactive_clients (demo_proxy None) = []"
  "active_clients (demo_proxy (Some e)) = []" "inactive_clients (demo_proxy (Some e)) = [0]"
  "clients (demo_proxy d) 0 = demo_client d" "plock (demo_proxy d) = False" "unlocked (demo_proxy d)"
  by (cases d;
      simp add: demo_proxy_def empty_proxy_def new_client_def demo_node_def Let_def set_client_def demo_client_def
        Connect_def client_critical_def critical_def NewTcpClient_def StateClose_def StateConnected_def unlocked_def)+

text \<open>
  C33: a call that is not a broadcast goes to the end of the send queue of the node its hash picks
  among the active ones, and to no other. When that node's connection is closed the call is dropped
  without an error, and the failure handling does nothing: the list of active nodes and the list of
  inactive ones are the same after every send, broadcasts included.
\<close>

theorem proxy_send_correct:
  assumes "active_clients p \<noteq> []" "length (active_clients p) < 2 ^ 32"
    and "k = active_clients p ! (unat (rhash record) mod length (active_clients p))"
  shows "(call_type record \<noteq> kBroadcast \<longrightarrow>
      do_send L waiting p record =
        (case tChan (clients p k) of
           None \<Rightarrow> Blocked
         | Some ch \<Rightarrow>
           if closed ch then Ret p
           else if length (buf ch) < cap ch
                then Ret (set_client p k ((clients p k)\<lparr>tChan := Some (ch\<lparr>buf := buf ch @ [req record]\<rparr>)\<rparr>))
                else Blocked)) \<and>
    (\<forall>p'. do_send L waiting p record = Ret p' \<longrightarrow>
       active_clients p' = active_clients p \<and> inactive_clients p' = inactive_clients p)"
proof -
  have self: "set_client p k (clients p k) = p" by (cases p) (simp add: set_client_def)
  have hash: "do_send_by_hash L waiting p (rhash record) (req record) =
        (case tChan (clients p k) of
           None \<Rightarrow> Blocked
         | Some ch \<Rightarrow>
           if closed ch then Ret p
           else if length (buf ch) < cap ch
                then Ret (set_client p k ((clients p k)\<lparr>tChan := Some (ch\<lparr>buf := buf ch @ [req record]\<rparr>)\<rparr>))
                else Blocked)"
    unfolding do_send_by_hash_node [OF assms] Send_Ret by (simp add: self split: option.splits)
  show ?thesis
  proof (cases "call_type record = kBroadcast")
    case True
    then show ?thesis
      by (auto simp: do_send_def do_send_by_broadcast_def obind_Ret remove_ids_noop dest: broadcast_send_lists)
  next
    case False
    then show ?thesis by (simp add: do_send_def hash split: option.splits)
  qed
qed

theorem proxy_send_correct_witness:
  "\<exists>p'. do_send demo_lru (\<lambda>_. True) (demo_proxy None) demo_call = Ret p' \<and>
     tChan (clients p' 0) = Some ((make_chan kMaxSendChannelSize)\<lparr>buf := [req demo_call]\<rparr>)"
proof -
  have "call_type demo_call \<noteq> kBroadcast" by (simp add: demo_call_def kCall_def kBroadcast_def)
  moreover have "tChan (clients (demo_proxy None) 0) = Some (make_chan kMaxSendChannelSize)"
    by (simp add: demo_proxy_simps demo_client_def)
  ultimately show ?thesis
    using proxy_send_correct [of "demo_proxy None" 0 demo_call demo_lru "\<lambda>_. True"]
    by (simp add: demo_proxy_simps make_chan_def kMaxSendChannelSize_def)
qed

text \<open>
  C34: without an active node the first call stops the proxy for good. Sending it finds the pending
  call and removes it from the cache, which has no eviction callback: the removal panics, the panic
  is recovered and the mutex stays held. (When the call is not pending, the return leaves the mutex
  held as well.) The caller gets no answer, and every later call, cast, send and response blocks.
\<close>

theorem no_node_stops_proxy:
  assumes "lru_removes L" "\<not> plock p" "active_clients p = []" "call_type record \<noteq> kBroadcast"
  shows "\<exists>p'. do_send L waiting p record = Ret p' \<and> plock p' \<and> answered p' = answered p \<and>
    (\<forall>now h r. CallBegin L now p' h r = Blocked \<and> CallAsync L now p' h r = Blocked \<and>
       proxy_Cast L now p' h r = Blocked \<and> Broadcast L now p' r = Blocked) \<and>
    (\<forall>record'. call_type record' \<noteq> kBroadcast \<longrightarrow> do_send L waiting p' record' = Blocked) \<and>
    (\<forall>now k packet. on_client_recv L waiting now p' k packet = Blocked)"
proof -
  obtain c where "do_send L waiting p record = Ret (p\<lparr>plock := True, lru_reqs := c\<rparr>)"
    using do_send_no_node [OF assms] by blast
  then show ?thesis using assms(3)
    by (intro exI [of _ "p\<lparr>plock := True, lru_reqs := c\<rparr>"])
      (simp add: do_send_def do_send_by_hash_def CallBegin_def CallAsync_def proxy_Cast_def Broadcast_def
        on_client_recv_def add_locked take_pending_locked)
qed

theorem no_node_stops_proxy_witness:
  "\<exists>p'. do_send demo_lru (\<lambda>_. True) (demo_proxy (Some ''refused'')) demo_call = Ret p' \<and> answered p' = answered (demo_proxy (Some ''refused'')) \<and>
     CallBegin demo_lru 0 p' 7 (req demo_call) = Blocked"
proof -
  have "call_type demo_call \<noteq> kBroadcast" "\<not> plock (demo_proxy (Some ''refused''))" "active_clients (demo_proxy (Some ''refused'')) = []"
    by (simp_all add: demo_call_def kCall_def kBroadcast_def demo_proxy_simps)
  from no_node_stops_proxy [OF demo_lru_removes this(2,3,1), of "\<lambda>_. True"] show ?thesis by blast
qed



text \<open>
  A connection that was lost counts twice afterwards. The event of its closing puts the client
  on the inactive list and leaves it on the active one; when the next retry connects it, it is on the
  active list twice, and the hash picks it twice as often.
\<close>

theorem closed_client_twice:
  assumes "unlocked p" "inactive_clients p = []" "active_clients p = before @ k # after"
    and "find_client_index (clients p) (active_clients p) (ecHost ch) (ecPort ch) (ecServiceId ch) = Some (length before)"
    and "ecEvent ch = kClientClose" "due now p k"
  shows "\<exists>p' p2. do_event p (EvClientChange ch) = Ret p' \<and> active_clients p' = active_clients p \<and> inactive_clients p' = [k] \<and>
    retry_client_connect (\<lambda>_ _. None) now p' = Ret p2 \<and> mset (active_clients p2) = mset (active_clients p) + {#k#} \<and>
    inactive_clients p2 = []"
proof -
  let ?p = "p\<lparr>inactive_clients := [k]\<rparr>"
  have e: "do_event p (EvClientChange ch) = Ret ?p"
    using assms(2-5) by (simp add: do_event_def do_event_client_change_def do_client_close_def kClientClose_def kClientExit_def)
  obtain c where c: "Connect None (clients p k) = Ret (c, None)"
    using Connect_ok [of "clients p k" None] assms(1)
    by (auto simp: unlocked_def Connect_def client_critical_def critical_def split: if_splits)
  have nd: "\<not> now < retry_connect_ts (tParam (clients p k))" using assms(6) by (simp add: due_def)
  have s1: "retry_scan (\<lambda>_ _. None) now 0 0 [k] ?p = Ret (set_client ?p k c, 1, Some 0)"
    using nd c by simp
  have s2: "retry_loop (Suc (length (inactive_clients ?p))) (\<lambda>_ _. None) now 0 ?p =
      Some (Ret ((set_client ?p k c)\<lparr>active_clients := active_clients p @ [k], inactive_clients := []\<rparr>))"
    using s1 by (simp add: remove_at_def)
  let ?q = "(set_client ?p k c)\<lparr>active_clients := active_clients p @ [k], inactive_clients := []\<rparr>"
  let ?q2 = "?q\<lparr>active_clients := sort_clients (clients ?q) (active_clients ?q)\<rparr>"
  have "retry_client_connect (\<lambda>_ _. None) now ?p = Ret ?q2"
    unfolding retry_client_connect_def s2 by simp
  then show ?thesis using e
    by (intro exI [of _ ?p] exI [of _ ?q2]) (simp add: sort_clients_def)
qed

theorem closed_client_twice_witness:
  "\<exists>p' p2. do_event (demo_proxy None) (EvClientChange \<lparr>ecEvent = kClientClose, ecServiceId = ''o1'', ecHost = ''h'', ecPort = 1\<rparr>) = Ret p' \<and>
     retry_client_connect (\<lambda>_ _. None) 0 p' = Ret p2 \<and> mset (active_clients p2) = {#0, 0#}"
proof -
  let ?ch = "\<lparr>ecEvent = kClientClose, ecServiceId = ''o1'', ecHost = ''h'', ecPort = 1\<rparr>"
  have 1: "active_clients (demo_proxy None) = [] @ 0 # []" by (simp add: demo_proxy_simps)
  have 2: "find_client_index (clients (demo_proxy None)) (active_clients (demo_proxy None)) (ecHost ?ch) (ecPort ?ch) (ecServiceId ?ch) = Some (length [])"
    by (simp add: demo_proxy_simps demo_client_def NewTcpClient_def)
  have 3: "due 0 (demo_proxy None) 0" by (simp add: due_def demo_proxy_simps demo_client_def NewTcpClient_def)
  from closed_client_twice [OF demo_proxy_simps(7,2) 1 2 _ 3] show ?thesis by (auto simp: demo_proxy_simps)
qed

end
