(* ===== verification/Pusher.thy ===== *)
theory Pusher
  imports ObjProxy Gateway
begin

text \<open>
  \<^verbatim>\<open>src/server/pusher/handle/pusher_handle.go\<close>: the server that passes push requests on to the gateways.
  Packets are pointers: \<open>reqs\<close> is the heap of the push requests, the queues and the send queues of the
  gateway clients hold pointers into it, and \<open>do_pusher_small\<close> overwrites a request it has already
  queued. The order in which Go visits a map is the argument \<open>order\<close>; a dial, the clock, the result of
  \<^verbatim>\<open>get_addr_search.Call\<close> and of \<^verbatim>\<open>container.CallByPacket\<close> are arguments.
\<close>

section \<open>Data\<close>

record user_info =
  uaddr :: string
  uexpire_ts :: int

type_synonym push_client = "(nat, unit) TcpClient"

record gw_client =
  gateway_id :: string
  gchost :: string
  gcport :: int
  gclient :: push_client

record ('c, 'j) PusherHandle =
  UserCacheSec :: int
  BroadcastUidCount :: int
  user_caches :: 'c
  gwclients :: "string \<rightharpoonup> gw_client"
  push_small :: "nat gochan"
  push_large :: "nat gochan"
  reqs :: "nat \<Rightarrow> 'j MIPushReq"
  hlock :: bool

type_synonym 'c user_ops = "('c, string, user_info) lru_ops"

definition no_user_evicted :: "(string \<Rightarrow> user_info \<Rightarrow> unit) option" where "no_user_evicted = None"

definition gw_addr :: "string \<Rightarrow> int \<Rightarrow> string" where
  "gw_addr host port = host @ '':'' @ show_int port"

section \<open>Starting\<close>

text \<open>\<open>dial\<close>: the result of connecting to a gateway; a failure is only logged.\<close>

fun init_gateway_clients ::
  "(ServiceInfo \<Rightarrow> string option) \<Rightarrow> ServiceInfo list \<Rightarrow> (string \<rightharpoonup> gw_client) \<Rightarrow> (string \<rightharpoonup> gw_client) outcome" where
  "init_gateway_clients dial [] m = Ret m"
| "init_gateway_clients dial (info # infos) m =
     obind (Connect (dial info) (NewTcpClient (Host info) (Port info) False ())) (\<lambda>(client, err).
       let g = \<lparr>gateway_id = ServiceId info, gchost = Host info, gcport = Port info, gclient = client\<rparr>
       in init_gateway_clients dial infos (m(gw_addr (Host info) (Port info) \<mapsto> g)))"

definition pusher_Init ::
  "'c user_ops \<Rightarrow> int \<Rightarrow> int \<Rightarrow> int \<Rightarrow> nat \<Rightarrow> string + ServiceInfo list \<Rightarrow> (ServiceInfo \<Rightarrow> string option) \<Rightarrow> (nat \<Rightarrow> 'j MIPushReq) \<Rightarrow>
   (string + ('c, 'j) PusherHandle) outcome" where
  "pusher_Init L cache_sec cache_size uid_count channel_count found dial heap =
     (case found of
        Inl err \<Rightarrow> Ret (Inl err)
      | Inr infos \<Rightarrow>
        obind (init_gateway_clients dial infos Map.empty) (\<lambda>m.
          Ret (Inr \<lparr>UserCacheSec = cache_sec, BroadcastUidCount = uid_count, user_caches = lruNew L cache_size,
            gwclients = m, push_small = make_chan channel_count, push_large = make_chan channel_count,
            reqs = heap, hlock = False\<rparr>)))"

section \<open>Receiving requests\<close>

text \<open>
  The request of a packet is its body's pointer when the body has the type \<^verbatim>\<open>*MIPushReq\<close>; the assertion
  panics on what JSON decodes to.
\<close>

datatype 'j push_body = PushJson 'j | PushReqPtr nat

definition pusher_OnMessage :: "('c, 'j) PusherHandle \<Rightarrow> 'j push_body MServicePacket \<Rightarrow> ('c, 'j) PusherHandle outcome" where
  "pusher_OnMessage p mpacket =
     (case Body mpacket of
        PushJson j \<Rightarrow> Crash
      | PushReqPtr r \<Rightarrow>
        let size = int (length (pushUids (reqs p r)))
        in if size \<ge> BroadcastUidCount p
           then obind (chan_send (Some (push_large p)) r) (\<lambda>c. Ret (p\<lparr>push_large := c\<rparr>))
           else obind (chan_send (Some (push_small p)) r) (\<lambda>c. Ret (p\<lparr>push_small := c\<rparr>)))"

section \<open>Gateway connections\<close>

definition put_client :: "('c, 'j) PusherHandle \<Rightarrow> string \<Rightarrow> push_client \<Rightarrow> ('c, 'j) PusherHandle" where
  "put_client p addr c =
     (case gwclients p addr of
        None \<Rightarrow> p
      | Some g \<Rightarrow> p\<lparr>gwclients := (gwclients p)(addr \<mapsto> g\<lparr>gclient := c\<rparr>)\<rparr>)"

fun clients_in_state :: "('c, 'j) PusherHandle \<Rightarrow> int \<Rightarrow> string list \<Rightarrow> string list outcome" where
  "clients_in_state p st [] = Ret []"
| "clients_in_state p st (addr # order) =
     (case gwclients p addr of
        None \<Rightarrow> clients_in_state p st order
      | Some g \<Rightarrow>
        obind (GetState (gclient g)) (\<lambda>(_, s).
          obind (clients_in_state p st order) (\<lambda>addrs. Ret (if s = st then addr # addrs else addrs))))"

fun connect_all :: "(string \<Rightarrow> string option) \<Rightarrow> string list \<Rightarrow> ('c, 'j) PusherHandle \<Rightarrow> ('c, 'j) PusherHandle outcome" where
  "connect_all dial [] p = Ret p"
| "connect_all dial (addr # addrs) p =
     (case gwclients p addr of
        None \<Rightarrow> connect_all dial addrs p
      | Some g \<Rightarrow> obind (Connect (dial addr) (gclient g)) (\<lambda>(c, _). connect_all dial addrs (put_client p addr c)))"

definition pusher_retry ::
  "(string \<Rightarrow> string option) \<Rightarrow> string list \<Rightarrow> ('c, 'j) PusherHandle \<Rightarrow> ('c, 'j) PusherHandle outcome" where
  "pusher_retry dial order p =
     obind (Lock (hlock p)) (\<lambda>b.
       obind (clients_in_state p StateClose order) (\<lambda>retry_clients.
         obind (Unlock b) (\<lambda>b. connect_all dial retry_clients (p\<lparr>hlock := b\<rparr>))))"

definition get_active_clients :: "string list \<Rightarrow> ('c, 'j) PusherHandle \<Rightarrow> (('c, 'j) PusherHandle \<times> string list) outcome" where
  "get_active_clients order p =
     obind (Lock (hlock p)) (\<lambda>b.
       obind (clients_in_state p StateConnected order) (\<lambda>addrs.
         obind (Unlock b) (\<lambda>b. Ret (p\<lparr>hlock := b\<rparr>, addrs))))"

text \<open>
  \<open>service_change\<close> up to its second \<^verbatim>\<open>p.Lock()\<close>: the first loop, with the gateways it replaces, and the
  connections to these. A gateway at a new address is not added.
\<close>

fun apply_changes ::
  "ServiceChange list \<Rightarrow> ('c, 'j) PusherHandle \<Rightarrow> (('c, 'j) PusherHandle \<times> ServiceInfo list) outcome" where
  "apply_changes [] p = Ret (p, [])"
| "apply_changes (change # changes) p =
     (let s = ChService change; addr = gw_addr (Host s) (Port s)
      in case gwclients p addr of
           None \<Rightarrow> apply_changes changes p
         | Some g \<Rightarrow>
           if ChOp change = ServicePut
           then if ServiceId s \<noteq> gateway_id g
                then obind (client_Close (gclient g)) (\<lambda>(c, _).
                       obind (apply_changes changes (put_client p addr c)) (\<lambda>(p, new). Ret (p, s # new)))
                else apply_changes changes p
           else if ServiceId s = gateway_id g
                then obind (client_Close (gclient g)) (\<lambda>(c, _).
                       apply_changes changes (p\<lparr>gwclients := (gwclients p)(addr := None)\<rparr>))
                else apply_changes changes p)"

definition service_change_locked ::
  "(ServiceInfo \<Rightarrow> string option) \<Rightarrow> ('c, 'j) PusherHandle \<Rightarrow> ServiceChange list \<Rightarrow> (('c, 'j) PusherHandle \<times> (string \<rightharpoonup> gw_client)) outcome" where
  "service_change_locked dial p changes =
     obind (Lock (hlock p)) (\<lambda>b.
       obind (apply_changes changes (p\<lparr>hlock := b\<rparr>)) (\<lambda>(p, new).
         obind (init_gateway_clients dial new Map.empty) (\<lambda>m. Ret (p, m))))"

definition service_change ::
  "(ServiceInfo \<Rightarrow> string option) \<Rightarrow> ('c, 'j) PusherHandle \<Rightarrow> ServiceChange list \<Rightarrow> ('c, 'j) PusherHandle outcome" where
  "service_change dial p changes =
     obind (service_change_locked dial p changes) (\<lambda>(p, m).
       obind (Lock (hlock p)) (\<lambda>b.
         let p = p\<lparr>gwclients := gwclients p ++ m, hlock := b\<rparr>
         in obind (Unlock (hlock p)) (\<lambda>b. obind (Unlock b) (\<lambda>b. Ret (p\<lparr>hlock := b\<rparr>)))))"

section \<open>Finding a user\<close>

text \<open>
  \<^verbatim>\<open>get_remote_user_addr\<close>: the assertion on the response's body panics on what JSON decodes to.
\<close>

datatype 'j user_resp = RespJson 'j | UserNodeResp string UserNode

definition get_remote_user_addr :: "string + 'j user_resp MServicePacket \<Rightarrow> (string + string) outcome" where
  "get_remote_user_addr resp =
     (case resp of
        Inl err \<Rightarrow> Ret (Inl err)
      | Inr r \<Rightarrow>
        (case Body r of
           RespJson j \<Rightarrow> Crash
         | UserNodeResp err user \<Rightarrow>
           if err \<noteq> '''' then Ret (Inl err) else Ret (Inr (gw_addr (nHost user) (nPort user)))))"

text \<open>The hit returns with the mutex held. \<open>now1\<close> and \<open>now2\<close> are the two readings of the clock.\<close>

definition get_uid_addr ::
  "'c user_ops \<Rightarrow> int \<Rightarrow> int \<Rightarrow> (string \<Rightarrow> (string + string) outcome) \<Rightarrow> ('c, 'j) PusherHandle \<Rightarrow> string \<Rightarrow>
   (('c, 'j) PusherHandle \<times> (string + string)) outcome" where
  "get_uid_addr L now1 now2 search p uid =
     obind (Lock (hlock p)) (\<lambda>b.
       let (c, found) = lru_Get L (user_caches p) uid; p = p\<lparr>hlock := b, user_caches := c\<rparr>
       in case (case found of Some user \<Rightarrow> if uexpire_ts user > now1 then Some user else None | None \<Rightarrow> None) of
            Some user \<Rightarrow> Ret (p, Inr (uaddr user))
          | None \<Rightarrow>
            obind (Unlock (hlock p)) (\<lambda>b.
              obind (search uid) (\<lambda>r.
                case r of
                  Inl err \<Rightarrow> Ret (p\<lparr>hlock := b\<rparr>, Inl err)
                | Inr addr \<Rightarrow>
                  obind (Lock b) (\<lambda>b.
                    case lru_Set L no_user_evicted (user_caches p) uid \<lparr>uaddr = addr, uexpire_ts = i64 (now2 + UserCacheSec p)\<rparr> of
                      (c, None) \<Rightarrow> Crash
                    | (c, Some _) \<Rightarrow> obind (Unlock b) (\<lambda>b. Ret (p\<lparr>hlock := b, user_caches := c\<rparr>, Inr addr))))))"

section \<open>Passing requests on\<close>

text \<open>
  One packet of \<open>do_pusher_small\<close>: for each of the request's users, the request is overwritten to name
  that user alone and queued for the user's gateway. \<open>addr_of\<close> stands for \<open>get_uid_addr\<close>.
\<close>

fun small_loop ::
  "(('c, 'j) PusherHandle \<Rightarrow> string \<Rightarrow> (('c, 'j) PusherHandle \<times> (string + string)) outcome) \<Rightarrow> nat \<Rightarrow> string list \<Rightarrow>
   ('c, 'j) PusherHandle \<Rightarrow> ('c, 'j) PusherHandle outcome" where
  "small_loop addr_of r [] p = Ret p"
| "small_loop addr_of r (uid # uids) p =
     obind (addr_of p uid) (\<lambda>(p, res).
       case res of
         Inl err \<Rightarrow> small_loop addr_of r uids p
       | Inr addr \<Rightarrow>
         let p = p\<lparr>reqs := (reqs p)(r := (reqs p r)\<lparr>pushUids := [uid]\<rparr>)\<rparr>
         in case gwclients p addr of
              None \<Rightarrow> small_loop addr_of r uids p
            | Some g \<Rightarrow> obind (Send (gclient g) r) (\<lambda>(c, _). small_loop addr_of r uids (put_client p addr c)))"

definition do_pusher_small ::
  "(('c, 'j) PusherHandle \<Rightarrow> string \<Rightarrow> (('c, 'j) PusherHandle \<times> (string + string)) outcome) \<Rightarrow>
   ('c, 'j) PusherHandle \<Rightarrow> ('c, 'j) PusherHandle outcome" where
  "do_pusher_small addr_of p =
     obind (chan_recv (push_small p)) (\<lambda>(c, x).
       let p = p\<lparr>push_small := c\<rparr>
       in case x of None \<Rightarrow> Ret p | Some r \<Rightarrow> small_loop addr_of r (pushUids (reqs p r)) p)"

fun send_all :: "nat \<Rightarrow> string list \<Rightarrow> ('c, 'j) PusherHandle \<Rightarrow> ('c, 'j) PusherHandle outcome" where
  "send_all r [] p = Ret p"
| "send_all r (addr # addrs) p =
     (case gwclients p addr of
        None \<Rightarrow> send_all r addrs p
      | Some g \<Rightarrow> obind (Send (gclient g) r) (\<lambda>(c, _). send_all r addrs (put_client p addr c)))"

definition do_pusher_large :: "string list \<Rightarrow> ('c, 'j) PusherHandle \<Rightarrow> ('c, 'j) PusherHandle outcome" where
  "do_pusher_large order p =
     obind (chan_recv (push_large p)) (\<lambda>(c, x).
       let p = p\<lparr>push_large := c\<rparr>
       in case x of
            None \<Rightarrow> Ret p
          | Some r \<Rightarrow> obind (get_active_clients order p) (\<lambda>(p, addrs). send_all r addrs p))"

end
