(* ===== verification/PusherSpec.thy ===== *)
theory PusherSpec
  imports Pusher ObjProxySpec
begin

text \<open>
  What the operations of \<open>Pusher\<close> do: the mutex that \<open>service_change\<close> and a cache hit leave held, and
  the request that \<open>do_pusher_small\<close> shares between the users it is for.
\<close>

section \<open>A held mutex\<close>

definition pusher_stuck :: "'c user_ops \<Rightarrow> ('c, 'j) PusherHandle \<Rightarrow> bool" where
  "pusher_stuck L p \<longleftrightarrow>
     (\<forall>t1 t2 search uid. get_uid_addr L t1 t2 search p uid = Blocked) \<and>
     (\<forall>order. get_active_clients order p = Blocked) \<and>
     (\<forall>dial order. pusher_retry dial order p = Blocked) \<and>
     (\<forall>dial changes. service_change dial p changes = Blocked)"

lemma locked_stuck: "hlock p \<Longrightarrow> pusher_stuck L p"
  by (simp add: pusher_stuck_def get_uid_addr_def get_active_clients_def pusher_retry_def service_change_def
      service_change_locked_def)

lemma put_client_simps [simp]: "hlock (put_client p a c) = hlock p" "reqs (put_client p a c) = reqs p"
  by (simp_all add: put_client_def split: option.splits)

lemma apply_changes_lock: "apply_changes changes p = Ret (p', new) \<Longrightarrow> hlock p' = hlock p"
proof (induction changes arbitrary: p p' new)
  case (Cons ch changes)
  then show ?case
    by (auto simp: Let_def obind_Ret split: option.splits if_splits)
qed simp

lemma service_change_locked_lock: "service_change_locked dial p changes = Ret (p', m) \<Longrightarrow> hlock p'"
  by (cases "hlock p") (auto simp: service_change_locked_def obind_Ret dest!: apply_changes_lock)

section \<open>One request for many users\<close>

text \<open>Queueing the pointer \<open>r\<close> once more for the gateway at \<open>addr\<close>.\<close>

definition queued :: "('c, 'j) PusherHandle \<Rightarrow> string \<Rightarrow> nat list" where
  "queued p addr = (case gwclients p addr of
     Some g \<Rightarrow> (case tChan (gclient g) of Some ch \<Rightarrow> buf ch | None \<Rightarrow> []) | None \<Rightarrow> [])"

definition room :: "('c, 'j) PusherHandle \<Rightarrow> string \<Rightarrow> nat \<Rightarrow> bool" where
  "room p addr n \<longleftrightarrow> (\<exists>g ch. gwclients p addr = Some g \<and> tChan (gclient g) = Some ch \<and> \<not> gochan.closed ch \<and>
     length (buf ch) + n \<le> cap ch)"

lemma small_loop_one_gateway:
  assumes "\<And>p uid. addr_of p uid = Ret (p, Inr addr)" "room p addr (length uids)" "uids \<noteq> []"
  shows "\<exists>p'. small_loop addr_of r uids p = Ret p' \<and>
    queued p' addr = queued p addr @ replicate (length uids) r \<and> pushUids (reqs p' r) = [last uids]"
  using assms(2,3)
proof (induction uids arbitrary: p)
  case (Cons uid uids)
  obtain g ch where g: "gwclients p addr = Some g" "tChan (gclient g) = Some ch" "\<not> gochan.closed ch"
    "length (buf ch) + Suc (length uids) \<le> cap ch" using Cons.prems(1) by (auto simp: room_def)
  let ?q = "p\<lparr>reqs := (reqs p)(r := (reqs p r)\<lparr>pushUids := [uid]\<rparr>)\<rparr>"
  let ?c = "(gclient g)\<lparr>tChan := Some (ch\<lparr>buf := buf ch @ [r]\<rparr>)\<rparr>"
  let ?p = "put_client ?q addr ?c"
  have s: "Send (gclient g) r = Ret (?c, Some ''channel close'')" using g by (simp add: Send_Ret)
  have step: "small_loop addr_of r (uid # uids) p = small_loop addr_of r uids ?p"
    using assms(1) g(1) s by (simp add: Let_def)
  have p: "room ?p addr (length uids)" "queued ?p addr = queued p addr @ [r]" "pushUids (reqs ?p r) = [uid]"
    using g by (auto simp: room_def queued_def put_client_def)
  show ?case
  proof (cases "uids = []")
    case True
    then show ?thesis using step p by simp
  next
    case False
    then show ?thesis using Cons.IH [OF p(1) False] step p(2) by auto
  qed
qed simp

section \<open>Properties\<close>

text \<open>
  C10: the pusher stops at the first notice that a gateway changed. \<open>service_change\<close> never returns: when
  it comes to its second \<^verbatim>\<open>p.Lock()\<close> it holds the mutex itself, as the unlocking of the first is
  deferred to its end; from then on finding a user, listing the connected gateways, reconnecting and
  every further notice block.
\<close>

theorem service_change_deadlocks:
  "service_change dial p changes \<noteq> Ret p1 \<and>
   (\<forall>p' m. service_change_locked dial p changes = Ret (p', m) \<longrightarrow>
      service_change dial p changes = Blocked \<and> pusher_stuck L p')"
proof -
  have "service_change dial p changes = Blocked \<and> pusher_stuck L p'" if "service_change_locked dial p changes = Ret (p', m)" for p' m
    using service_change_locked_lock [OF that] that locked_stuck by (simp add: service_change_def)
  moreover from this have "service_change dial p changes \<noteq> Ret p1"
    by (cases "service_change_locked dial p changes") (auto simp: service_change_def)
  ultimately show ?thesis by blast
qed

definition demo_pusher :: "((string \<times> user_info) list, unit) PusherHandle" where
  "demo_pusher = \<lparr>UserCacheSec = 60, BroadcastUidCount = 3, user_caches = [(''u1'', \<lparr>uaddr = ''h:1'', uexpire_ts = 100\<rparr>)],
     gwclients = [''h:1'' \<mapsto> \<lparr>gateway_id = ''g1'', gchost = ''h'', gcport = 1,
        gclient = (NewTcpClient ''h'' 1 False ())\<lparr>tChan := Some (make_chan 1000), tState := StateConnected, tConn := True\<rparr>\<rparr>],
     push_small = make_chan 10, push_large = make_chan 10, reqs = (\<lambda>_. \<lparr>pushUids = [''u1'', ''u2''], pushCmd = ''c'', pushBody = ()\<rparr>),
     hlock = False\<rparr>"

theorem service_change_deadlocks_witness:
  "service_change (\<lambda>_. None) demo_pusher [] = Blocked"
proof -
  have "service_change_locked (\<lambda>_. None) demo_pusher [] = Ret (demo_pusher\<lparr>hlock := True\<rparr>, Map.empty)"
    by (simp add: service_change_locked_def demo_pusher_def)
  then show ?thesis using service_change_deadlocks [of "\<lambda>_. None" demo_pusher "[]" demo_pusher demo_lru] by blast
qed

text \<open>
  The pusher stops at the first user it knows. When the address of a user is in the cache and has not
  expired, \<open>get_uid_addr\<close> returns it with the mutex held, and from then on every operation of the
  pusher that needs the mutex blocks.
\<close>

theorem cached_user_stops_pusher:
  assumes "\<not> hlock p" "lru_Get L (user_caches p) uid = (c, Some user)" "now1 < uexpire_ts user"
  shows "\<exists>p'. get_uid_addr L now1 now2 search p uid = Ret (p', Inr (uaddr user)) \<and> pusher_stuck L p'"
  using assms by (intro exI [of _ "p\<lparr>hlock := True, user_caches := c\<rparr>"]) (simp add: get_uid_addr_def locked_stuck)

theorem cached_user_stops_pusher_witness:
  "\<exists>p'. get_uid_addr demo_lru 50 50 (\<lambda>_. Ret (Inl ''none'')) demo_pusher ''u1'' = Ret (p', Inr ''h:1'') \<and>
     get_uid_addr demo_lru 50 50 (\<lambda>_. Ret (Inl ''none'')) p' ''u2'' = Blocked"
proof -
  have p: "\<not> hlock demo_pusher"
    "lru_Get demo_lru (user_caches demo_pusher) ''u1'' = (user_caches demo_pusher, Some \<lparr>uaddr = ''h:1'', uexpire_ts = 100\<rparr>)"
    "50 < uexpire_ts \<lparr>uaddr = ''h:1'', uexpire_ts = 100\<rparr>"
    by (simp_all add: demo_pusher_def lru_Get_def demo_lru_def)
  show ?thesis
    using cached_user_stops_pusher [OF p, of 50 "\<lambda>_. Ret (Inl ''none'')"] by (auto simp: pusher_stuck_def)
qed

text \<open>
  A push to several users of one gateway reaches the last of them only. For each user the same
  request is overwritten with that user's id and its pointer queued again, so that when the users are
  on one connected gateway with room for them, its queue ends with as many copies of the one
  request as there are users, and the request names the last user alone.
\<close>

theorem small_push_names_last_user:
  assumes "push_small p = ch\<lparr>buf := r # rest\<rparr>" "pushUids (reqs p r) \<noteq> []"
    and "\<And>p uid. addr_of p uid = Ret (p, Inr addr)" "room p addr (length (pushUids (reqs p r)))"
  shows "\<exists>p'. do_pusher_small addr_of p = Ret p' \<and>
    queued p' addr = queued p addr @ replicate (length (pushUids (reqs p r))) r \<and>
    pushUids (reqs p' r) = [last (pushUids (reqs p r))]"
proof -
  let ?p = "p\<lparr>push_small := ch\<lparr>buf := rest\<rparr>\<rparr>"
  have q: "queued ?p addr = queued p addr" "room ?p addr n = room p addr n" for n by (simp_all add: queued_def room_def)
  have "do_pusher_small addr_of p = small_loop addr_of r (pushUids (reqs p r)) ?p"
    by (simp add: do_pusher_small_def assms(1) chan_recv_def)
  then show ?thesis using small_loop_one_gateway [of addr_of addr ?p "pushUids (reqs p r)" r] assms(2-4) q by simp
qed

theorem small_push_names_last_user_witness:
  "\<exists>p'. do_pusher_small (\<lambda>p uid. Ret (p, Inr ''h:1'')) (demo_pusher\<lparr>push_small := (make_chan 10)\<lparr>buf := [5]\<rparr>\<rparr>) = Ret p' \<and>
     queued p' ''h:1'' = [5, 5] \<and> pushUids (reqs p' 5) = [''u2'']"
proof -
  let ?p = "demo_pusher\<lparr>push_small := (make_chan 10)\<lparr>buf := [5]\<rparr>\<rparr>"
  have p: "push_small ?p = (make_chan 10)\<lparr>buf := 5 # []\<rparr>" "pushUids (reqs ?p 5) \<noteq> []"
    "room ?p ''h:1'' (length (pushUids (reqs ?p 5)))" "queued ?p ''h:1'' = []" "pushUids (reqs demo_pusher 5) = [''u1'', ''u2'']"
    by (simp_all add: demo_pusher_def room_def queued_def make_chan_def)
  show ?thesis
    using small_push_names_last_user [OF p(1,2) refl p(3)] by (simp add: p(4,5) numeral_2_eq_2)
qed

end
