(* ===== verification/EtcdUtil.thy ===== *)
theory EtcdUtil
  imports Sync "HOL-Library.Sublist" "HOL-Library.AList"
begin

text \<open>
  \<^verbatim>\<open>src/util/etcd_util.go\<close>: what the services use of etcd. The client (\<^verbatim>\<open>clientv3\<close>) is outside the
  repository: it is the record \<open>etcd_client\<close> of operations on a store \<open>'s\<close>, and \<open>etcd_laws\<close> is what the code
  relies on of it (a put is stored, a read with a prefix returns each key below it once). A watch
  channel is the list of responses it delivers until it is closed.
\<close>

record 's etcd_client =
  kv_put :: "string \<Rightarrow> string \<Rightarrow> int option \<Rightarrow> 's \<Rightarrow> string option \<times> 's"
  kv_get :: "string \<Rightarrow> bool \<Rightarrow> 's \<Rightarrow> string + (string \<times> string) list"
  lease_grant :: "int \<Rightarrow> 's \<Rightarrow> (string + int) \<times> 's"
  lease_keep :: "int \<Rightarrow> 's \<Rightarrow> string option \<times> 's"

definition ETCD_PUT :: int where "ETCD_PUT = 0"
definition ETCD_DELETE :: int where "ETCD_DELETE = 1"

record WatchResult =
  wrType :: int
  wrKey :: string
  wrValue :: string
  wrLeaseId :: int

section \<open>The operations\<close>

text \<open>
  \<open>NewEtcd\<close> over \<^verbatim>\<open>clientv3.New\<close>, given as \<open>new\<close> with the addresses and the credentials, which need both parts;
  \<^verbatim>\<open>log.Fatalf\<close> ends the process.
\<close>

definition NewEtcd ::
  "(string list \<Rightarrow> (string \<times> string) option \<Rightarrow> string + 'client) \<Rightarrow> string list \<Rightarrow> string \<Rightarrow> string \<Rightarrow> 'client outcome" where
  "NewEtcd new addrs username password =
     (let auth = (if username \<noteq> [] \<and> password \<noteq> [] then Some (username, password) else None)
      in case new addrs auth of Inl err \<Rightarrow> Crash | Inr client \<Rightarrow> Ret client)"

definition etcd_Put :: "'s etcd_client \<Rightarrow> string \<Rightarrow> string \<Rightarrow> 's \<Rightarrow> string option \<times> 's" where
  "etcd_Put client key value s = kv_put client key value None s"

definition PutWithTimeout :: "'s etcd_client \<Rightarrow> string \<Rightarrow> string \<Rightarrow> int \<Rightarrow> 's \<Rightarrow> (string + int) \<times> 's" where
  "PutWithTimeout client key value ttl s =
     (case lease_grant client ttl s of
        (Inl err, s1) \<Rightarrow> (Inl err, s1)
      | (Inr lease, s1) \<Rightarrow>
        (case kv_put client key value (Some lease) s1 of
           (Some err, s2) \<Rightarrow> (Inl err, s2)
         | (None, s2) \<Rightarrow> (Inr lease, s2)))"

definition KeepAlive :: "'s etcd_client \<Rightarrow> int \<Rightarrow> 's \<Rightarrow> string option \<times> 's" where
  "KeepAlive client lease_id s = lease_keep client lease_id s"

text \<open>\<open>etcd_Get\<close>: the first of the values, "" when there is none.\<close>

definition etcd_Get :: "'s etcd_client \<Rightarrow> string \<Rightarrow> 's \<Rightarrow> string + string" where
  "etcd_Get client key s =
     (case kv_get client key False s of
        Inl err \<Rightarrow> Inl err
      | Inr [] \<Rightarrow> Inr ''''
      | Inr ((k, v) # kvs) \<Rightarrow> Inr v)"

definition GetWithPrefix :: "'s etcd_client \<Rightarrow> string \<Rightarrow> 's \<Rightarrow> string + (string \<rightharpoonup> string)" where
  "GetWithPrefix client key_prefix s =
     (case kv_get client key_prefix True s of
        Inl err \<Rightarrow> Inl err
      | Inr kvs \<Rightarrow> Inr (foldl (\<lambda>m (k, v). m(k \<mapsto> v)) Map.empty kvs))"

text \<open>
  The loop of \<open>Watch\<close>: a response is an error or its events (whether it is a put, key, value, lease).
  \<open>cb\<close> is the callback on the state of the watcher.
\<close>

type_synonym etcd_event = "bool \<times> string \<times> string \<times> int"

definition watch_result :: "etcd_event \<Rightarrow> WatchResult" where
  "watch_result = (\<lambda>(is_put, key, value, lease).
     \<lparr>wrType = (if is_put then ETCD_PUT else ETCD_DELETE), wrKey = key, wrValue = value, wrLeaseId = lease\<rparr>)"

fun etcd_Watch ::
  "(WatchResult list \<Rightarrow> 'w \<Rightarrow> 'w outcome) \<Rightarrow> (string + etcd_event list) list \<Rightarrow> 'w \<Rightarrow> ('w \<times> string option) outcome" where
  "etcd_Watch cb [] w = Ret (w, None)"
| "etcd_Watch cb (Inl err # xs) w = Ret (w, Some err)"
| "etcd_Watch cb (Inr events # xs) w =
     (if events = [] then Ret (w, None)
      else obind (cb (map watch_result events) w) (etcd_Watch cb xs))"

section \<open>What the code relies on\<close>

definition etcd_laws :: "'s etcd_client \<Rightarrow> ('s \<Rightarrow> string \<rightharpoonup> string) \<Rightarrow> bool" where
  "etcd_laws client contents \<longleftrightarrow>
     (\<forall>k v l s s'. kv_put client k v l s = (None, s') \<longrightarrow> contents s' = (contents s)(k \<mapsto> v)) \<and>
     (\<forall>t s r s'. lease_grant client t s = (r, s') \<longrightarrow> contents s' = contents s) \<and>
     (\<forall>k s kvs. kv_get client k True s = Inr kvs \<longrightarrow>
        distinct (map fst kvs) \<and> (\<forall>k' v. (k', v) \<in> set kvs \<longleftrightarrow> contents s k' = Some v \<and> prefix k k'))"

lemma foldl_upd_map_of: "foldl (\<lambda>m (k, v). m(k \<mapsto> v)) m kvs = m ++ map_of (rev kvs)"
  by (induction kvs arbitrary: m) (auto simp: map_add_assoc [symmetric])

text \<open>\<open>GetWithPrefix\<close> is the part of the store below the prefix.\<close>

lemma GetWithPrefix_contents:
  assumes "etcd_laws client contents" "GetWithPrefix client pre s = Inr m"
  shows "m k = (if prefix pre k then contents s k else None)"
proof -
  obtain kvs where k: "kv_get client pre True s = Inr kvs" "m = map_of (rev kvs)"
    using assms(2) by (auto simp: GetWithPrefix_def foldl_upd_map_of split: sum.splits)
  have d: "distinct (map fst kvs)" "\<And>k' v. (k', v) \<in> set kvs \<longleftrightarrow> contents s k' = Some v \<and> prefix pre k'"
    using assms(1) k(1) unfolding etcd_laws_def by blast+
  have "map_of (rev kvs) k = Some v \<longleftrightarrow> contents s k = Some v \<and> prefix pre k" for v
    using d by (subst map_of_eq_Some_iff) (simp_all flip: rev_map)
  then have "map_of (rev kvs) k = Some v \<longleftrightarrow> (if prefix pre k then contents s k else None) = Some v" for v by simp
  then show ?thesis unfolding k(2) using option.exhaust_sel by metis
qed

lemma PutWithTimeout_contents:
  assumes "etcd_laws client contents" "PutWithTimeout client k v ttl s = (Inr lease, s')"
  shows "contents s' = (contents s)(k \<mapsto> v)"
proof -
  obtain s1 where s1: "lease_grant client ttl s = (Inr lease, s1)" "kv_put client k v (Some lease) s1 = (None, s')"
    using assms(2) by (auto simp: PutWithTimeout_def split: prod.splits sum.splits option.splits)
  then have "contents s1 = contents s" "contents s' = (contents s1)(k \<mapsto> v)"
    using assms(1) unfolding etcd_laws_def by blast+
  then show ?thesis by simp
qed

text \<open>Until an error or an empty response, every event reaches the callback once, in order.\<close>

lemma etcd_Watch_events:
  assumes "\<forall>es\<in>set ess. es \<noteq> []"
  shows "etcd_Watch (\<lambda>rs w. Ret (w @ rs)) (map Inr ess @ Inl err # xs) w = Ret (w @ map watch_result (concat ess), Some err)"
  using assms by (induction ess arbitrary: w) simp_all

section \<open>The laws can hold\<close>

text \<open>An association list is a store with these laws; the witnesses run on it.\<close>

definition assoc_etcd :: "(string \<times> string) list etcd_client" where
  "assoc_etcd = \<lparr>kv_put = (\<lambda>k v l s. (None, (k, v) # s)),
     kv_get = (\<lambda>k pre s. Inr (filter (\<lambda>(k', _). if pre then prefix k k' else k' = k) (AList.clearjunk s))),
     lease_grant = (\<lambda>t s. (Inr 7, s)), lease_keep = (\<lambda>i s. (None, s))\<rparr>"

lemma assoc_etcd_laws: "etcd_laws assoc_etcd map_of"
proof -
  have d: "distinct (map fst (AList.clearjunk s))" for s :: "(string \<times> string) list" by (rule distinct_clearjunk)
  have "(k, v) \<in> set (AList.clearjunk s) \<longleftrightarrow> map_of s k = Some v" for s :: "(string \<times> string) list" and k v
    using map_of_eq_Some_iff [OF d, of s k v] by (simp add: map_of_clearjunk)
  then show ?thesis using d by (auto simp: etcd_laws_def assoc_etcd_def distinct_map_filter)
qed

end
