(* ===== verification/ConfigUtil.thy ===== *)
theory ConfigUtil
  imports EtcdUtil
begin

text \<open>
  \<^verbatim>\<open>src/util/config_util.go\<close>: the table of configurations, by the name of their type, with its mutex. A
  loader is its key and what its \<open>Get\<close> returns; reading a file and decoding JSON are arguments, the etcd
  client is that of \<open>EtcdUtil\<close>. \<open>watchers\<close> lists the loaders whose \<open>Watch\<close> was started.
\<close>

section \<open>The table\<close>

record 'cfg Configs =
  configs :: "(string \<rightharpoonup> 'cfg) option"
  cmutex :: bool
  watchers :: "string list"

definition no_configs :: "'cfg Configs" where
  "no_configs = \<lparr>configs = None, cmutex = False, watchers = []\<rparr>"

definition config_of :: "'cfg Configs \<Rightarrow> string \<rightharpoonup> 'cfg" where
  "config_of p = (case configs p of None \<Rightarrow> Map.empty | Some m \<Rightarrow> m)"

text \<open>Both error returns of \<open>SetConfig\<close> come before its \<^verbatim>\<open>mutex.Unlock()\<close>.\<close>

definition SetConfig :: "string \<Rightarrow> string + 'cfg \<Rightarrow> 'cfg Configs \<Rightarrow> ('cfg Configs \<times> string option) outcome" where
  "SetConfig key loaded p =
     obind (Lock (cmutex p)) (\<lambda>b.
       let m = config_of p;
           p = p\<lparr>cmutex := b, configs := Some m\<rparr>
       in if m key \<noteq> None then Ret (p, Some ''exists config'')
          else case loaded of
            Inl err \<Rightarrow> Ret (p, Some err)
          | Inr result \<Rightarrow>
            obind (Unlock (cmutex p)) (\<lambda>b.
              Ret (p\<lparr>configs := Some (m(key \<mapsto> result)), cmutex := b, watchers := key # watchers p\<rparr>, None)))"

definition config_critical ::
  "('cfg Configs \<Rightarrow> ('cfg Configs \<times> 'a) option) \<Rightarrow> 'cfg Configs \<Rightarrow> ('cfg Configs \<times> 'a) outcome" where
  "config_critical = critical cmutex (\<lambda>b. cmutex_update (\<lambda>_. b))"

interpretation config_mutex: mutex cmutex "\<lambda>b. cmutex_update (\<lambda>_. b)"
  by unfold_locales simp_all

definition GetConfigValue :: "string \<Rightarrow> 'cfg Configs \<Rightarrow> ('cfg Configs \<times> 'cfg option) outcome" where
  "GetConfigValue key p = config_critical (\<lambda>p. Some (p, config_of p key)) p"

text \<open>Storing into the nil map panics.\<close>

definition ConfigUpdateCallback :: "string \<Rightarrow> 'cfg \<Rightarrow> 'cfg Configs \<Rightarrow> ('cfg Configs \<times> unit) outcome" where
  "ConfigUpdateCallback key config p = config_critical (\<lambda>p.
     case configs p of None \<Rightarrow> None | Some m \<Rightarrow> Some (p\<lparr>configs := Some (m(key \<mapsto> config))\<rparr>, ())) p"

section \<open>The loaders\<close>

definition loader_Get :: "string + 'bytes \<Rightarrow> ('bytes \<Rightarrow> string + 'cfg) \<Rightarrow> string + 'cfg" where
  "loader_Get content unmarshal = (case content of Inl err \<Rightarrow> Inl err | Inr bytes \<Rightarrow> unmarshal bytes)"

definition SetConfigByFileLoader ::
  "string \<Rightarrow> string + 'bytes \<Rightarrow> ('bytes \<Rightarrow> string + 'cfg) \<Rightarrow> 'cfg Configs \<Rightarrow> ('cfg Configs \<times> string option) outcome" where
  "SetConfigByFileLoader key content unmarshal p = SetConfig key (loader_Get content unmarshal) p"

text \<open>
  The loop of the file loader's \<open>Watch\<close>: an event says whether it is a write and what the file then
  holds; an error of the watcher returns it. A closed channel's \<^verbatim>\<open>break\<close> only leaves the \<^verbatim>\<open>select\<close>. The
  list holds the events so far: at its end the loop waits.
\<close>

datatype ('bytes) watch_event = FileEvent bool "string + 'bytes" | EventsClosed | WatchError string | ErrorsClosed

fun file_Watch_loop ::
  "string \<Rightarrow> ('bytes \<Rightarrow> string + 'cfg) \<Rightarrow> 'bytes watch_event list \<Rightarrow> 'cfg Configs \<Rightarrow> ('cfg Configs \<times> string option) outcome" where
  "file_Watch_loop key unmarshal [] p = Ret (p, None)"
| "file_Watch_loop key unmarshal (FileEvent is_write content # es) p =
     (if is_write
      then case loader_Get content unmarshal of
             Inl err \<Rightarrow> file_Watch_loop key unmarshal es p
           | Inr config \<Rightarrow> obind (ConfigUpdateCallback key config p) (\<lambda>(p, _). file_Watch_loop key unmarshal es p)
      else file_Watch_loop key unmarshal es p)"
| "file_Watch_loop key unmarshal (EventsClosed # es) p = file_Watch_loop key unmarshal es p"
| "file_Watch_loop key unmarshal (WatchError err # es) p = Ret (p, Some err)"
| "file_Watch_loop key unmarshal (ErrorsClosed # es) p = file_Watch_loop key unmarshal es p"

text \<open>\<open>created\<close> and \<open>added\<close>: the errors of making the watcher and of adding the path to it.\<close>

definition file_Watch ::
  "string \<Rightarrow> ('bytes \<Rightarrow> string + 'cfg) \<Rightarrow> string option \<Rightarrow> string option \<Rightarrow> 'bytes watch_event list \<Rightarrow> 'cfg Configs \<Rightarrow>
   ('cfg Configs \<times> string option) outcome" where
  "file_Watch key unmarshal created added es p =
     (case created of
        Some err \<Rightarrow> Ret (p, Some err)
      | None \<Rightarrow> (case added of Some err \<Rightarrow> Ret (p, Some err) | None \<Rightarrow> file_Watch_loop key unmarshal es p))"

text \<open>The etcd loader: its value, its callback and its watch.\<close>

definition etcd_loader_Get :: "'s etcd_client \<Rightarrow> string \<Rightarrow> (string \<Rightarrow> string + 'cfg) \<Rightarrow> 's \<Rightarrow> string + 'cfg" where
  "etcd_loader_Get client config_key unmarshal s =
     (case etcd_Get client config_key s of Inl err \<Rightarrow> Inl err | Inr v \<Rightarrow> unmarshal v)"

definition SetConfigByEtcdLoader ::
  "string \<Rightarrow> 's etcd_client \<Rightarrow> string \<Rightarrow> (string \<Rightarrow> string + 'cfg) \<Rightarrow> 's \<Rightarrow> 'cfg Configs \<Rightarrow> ('cfg Configs \<times> string option) outcome" where
  "SetConfigByEtcdLoader key client config_key unmarshal s p = SetConfig key (etcd_loader_Get client config_key unmarshal s) p"

fun etcd_watch_cb ::
  "string \<Rightarrow> (string \<Rightarrow> string + 'cfg) \<Rightarrow> WatchResult list \<Rightarrow> 'cfg Configs \<Rightarrow> 'cfg Configs outcome" where
  "etcd_watch_cb key unmarshal [] p = Ret p"
| "etcd_watch_cb key unmarshal (x # xs) p =
     (if wrType x = ETCD_PUT
      then case unmarshal (wrValue x) of
             Inr obj \<Rightarrow> obind (ConfigUpdateCallback key obj p) (\<lambda>(p, _). etcd_watch_cb key unmarshal xs p)
           | Inl err \<Rightarrow> etcd_watch_cb key unmarshal xs p
      else etcd_watch_cb key unmarshal xs p)"

definition etcd_loader_Watch ::
  "string \<Rightarrow> (string \<Rightarrow> string + 'cfg) \<Rightarrow> (string + etcd_event list) list \<Rightarrow> 'cfg Configs \<Rightarrow> ('cfg Configs \<times> string option) outcome" where
  "etcd_loader_Watch key unmarshal responses p = etcd_Watch (etcd_watch_cb key unmarshal) responses p"

section \<open>What the table keeps\<close>

lemma GetConfigValue_free: "\<not> cmutex p \<Longrightarrow> GetConfigValue key p = Ret (p, config_of p key)"
  by (simp add: GetConfigValue_def config_critical_def config_mutex.reads config_of_def)

lemma ConfigUpdateCallback_free:
  "\<not> cmutex p \<Longrightarrow> ConfigUpdateCallback key c p =
    (case configs p of None \<Rightarrow> Crash | Some m \<Rightarrow> Ret (p\<lparr>configs := Some (m(key \<mapsto> c))\<rparr>, ()))"
  by (cases p) (simp add: ConfigUpdateCallback_def config_critical_def config_mutex.runs split: option.splits)

lemma held_blocks:
  "cmutex p \<Longrightarrow> SetConfig key r p = Blocked \<and> GetConfigValue key p = Blocked \<and> ConfigUpdateCallback key c p = Blocked"
  by (simp add: SetConfig_def GetConfigValue_def ConfigUpdateCallback_def config_critical_def config_mutex.blocks)

text \<open>A configuration that was set is read, until it is updated, and then the update is read.\<close>

lemma SetConfig_ok:
  assumes "\<not> cmutex p" "config_of p key = None"
  shows "\<exists>p'. SetConfig key (Inr c) p = Ret (p', None) \<and> \<not> cmutex p' \<and> config_of p' = (config_of p)(key \<mapsto> c) \<and>
    watchers p' = key # watchers p \<and> configs p' \<noteq> None"
  using assms
  by (intro exI [of _ "p\<lparr>configs := Some ((config_of p)(key \<mapsto> c)), cmutex := False, watchers := key # watchers p\<rparr>"])
    (simp add: SetConfig_def, simp add: config_of_def)

lemma SetConfig_error:
  assumes "\<not> cmutex p" "config_of p key \<noteq> None \<or> (\<exists>e. r = Inl e)"
  shows "\<exists>p' e. SetConfig key r p = Ret (p', Some e) \<and> cmutex p' \<and> config_of p' = config_of p"
proof -
  have "config_of (p\<lparr>cmutex := True, configs := Some (config_of p)\<rparr>) = config_of p" by (simp add: config_of_def)
  then show ?thesis using assms
    by (intro exI [of _ "p\<lparr>cmutex := True, configs := Some (config_of p)\<rparr>"])
      (cases r; auto simp: SetConfig_def Let_def)
qed

lemma SetConfig_stored:
  assumes "\<not> cmutex p" "SetConfig key r p = Ret (p', None)"
  shows "\<exists>c. r = Inr c \<and> config_of p key = None \<and> \<not> cmutex p' \<and> config_of p' = (config_of p)(key \<mapsto> c)"
proof (cases "config_of p key = None \<and> (\<exists>c. r = Inr c)")
  case True
  then obtain c where "r = Inr c" "config_of p key = None" by blast
  then show ?thesis using SetConfig_ok [OF assms(1), of key c] assms(2) by auto
next
  case False
  then have "config_of p key \<noteq> None \<or> (\<exists>e. r = Inl e)" by (cases r) auto
  from SetConfig_error [OF assms(1) this] show ?thesis using assms(2) by auto
qed

text \<open>The configuration a list of watch results leaves: the last value put that decodes.\<close>

fun last_config :: "(string \<Rightarrow> string + 'cfg) \<Rightarrow> WatchResult list \<Rightarrow> 'cfg \<Rightarrow> 'cfg" where
  "last_config unmarshal [] c = c"
| "last_config unmarshal (x # xs) c =
     last_config unmarshal xs
       (if wrType x = ETCD_PUT then case unmarshal (wrValue x) of Inr c' \<Rightarrow> c' | Inl _ \<Rightarrow> c else c)"

lemma last_config_append: "last_config unmarshal (xs @ ys) c = last_config unmarshal ys (last_config unmarshal xs c)"
  by (induction xs arbitrary: c) simp_all

lemma etcd_watch_cb_last:
  assumes "\<not> cmutex p" "config_of p key = Some c"
  shows "\<exists>p'. etcd_watch_cb key unmarshal xs p = Ret p' \<and> \<not> cmutex p' \<and>
    config_of p' = (config_of p)(key \<mapsto> last_config unmarshal xs c)"
  using assms
proof (induction xs arbitrary: p c)
  case Nil
  then show ?case by (simp add: fun_upd_idem)
next
  case (Cons x xs)
  obtain m where m: "configs p = Some m" using Cons.prems(2) by (cases "configs p") (auto simp: config_of_def)
  show ?case
  proof (cases "wrType x = ETCD_PUT \<and> (\<exists>c'. unmarshal (wrValue x) = Inr c')")
    case True
    then obtain c' where c': "wrType x = ETCD_PUT" "unmarshal (wrValue x) = Inr c'" by blast
    let ?p = "p\<lparr>configs := Some (m(key \<mapsto> c'))\<rparr>"
    have u: "config_of ?p = (config_of p)(key \<mapsto> c')" using m by (simp add: config_of_def)
    have "\<not> cmutex ?p" "config_of ?p key = Some c'" using Cons.prems(1) u by simp_all
    from Cons.IH [OF this] obtain p' where p': "etcd_watch_cb key unmarshal xs ?p = Ret p'" "\<not> cmutex p'"
      "config_of p' = (config_of ?p)(key \<mapsto> last_config unmarshal xs c')" by blast
    have "etcd_watch_cb key unmarshal (x # xs) p = Ret p'"
      using c' p'(1) Cons.prems(1) m by (simp add: ConfigUpdateCallback_free)
    moreover have "config_of p' = (config_of p)(key \<mapsto> last_config unmarshal (x # xs) c)"
      unfolding p'(3) u fun_upd_upd using c' by simp
    ultimately show ?thesis using p'(2) by blast
  next
    case False
    then have "last_config unmarshal (x # xs) c = last_config unmarshal xs c"
      "etcd_watch_cb key unmarshal (x # xs) p = etcd_watch_cb key unmarshal xs p"
      by (cases "unmarshal (wrValue x)"; simp)+
    then show ?thesis using Cons.IH [OF Cons.prems] by simp
  qed
qed

lemma etcd_loader_Watch_last:
  assumes "\<not> cmutex p" "config_of p key = Some c" "\<forall>es\<in>set ess. es \<noteq> []"
  shows "\<exists>p'. etcd_loader_Watch key unmarshal (map Inr ess) p = Ret (p', None) \<and> \<not> cmutex p' \<and>
    config_of p' = (config_of p)(key \<mapsto> last_config unmarshal (map watch_result (concat ess)) c)"
  using assms
proof (induction ess arbitrary: p c)
  case Nil
  then show ?case by (simp add: etcd_loader_Watch_def fun_upd_idem)
next
  case (Cons es ess)
  let ?c = "last_config unmarshal (map watch_result es) c"
  obtain p1 where p1: "etcd_watch_cb key unmarshal (map watch_result es) p = Ret p1" "\<not> cmutex p1"
    "config_of p1 = (config_of p)(key \<mapsto> ?c)"
    using etcd_watch_cb_last [OF Cons.prems(1,2)] by blast
  obtain p' where p': "etcd_loader_Watch key unmarshal (map Inr ess) p1 = Ret (p', None)" "\<not> cmutex p'"
    "config_of p' = (config_of p1)(key \<mapsto> last_config unmarshal (map watch_result (concat ess)) ?c)"
    using Cons.IH [OF p1(2), of ?c] Cons.prems(3) unfolding p1(3) by (metis fun_upd_same list.set_intros(2))
  have "config_of p' = (config_of p)(key \<mapsto> last_config unmarshal (map watch_result (concat (es # ess))) c)"
    unfolding p'(3) p1(3) fun_upd_upd by (simp add: last_config_append)
  moreover have "etcd_loader_Watch key unmarshal (map Inr (es # ess)) p = Ret (p', None)"
    using p1(1) p'(1) Cons.prems(3) by (simp add: etcd_loader_Watch_def)
  ultimately show ?case using p'(2) by blast
qed

section \<open>Properties\<close>

text \<open>
  One configuration that cannot be set blocks all others. From a free mutex, a new configuration
  that loads is stored, read back by \<open>GetConfigValue\<close> and watched; but when the configuration was set
  before, or does not load, \<open>SetConfig\<close> returns the error with the mutex held, and from then on every
  read, update and setting of any configuration blocks.
\<close>

theorem SetConfig_correct:
  assumes "\<not> cmutex p"
  shows "if config_of p key = None \<and> (\<exists>c. r = Inr c)
    then \<exists>p' c. r = Inr c \<and> SetConfig key r p = Ret (p', None) \<and> GetConfigValue key p' = Ret (p', Some c) \<and>
      (\<forall>k. k \<noteq> key \<longrightarrow> GetConfigValue k p' = Ret (p', config_of p k)) \<and> key \<in> set (watchers p')
    else \<exists>p' e. SetConfig key r p = Ret (p', Some e) \<and>
      (\<forall>k r' c. SetConfig k r' p' = Blocked \<and> GetConfigValue k p' = Blocked \<and> ConfigUpdateCallback k c p' = Blocked)"
proof (cases "config_of p key = None \<and> (\<exists>c. r = Inr c)")
  case True
  then obtain c where "r = Inr c" by blast
  with SetConfig_ok [OF assms, of key c] True show ?thesis by (auto simp: GetConfigValue_free)
next
  case False
  then have "config_of p key \<noteq> None \<or> (\<exists>e. r = Inl e)" by (cases r) auto
  then obtain p' e where p': "SetConfig key r p = Ret (p', Some e)" "cmutex p'" using SetConfig_error [OF assms] by blast
  show ?thesis unfolding if_not_P [OF False]
    by (intro exI [of _ p'] exI [of _ e]) (simp add: p' held_blocks)
qed

theorem SetConfig_correct_witness:
  "\<exists>p' e. SetConfig ''A'' (Inl ''no such file'') (no_configs :: nat Configs) = Ret (p', Some e) \<and> GetConfigValue ''B'' p' = Blocked"
proof -
  have "\<not> cmutex (no_configs :: nat Configs)" by (simp add: no_configs_def)
  from SetConfig_correct [OF this, of "''A''" "Inl ''no such file''"] show ?thesis by auto
qed

text \<open>
  C38: a configuration from etcd follows etcd. When the etcd loader could set a new configuration, then
  after any responses of its watch, each with some events, the configuration read is the last value
  put under the key that decodes, among the first value read and the events in their order; deletions
  and values that do not decode leave it as it was; and other configurations are not touched.
\<close>

theorem config_follows_etcd:
  assumes "\<not> cmutex p" "SetConfigByEtcdLoader key client config_key unmarshal s p = Ret (p1, None)"
    and "\<forall>es\<in>set ess. es \<noteq> []"
  shows "\<exists>c p2. etcd_loader_Get client config_key unmarshal s = Inr c \<and> etcd_loader_Watch key unmarshal (map Inr ess) p1 = Ret (p2, None) \<and>
    GetConfigValue key p2 = Ret (p2, Some (last_config unmarshal (map watch_result (concat ess)) c)) \<and>
    (\<forall>k. k \<noteq> key \<longrightarrow> GetConfigValue k p2 = Ret (p2, config_of p k))"
proof -
  have "\<not> (config_of p key \<noteq> None \<or> (\<exists>e. etcd_loader_Get client config_key unmarshal s = Inl e))"
    using SetConfig_error [OF assms(1)] assms(2) unfolding SetConfigByEtcdLoader_def
    by (metis option.distinct(1) outcome.inject prod.inject)
  then obtain c where c: "etcd_loader_Get client config_key unmarshal s = Inr c" "config_of p key = None"
    by (metis obj_sumE)
  then have p1: "\<not> cmutex p1" "config_of p1 = (config_of p)(key \<mapsto> c)"
    using SetConfig_ok [OF assms(1), of key c] assms(2) by (auto simp: SetConfigByEtcdLoader_def)
  obtain p2 where "etcd_loader_Watch key unmarshal (map Inr ess) p1 = Ret (p2, None)" "\<not> cmutex p2"
    "config_of p2 = (config_of p1)(key \<mapsto> last_config unmarshal (map watch_result (concat ess)) c)"
    using etcd_loader_Watch_last [OF p1(1) _ assms(3), of key c] p1(2) by auto
  then show ?thesis using c(1) p1(2) by (auto simp: GetConfigValue_free)
qed

definition demo_decode_config :: "string \<Rightarrow> string + nat" where
  "demo_decode_config v = (if v = ''bad'' then Inl ''invalid'' else Inr (length v))"

definition demo_events :: "etcd_event list list" where
  "demo_events = [[(True, ''/cfg'', ''abc'', 0)], [(True, ''/cfg'', ''bad'', 0), (False, ''/cfg'', '''', 0)]]"

theorem config_follows_etcd_witness:
  "\<exists>p1 p2. SetConfigByEtcdLoader ''cfg'' assoc_etcd ''/cfg'' demo_decode_config [(''/cfg'', ''a'')] no_configs = Ret (p1, None) \<and>
     etcd_loader_Watch ''cfg'' demo_decode_config (map Inr demo_events) p1 = Ret (p2, None) \<and>
     GetConfigValue ''cfg'' p2 = Ret (p2, Some 3)"
proof -
  have n: "\<not> cmutex (no_configs :: nat Configs)" "config_of (no_configs :: nat Configs) ''cfg'' = None"
    by (simp_all add: no_configs_def config_of_def)
  have g: "etcd_loader_Get assoc_etcd ''/cfg'' demo_decode_config [(''/cfg'', ''a'')] = Inr 1"
    by (simp add: etcd_loader_Get_def etcd_Get_def assoc_etcd_def AList.clearjunk.simps demo_decode_config_def)
  obtain p1 where p1: "SetConfigByEtcdLoader ''cfg'' assoc_etcd ''/cfg'' demo_decode_config [(''/cfg'', ''a'')] no_configs = Ret (p1, None)"
    using SetConfig_ok [OF n, of 1] by (auto simp: SetConfigByEtcdLoader_def g)
  have l: "last_config demo_decode_config (map watch_result (concat demo_events)) 1 = 3" "\<forall>es\<in>set demo_events. es \<noteq> []"
    by (simp_all add: demo_events_def demo_decode_config_def watch_result_def ETCD_PUT_def ETCD_DELETE_def)
  show ?thesis using config_follows_etcd [OF n(1) p1 l(2)] p1 g l(1) by auto
qed

end
