(* ===== verification/EchoServer.thy ===== *)
theory EchoServer
  imports Wire TcpServer "HOL-Library.Char_ord"
begin

text \<open>
  \<^verbatim>\<open>src/example/echo_server\<close>: the example service on the TCP server, with its packet handle and the
  functions of its client, its loop and its count of replies. The body of a packet is an interface: a struct the code makes or the
  value JSON decoding gives; \<^verbatim>\<open>mapstructure.Decode\<close> and JSON are arguments. The state of \<open>echo_OnMessage\<close>
  is the server's, so that the property covers the way of a request through the receive loop, the
  handler, the channel and the send loop.
\<close>

section \<open>Packets\<close>

datatype 'j echo_body = EchoReq string | EchoResp string | EchoJson 'j

record 'j EchoPacket =
  echoMethod :: string
  echoBody :: "'j echo_body"

definition echo_RecvPacket :: "(byte list \<Rightarrow> string + 'p) \<Rightarrow> conn \<Rightarrow> ((string + 'p) \<times> conn) option" where
  "echo_RecvPacket unmarshal c =
     (case io_ReadFull c 4 [] of
        (Inl e, c1) \<Rightarrow> Some (Inl e, c1)
      | (Inr head, c1) \<Rightarrow>
        let body_size = from_be32 head
        in if body_size < 0 then None
           else (case NetRecvTimeout c1 (nat body_size) body_size of
                  (n, Some e, bs, c2) \<Rightarrow> Some (Inl e, c2)
                | (n, None, bs, c2) \<Rightarrow> Some (unmarshal (bs @ replicate (nat body_size - length bs) 0), c2)))"

definition echo_SendPacket :: "('p \<Rightarrow> string + byte list) \<Rightarrow> conn \<Rightarrow> 'p \<Rightarrow> string option \<times> conn" where
  "echo_SendPacket marshal c packet =
     (case marshal packet of
        Inl e \<Rightarrow> (Some e, c)
      | Inr jsonByte \<Rightarrow>
        (case conn_Write c (be32 (i32 (int (length jsonByte)))) of
           (Some e, c1) \<Rightarrow> (Some e, c1)
         | (None, c1) \<Rightarrow>
           (case conn_Write c1 jsonByte of
              (Some e, c2) \<Rightarrow> (Some e, c2)
            | (None, c2) \<Rightarrow> (None, c2))))"

section \<open>The handler\<close>

definition echo_no_method :: string where "echo_no_method = ''no method exists''"

definition get_body :: "('j echo_body \<Rightarrow> string + string) \<Rightarrow> 'j EchoPacket \<Rightarrow> string + 'j echo_body" where
  "get_body decode packet =
     (if echoMethod packet = ''echo''
      then case decode (echoBody packet) of Inl e \<Rightarrow> Inl e | Inr content \<Rightarrow> Inr (EchoReq content)
      else Inl echo_no_method)"

text \<open>\<^verbatim>\<open>body.(define.EchoReq)\<close> panics on any other value.\<close>

definition do_echo :: "'j echo_body \<Rightarrow> 'j EchoPacket outcome" where
  "do_echo body =
     (case body of
        EchoReq content \<Rightarrow> Ret \<lparr>echoMethod = ''echo'', echoBody = EchoResp content\<rparr>
      | _ \<Rightarrow> Crash)"

definition do_method :: "string \<Rightarrow> 'j echo_body \<Rightarrow> (string + 'j EchoPacket) outcome" where
  "do_method m body =
     (if m = ''echo'' then obind (do_echo body) (\<lambda>packet. Ret (Inr packet))
      else Ret (Inl echo_no_method))"

definition echo_OnMessage ::
  "('j echo_body \<Rightarrow> string + string) \<Rightarrow> string \<Rightarrow> 'j EchoPacket \<Rightarrow> 'j EchoPacket TcpServer \<Rightarrow>
   ('j EchoPacket TcpServer \<times> string option) outcome" where
  "echo_OnMessage decode channel_id req_packet server =
     (case get_body decode req_packet of
        Inl err \<Rightarrow> Ret (server, Some err)
      | Inr resp_body \<Rightarrow>
        obind (do_method (echoMethod req_packet) resp_body) (\<lambda>r.
          case r of
            Inl err \<Rightarrow> Ret (server, Some err)
          | Inr resp_packet \<Rightarrow> PushChannel server channel_id resp_packet))"

section \<open>The client\<close>

definition bytes_of :: "string \<Rightarrow> byte list" where
  "bytes_of = map (\<lambda>c. word_of_nat (of_char c))"

definition send_echo_packet :: "('j EchoPacket \<Rightarrow> string + byte list) \<Rightarrow> conn \<Rightarrow> string option \<times> conn" where
  "send_echo_packet marshal c = echo_SendPacket marshal c \<lparr>echoMethod = ''echo'', echoBody = EchoReq ''hello''\<rparr>"

definition recv_echo_packet ::
  "(byte list \<Rightarrow> string + 'j EchoPacket) \<Rightarrow> ('j echo_body \<Rightarrow> string + string) \<Rightarrow> conn \<Rightarrow> (string option \<times> conn) option" where
  "recv_echo_packet unmarshal decode c =
     (case echo_RecvPacket unmarshal c of
        None \<Rightarrow> None
      | Some (Inl e, c1) \<Rightarrow> Some (Some e, c1)
      | Some (Inr echo_packet, c1) \<Rightarrow>
        (case decode (echoBody echo_packet) of Inl e \<Rightarrow> Some (Some e, c1) | Inr resp \<Rightarrow> Some (None, c1)))"

definition quick_json :: string where
  "quick_json = ''{\"Header\":{\"Method\":\"echo\"},\"Body\":{\"Content\":\"hello\"}}''"

definition send_echo_packet_quick :: "conn \<Rightarrow> string option \<times> conn" where
  "send_echo_packet_quick c =
     (case conn_Write c (be32 55) of
        (Some e, c1) \<Rightarrow> (Some e, c1)
      | (None, c1) \<Rightarrow>
        (case conn_Write c1 (bytes_of quick_json) of
           (Some e, c2) \<Rightarrow> (Some e, c2)
         | (None, c2) \<Rightarrow> (None, c2)))"

definition recv_echo_packet_quick :: "conn \<Rightarrow> (string option \<times> conn) option" where
  "recv_echo_packet_quick c =
     (case io_ReadFull c 4 [] of
        (Inl e, c1) \<Rightarrow> Some (Some e, c1)
      | (Inr head, c1) \<Rightarrow>
        let body_size = from_be32 head
        in if body_size < 0 then None
           else (case NetRecvTimeout c1 (nat body_size) body_size of (n, e, bs, c2) \<Rightarrow> Some (e, c2)))"

text \<open>
  \<open>do_client\<close> on a connection: at most \<open>n\<close> rounds of its loop, with the counter \<^verbatim>\<open>g_count\<close> (an \<^verbatim>\<open>int32\<close>) and the error
  that ended it; \<^term>\<open>None\<close> is a panic.
\<close>

fun do_client_loop :: "nat \<Rightarrow> conn \<Rightarrow> 32 word \<Rightarrow> (conn \<times> 32 word \<times> string option) option" where
  "do_client_loop 0 c g_count = Some (c, g_count, None)"
| "do_client_loop (Suc n) c g_count =
     (case send_echo_packet_quick c of
        (Some e, c1) \<Rightarrow> Some (c1, g_count, Some e)
      | (None, c1) \<Rightarrow>
        (case recv_echo_packet_quick c1 of
           None \<Rightarrow> None
         | Some (Some e, c2) \<Rightarrow> Some (c2, g_count, Some e)
         | Some (None, c2) \<Rightarrow> do_client_loop n c2 (g_count + 1)))"

text \<open>The rates \<open>main\<close> prints, from the readings of the counter once a second: a difference of \<^verbatim>\<open>int32\<close> values.\<close>

fun rates :: "32 word \<Rightarrow> 32 word list \<Rightarrow> int list" where
  "rates latest [] = []"
| "rates latest (new_latest # readings) = sint (new_latest - latest) # rates new_latest readings"

section \<open>The handle keeps the contract\<close>

lemma echo_SendPacket_eq: "echo_SendPacket = CommonSendPacket"
  by (intro ext) (simp add: echo_SendPacket_def CommonSendPacket_def)

text \<open>Where \<open>CommonRecvPacket\<close> returns a body, the example's handle decodes the same bytes.\<close>

lemma echo_RecvPacket_body:
  "CommonRecvPacket c = Some (Inr body, c') \<Longrightarrow> echo_RecvPacket unmarshal c = Some (unmarshal body, c')"
  by (auto simp: echo_RecvPacket_def CommonRecvPacket_def Let_def split: prod.splits sum.splits option.splits if_splits)

lemma echo_RecvPacket_end: "no_empty c \<Longrightarrow> pending c = [] \<Longrightarrow> echo_RecvPacket unmarshal c = Some (Inl (inerr c), c)"
proof -
  assume "no_empty c" "pending c = []"
  then have "inseg c = []" by (cases "inseg c") (auto simp: pending_def no_empty_def)
  then show ?thesis by (simp add: echo_RecvPacket_def io_ReadFull.simps conn_Read_def)
qed

lemma echo_RecvPacket_code:
  assumes "encodes marshal unmarshal p" "no_empty c" "pending c = packet_code marshal p @ rest"
  shows "\<exists>c'. echo_RecvPacket unmarshal c = Some (Inr (received marshal unmarshal p), c') \<and> pending c' = rest \<and>
    no_empty c' \<and> inerr c' = inerr c"
proof -
  obtain body c' where c': "CommonRecvPacket c = Some (Inr body, c')" "unmarshal body = Inr (received marshal unmarshal p)"
    "pending c' = rest" "no_empty c'" "inerr c' = inerr c"
    using CommonRecvPacket_code [OF assms] by blast
  from echo_RecvPacket_body [OF c'(1), of unmarshal] show ?thesis using c' by simp
qed

interpretation echo: packet_handle "echo_SendPacket marshal" "echo_RecvPacket unmarshal" "packet_code marshal"
  "received marshal unmarshal" "encodes marshal unmarshal" for marshal unmarshal
  by unfold_locales
    (simp_all add: echo_SendPacket_eq CommonSendPacket_code echo_RecvPacket_end echo_RecvPacket_code)

section \<open>The service\<close>

definition echo_resp :: "string \<Rightarrow> 'j EchoPacket" where
  "echo_resp content = \<lparr>echoMethod = ''echo'', echoBody = EchoResp content\<rparr>"

definition echo_queue :: "'j EchoPacket TcpServer \<Rightarrow> nat \<Rightarrow> 'j EchoPacket list" where
  "echo_queue p k = buf (chSend (chans p k))"

text \<open>A request the service answers, with the content \<open>content q\<close>.\<close>

definition echo_request :: "('j echo_body \<Rightarrow> string + string) \<Rightarrow> ('j EchoPacket \<Rightarrow> string) \<Rightarrow> 'j EchoPacket \<Rightarrow> bool" where
  "echo_request decode content q \<longleftrightarrow> echoMethod q = ''echo'' \<and> decode (echoBody q) = Inr (content q)"

lemma echo_OnMessage_request:
  assumes "server_ok p" "chmap p i = Some k" "echo_request decode content q" "length (echo_queue p k) < 100"
  shows "\<exists>p'. echo_OnMessage decode i q p = Ret (p', None) \<and> server_ok p' \<and> chmap p' i = Some k \<and>
    echo_queue p' k = echo_queue p k @ [echo_resp (content q)]"
proof -
  have "echo_OnMessage decode i q p = PushChannel p i (echo_resp (content q))"
    using assms(3) by (simp add: echo_OnMessage_def get_body_def do_method_def do_echo_def echo_request_def echo_resp_def)
  also have "\<dots> = Ret (set_channel p k ((chans p k)\<lparr>chSend := chSend (chans p k)
      \<lparr>buf := echo_queue p k @ [echo_resp (content q)]\<rparr>\<rparr>), None)" (is "_ = Ret (?p', None)")
    using assms(4) PushChannel_ok [OF assms(1,2)] by (simp add: echo_queue_def)
  finally have "echo_OnMessage decode i q p = Ret (?p', None)" .
  moreover from this have "server_ok ?p'"
    using push_ok [OF assms(1), of i "echo_resp (content q)" ?p' None] PushChannel_ok [OF assms(1,2)] assms(4)
    by (simp add: echo_queue_def)
  ultimately show ?thesis using assms(2) by (auto simp: set_channel_def echo_queue_def)
qed

lemma echo_handle_all:
  assumes "server_ok p" "chmap p i = Some k" "list_all (echo_request decode content) qs" "length (echo_queue p k) + length qs \<le> 100"
  shows "\<exists>p'. handle_all (echo_OnMessage decode i) qs p e = Ret (p', e) \<and>
    echo_queue p' k = echo_queue p k @ map (\<lambda>q. echo_resp (content q)) qs"
  using assms
proof (induction qs arbitrary: p)
  case (Cons q qs)
  from Cons.prems have "echo_request decode content q" "length (echo_queue p k) < 100" by simp_all
  with echo_OnMessage_request Cons.prems(1,2) obtain p' where p': "echo_OnMessage decode i q p = Ret (p', None)" "server_ok p'"
    "chmap p' i = Some k" "echo_queue p' k = echo_queue p k @ [echo_resp (content q)]" by meson
  then show ?case using Cons.IH [OF p'(2,3)] Cons.prems(3,4) by simp
qed simp

text \<open>The literal length in the client's quick function is the length of its literal.\<close>

lemma quick_frame:
  "wplan c = [] \<Longrightarrow> send_echo_packet_quick c = (None, c\<lparr>out := out c @ frame (bytes_of quick_json)\<rparr>)"
  by (simp add: send_echo_packet_quick_def conn_Write_def frame_def bytes_of_def quick_json_def)

text \<open>
  The client counts the replies: from a stream of \<open>k\<close> replies, whatever their bodies and however they are cut into
  reads, it counts \<open>k\<close> and ends with the error of the connection's end.
\<close>

lemma conn_Read_wplan: "conn_Read c n = (r, c') \<Longrightarrow> wplan c' = wplan c"
  by (auto simp: conn_Read_def split: if_splits list.splits)

lemma io_ReadFull_wplan: "io_ReadFull c n acc = (r, c') \<Longrightarrow> wplan c' = wplan c"
proof (induction c n acc rule: io_ReadFull.induct)
  case (1 c n acc)
  then show ?case using conn_Read_wplan [of c "n - length acc"]
    by (subst (asm) io_ReadFull.simps) (fastforce split: if_splits prod.splits sum.splits)
qed

lemma recv_loop_wplan: "recv_loop c len sz acc = (e, bs, c') \<Longrightarrow> wplan c' = wplan c"
proof (induction c len sz acc rule: recv_loop.induct)
  case (1 c len sz acc)
  then show ?case using conn_Read_wplan [of c "len - length acc"]
    by (subst (asm) recv_loop.simps) (fastforce split: if_splits prod.splits sum.splits)
qed

lemma read_both_wplan:
  "io_ReadFull c n acc = (r, c1) \<Longrightarrow> recv_loop c1 len sz acc1 = (e, bs, c') \<Longrightarrow> wplan c' = wplan c"
  using io_ReadFull_wplan recv_loop_wplan by metis

lemma recv_quick_frame:
  assumes "no_empty c" "pending c = frame body @ rest" "frameable body"
  shows "\<exists>c'. recv_echo_packet_quick c = Some (None, c') \<and> pending c' = rest \<and> no_empty c' \<and> inerr c' = inerr c \<and>
    wplan c' = wplan c"
proof -
  obtain c' where c': "CommonRecvPacket c = Some (Inr body, c')" "pending c' = rest" "no_empty c'" "inerr c' = inerr c"
    using CommonRecvPacket_frame [OF assms(1), of body rest] assms(2,3) by (auto simp: frame_def frameable_def)
  have "recv_echo_packet_quick c = Some (None, c')" using c'(1)
    by (auto simp: CommonRecvPacket_def recv_echo_packet_quick_def NetRecvTimeout_def Let_def
        split: prod.splits sum.splits option.splits if_splits)
  moreover have "wplan c' = wplan c" using c'(1)
    by (auto simp: CommonRecvPacket_def NetRecvTimeout_def Let_def
        intro: read_both_wplan split: prod.splits sum.splits option.splits if_splits)
  ultimately show ?thesis using c' by blast
qed

lemma recv_quick_end: "no_empty c \<Longrightarrow> pending c = [] \<Longrightarrow> recv_echo_packet_quick c = Some (Some (inerr c), c)"
proof -
  assume "no_empty c" "pending c = []"
  then have "inseg c = []" by (cases "inseg c") (auto simp: pending_def no_empty_def)
  then show ?thesis by (simp add: recv_echo_packet_quick_def io_ReadFull.simps conn_Read_def)
qed

lemma pending_out [simp]: "pending (c\<lparr>out := x\<rparr>) = pending c" "no_empty (c\<lparr>out := x\<rparr>) = no_empty c"
  by (simp_all add: pending_def no_empty_def)

lemma do_client_counts:
  assumes "no_empty c" "wplan c = []" "pending c = concat (map frame bodies)"
    and "list_all frameable bodies" "length bodies < n"
  shows "\<exists>c'. do_client_loop n c g_count = Some (c', g_count + of_nat (length bodies), Some (inerr c))"
  using assms
proof (induction bodies arbitrary: n c g_count)
  case Nil
  then obtain m where "n = Suc m" by (cases n) simp_all
  then show ?case using Nil by (simp add: quick_frame recv_quick_end)
next
  case (Cons body bodies)
  then obtain m where m: "n = Suc m" "length bodies < m" by (cases n) simp_all
  let ?c1 = "c\<lparr>out := out c @ frame (bytes_of quick_json)\<rparr>"
  obtain c2 where c2: "recv_echo_packet_quick ?c1 = Some (None, c2)" "pending c2 = concat (map frame bodies)" "no_empty c2"
    "inerr c2 = inerr c" "wplan c2 = []"
    using recv_quick_frame [of ?c1 body "concat (map frame bodies)"] Cons.prems by auto
  obtain c' where "do_client_loop m c2 (g_count + 1) = Some (c', g_count + 1 + of_nat (length bodies), Some (inerr c))"
    using Cons.IH [OF c2(3,5,2) _ m(2)] Cons.prems(4) c2(4) by auto
  then show ?case using m(1) c2(1) Cons.prems(2) by (auto simp: quick_frame add.assoc)
qed

text \<open>The printed rate is the number of replies of the second, also where the counter has passed \<^verbatim>\<open>2^31\<close>.\<close>

fun readings :: "32 word \<Rightarrow> nat list \<Rightarrow> 32 word list" where
  "readings g [] = []"
| "readings g (k # ks) = (g + of_nat k) # readings (g + of_nat k) ks"

lemma rates_correct: "list_all (\<lambda>k. k < 2 ^ 31) ks \<Longrightarrow> rates g (readings g ks) = map int ks"
proof (induction ks arbitrary: g)
  case (Cons k ks)
  then have "sint (word_of_nat k :: 32 word) = int k"
    by (simp add: signed_of_nat signed_take_bit_int_eq_self)
  then show ?case using Cons by simp
qed simp

section \<open>Properties\<close>

text \<open>
  C12: what is sent to the echo service comes back. When the channel of a connection has an empty
  queue and at most 100 requests arrive, however the network cuts them into reads, the receive loop
  of the server puts one response for each into the queue, in order and with the content of the
  request, and ends with the connection's end. The bytes the send loop makes of this queue are read
  by the client, again however they are cut, as exactly these responses.
\<close>

theorem echo_round_trip:
  assumes srv: "srv_reachable p" "chmap p i = Some k" "echo_queue p k = []"
    and reqs: "list_all (encodes marshal unmarshal) qs" "length qs \<le> 100"
      "list_all (echo_request decode content) (map (received marshal unmarshal) qs)"
      "resps = map (\<lambda>q. echo_resp (content (received marshal unmarshal q))) qs" "list_all (encodes marshal unmarshal) resps"
    and sent: "wplan a = []" "out a = []" "out (SendLoop (echo_SendPacket marshal) a qs) = pending b" "no_empty b"
  shows "\<exists>p'. RecvLoop (echo_RecvPacket unmarshal) (echo_OnMessage decode i) b p = Some (Ret (p', inerr b)) \<and>
    echo_queue p' k = resps \<and>
    (\<forall>w cl h (s :: 's). wplan w = [] \<and> out w = [] \<and> no_empty cl \<and>
        out (SendLoop (echo_SendPacket marshal) w (echo_queue p' k)) = pending cl \<longrightarrow>
      RecvLoop (echo_RecvPacket unmarshal) h cl s = Some (handle_all h (map (received marshal unmarshal) resps) s (inerr cl)))"
proof -
  obtain p' where p': "handle_all (echo_OnMessage decode i) (map (received marshal unmarshal) qs) p (inerr b) = Ret (p', inerr b)"
    "echo_queue p' k = resps"
    using echo_handle_all [OF srv_reachable_ok [OF srv(1)] srv(2) reqs(3)] srv(3) reqs(2,4) by (auto simp: comp_def)
  then show ?thesis
    using echo.loops_round_trip [OF reqs(1) sent, of "echo_OnMessage decode i" p] echo.loops_round_trip [OF reqs(5)] by auto
qed

definition demo_marshal :: "byte list EchoPacket \<Rightarrow> string + byte list" where
  "demo_marshal p = Inr (case echoBody p of EchoReq c \<Rightarrow> [1, of_nat (length c)] | EchoResp c \<Rightarrow> [2, of_nat (length c)] | EchoJson bs \<Rightarrow> 3 # bs)"

definition demo_unmarshal :: "byte list \<Rightarrow> string + byte list EchoPacket" where
  "demo_unmarshal bs = Inr \<lparr>echoMethod = ''echo'', echoBody = EchoJson bs\<rparr>"

definition demo_content :: "byte list EchoPacket \<Rightarrow> string" where
  "demo_content q = (case echoBody q of EchoJson (t # n # bs) \<Rightarrow> replicate (unat n) CHR ''x'' | _ \<Rightarrow> [])"

definition demo_decode :: "byte list echo_body \<Rightarrow> string + string" where
  "demo_decode body = Inr (demo_content \<lparr>echoMethod = ''echo'', echoBody = body\<rparr>)"

definition demo_requests :: "byte list EchoPacket list" where
  "demo_requests = [\<lparr>echoMethod = ''echo'', echoBody = EchoReq ''xx''\<rparr>, \<lparr>echoMethod = ''echo'', echoBody = EchoReq ''x''\<rparr>]"

definition demo_arrived :: conn where
  "demo_arrived = \<lparr>inseg = [[0, 0], [0, 2, 1], [2, 0, 0, 0, 2, 1], [1]], inerr = ''EOF'', out = [], wplan = []\<rparr>"

theorem echo_round_trip_witness:
  "\<exists>p p'. accept_conn NetServer (Inr ''c1'') = (p, Some 0) \<and>
     RecvLoop (echo_RecvPacket demo_unmarshal) (echo_OnMessage demo_decode ''c1'') demo_arrived p = Some (Ret (p', ''EOF'')) \<and>
     echo_queue p' 0 = [echo_resp ''xx'', echo_resp ''x'']"
proof -
  obtain p :: "byte list EchoPacket TcpServer" where p: "accept_conn NetServer (Inr ''c1'') = (p, Some 0)"
    "chmap p ''c1'' = Some 0" "echo_queue p 0 = []"
    by (simp add: accept_conn_def channels_Get_def channels_Add_def set_channel_def NetServer_def NewChannel_def Let_def
        echo_queue_def make_chan_def)
  have r: "srv_reachable p" by (rule srv_move [OF srv_start srv_accept [OF p(1)]])
  let ?a = "\<lparr>inseg = [], inerr = ''EOF'', out = [], wplan = []\<rparr>"
  note e = encodes_def demo_marshal_def demo_unmarshal_def frameable_def received_def demo_requests_def demo_content_def
    demo_decode_def echo_request_def echo_resp_def
  have q: "list_all (encodes demo_marshal demo_unmarshal) demo_requests" by (simp add: e)
  have rc: "map (received demo_marshal demo_unmarshal) demo_requests =
      [\<lparr>echoMethod = ''echo'', echoBody = EchoJson [1, 2]\<rparr>, \<lparr>echoMethod = ''echo'', echoBody = EchoJson [1, 1]\<rparr>]"
    by (simp add: e)
  have c: "list_all (echo_request demo_decode demo_content) (map (received demo_marshal demo_unmarshal) demo_requests)"
    unfolding rc by (simp add: e)
  have s: "map (\<lambda>q. echo_resp (demo_content (received demo_marshal demo_unmarshal q))) demo_requests = [echo_resp ''xx'', echo_resp ''x'']"
    by (simp add: e) (simp add: numeral_2_eq_2)
  have o: "out (SendLoop (echo_SendPacket demo_marshal) ?a demo_requests) = pending demo_arrived"
    by (subst echo.SendLoop_writes [OF q]) (simp_all add: e packet_code_def frame_def be32_def pending_def demo_arrived_def)
  have n: "no_empty demo_arrived" by (simp add: no_empty_def demo_arrived_def)
  have w: "list_all (encodes demo_marshal demo_unmarshal) [echo_resp ''xx'', echo_resp ''x'']" by (simp add: e)
  show ?thesis
    using p echo_round_trip [OF r p(2,3) q _ c s [symmetric] w _ _ o n] by (auto simp: demo_arrived_def demo_requests_def)
qed

end
