(* ===== verification/ServerLife.thy ===== *)
theory ServerLife
  imports Container
begin

text \<open>
  The life of a server process: \<^verbatim>\<open>Run\<close> and \<^verbatim>\<open>Shutdown\<close> of \<^verbatim>\<open>src/mservice/container.go\<close> over \<^verbatim>\<open>Start\<close>,
  \<^verbatim>\<open>Shutdown\<close>, \<^verbatim>\<open>start_logic_service\<close> and \<^verbatim>\<open>wait\<close> of \<^verbatim>\<open>src/net/tcp/tcp_server.go\<close>, as a step relation of
  the goroutines. They meet on \<^verbatim>\<open>channel_exit\<close>, which has no buffer: a sender goes on only when \<^verbatim>\<open>wait\<close>
  receives, and \<^verbatim>\<open>wait\<close> receives once. Whether an address can be listened on is an argument. The
  parameters the programs of \<^verbatim>\<open>src/server/*/service.go\<close> pass to \<^verbatim>\<open>Run\<close> are at the end.
\<close>

section \<open>The goroutines\<close>

text \<open>A logic service: before \<open>Init\<close>, in its accept loop, sending its exit message, at its end.\<close>

datatype svc_pc = SvcStarting | SvcAccepting | SvcExiting | SvcEnded

text \<open>\<open>Start\<close>: in its loop, in \<open>wait\<close>, before the deferred \<open>release\<close>, at its end.\<close>

datatype start_pc = Listening | Waiting | Releasing | Returned

text \<open>\<open>Run\<close>: waiting for the context, in \<open>Shutdown\<close> of the server, at its end.\<close>

datatype run_pc = RunWaiting | RunStopping | RunReturned

text \<open>\<open>svcs\<close> has one entry for each server that has been started, in the order of the parameters.\<close>

record 'p process =
  server :: "'p TcpServer"
  svcs :: "svc_pc list"
  start_at :: start_pc
  run_at :: run_pc

definition start_process :: "'p process" where
  "start_process = \<lparr>server = NetServer, svcs = [], start_at = Listening, run_at = RunWaiting\<rparr>"

definition listen_next :: "(string \<Rightarrow> bool) \<Rightarrow> NetServerParam list \<Rightarrow> 'p process \<Rightarrow> 'p TcpServer \<times> bool" where
  "listen_next listen params r = (let x = params ! length (svcs r) in listen_loop listen [(npName x, listen_addr x)] (server r))"

inductive run_step :: "(string \<Rightarrow> bool) \<Rightarrow> NetServerParam list \<Rightarrow> 'p process \<Rightarrow> 'p process outcome \<Rightarrow> bool"
  for listen params where
  run_listen: "start_at r = Listening \<Longrightarrow> length (svcs r) < length params \<Longrightarrow> listen_next listen params r = (s, True) \<Longrightarrow>
    run_step listen params r (Ret (r\<lparr>server := s, svcs := svcs r @ [SvcStarting]\<rparr>))"
| run_listen_fails: "start_at r = Listening \<Longrightarrow> length (svcs r) < length params \<Longrightarrow> listen_next listen params r = (s, False) \<Longrightarrow>
    run_step listen params r (Ret (r\<lparr>start_at := Releasing\<rparr>))"
| run_wait: "start_at r = Listening \<Longrightarrow> length (svcs r) = length params \<Longrightarrow>
    run_step listen params r (Ret (r\<lparr>start_at := Waiting\<rparr>))"
| run_init: "i < length (svcs r) \<Longrightarrow> svcs r ! i = SvcStarting \<Longrightarrow> pc = SvcAccepting \<or> pc = SvcExiting \<Longrightarrow>
    run_step listen params r (Ret (r\<lparr>svcs := (svcs r)[i := pc]\<rparr>))"
| run_accept: "i < length (svcs r) \<Longrightarrow> svcs r ! i = SvcAccepting \<Longrightarrow> listen_addr (params ! i) \<in> set (open_socks (server r)) \<Longrightarrow>
    accept_conn (server r) accepted = (s, k) \<Longrightarrow> run_step listen params r (Ret (r\<lparr>server := s\<rparr>))"
| run_accept_fails: "i < length (svcs r) \<Longrightarrow> svcs r ! i = SvcAccepting \<Longrightarrow>
    run_step listen params r (Ret (r\<lparr>svcs := (svcs r)[i := SvcExiting]\<rparr>))"
| run_conn: "srv_step (server r) s \<Longrightarrow> run_step listen params r (Ret (r\<lparr>server := s\<rparr>))"
| run_cancel: "run_at r = RunWaiting \<Longrightarrow> run_step listen params r (Ret (r\<lparr>run_at := RunStopping\<rparr>))"
| run_exit: "start_at r = Waiting \<Longrightarrow> i < length (svcs r) \<Longrightarrow> svcs r ! i = SvcExiting \<Longrightarrow>
    run_step listen params r (Ret (r\<lparr>svcs := (svcs r)[i := SvcEnded], start_at := Releasing\<rparr>))"
| run_shutdown: "start_at r = Waiting \<Longrightarrow> run_at r = RunStopping \<Longrightarrow>
    run_step listen params r (Ret (r\<lparr>run_at := RunReturned, start_at := Releasing\<rparr>))"
| run_release: "start_at r = Releasing \<Longrightarrow> set ids = dom (chmap (server r)) \<Longrightarrow> release ids (server r) = Ret s \<Longrightarrow>
    run_step listen params r (Ret (r\<lparr>server := s, start_at := Returned\<rparr>))"
| run_release_panics: "start_at r = Releasing \<Longrightarrow> set ids = dom (chmap (server r)) \<Longrightarrow> release ids (server r) = Crash \<Longrightarrow>
    run_step listen params r Crash"

inductive run_steps :: "(string \<Rightarrow> bool) \<Rightarrow> NetServerParam list \<Rightarrow> 'p process \<Rightarrow> 'p process \<Rightarrow> bool" for listen params where
  run_refl: "run_steps listen params r r"
| run_move: "run_steps listen params r r1 \<Longrightarrow> run_step listen params r1 (Ret r2) \<Longrightarrow> run_steps listen params r r2"

inductive_cases run_stepE: "run_step listen params r (Ret r')"

section \<open>The invariant\<close>

text \<open>The senders that have been received from.\<close>

definition received_from :: "'p process \<Rightarrow> nat" where
  "received_from r = length (filter (\<lambda>pc. pc = SvcEnded) (svcs r)) + (if run_at r = RunReturned then 1 else 0)"

definition over :: "'p process \<Rightarrow> bool" where
  "over r \<longleftrightarrow> start_at r = Releasing \<or> start_at r = Returned"

definition run_inv :: "(string \<Rightarrow> bool) \<Rightarrow> NetServerParam list \<Rightarrow> 'p process \<Rightarrow> bool" where
  "run_inv listen params r \<longleftrightarrow> length (svcs r) \<le> length params \<and>
     (\<forall>i<length (svcs r). listen (listen_addr (params ! i))) \<and>
     (start_at r = Waiting \<longrightarrow> length (svcs r) = length params) \<and>
     received_from r = (if over r \<and> length (svcs r) = length params then 1 else 0)"

lemma ended_update:
  assumes "i < length pcs" "pcs ! i \<noteq> SvcEnded"
  shows "length (filter (\<lambda>pc. pc = SvcEnded) (pcs[i := pc])) =
    length (filter (\<lambda>pc. pc = SvcEnded) pcs) + (if pc = SvcEnded then 1 else 0)"
  using assms
proof (induction pcs arbitrary: i)
  case (Cons p pcs)
  then show ?case by (cases i) auto
qed simp

lemma listen_next_eq:
  "listen_next listen params r = (s, ok) \<Longrightarrow> ok = listen (listen_addr (params ! length (svcs r)))"
  by (auto simp: listen_next_def Let_def split: if_splits)

lemma run_inv_step:
  assumes "run_inv listen params r" "run_step listen params r (Ret r')"
  shows "run_inv listen params r'"
proof -
  note defs = run_inv_def received_from_def over_def
  have upd: "run_inv listen params (r\<lparr>svcs := (svcs r)[i := pc]\<rparr>)" if "i < length (svcs r)" "svcs r ! i \<noteq> SvcEnded" "pc \<noteq> SvcEnded" for i pc
    using that assms(1) by (simp add: defs ended_update)
  from assms(2) show ?thesis
  proof cases
    case (run_listen s)
    then have "listen (listen_addr (params ! length (svcs r)))" using listen_next_eq by blast
    with run_listen assms(1) show ?thesis by (auto simp: defs nth_append less_Suc_eq)
  next
    case (run_init i pc)
    then show ?thesis using upd [of i pc] by auto
  next
    case (run_accept_fails i)
    then show ?thesis using upd [of i SvcExiting] by simp
  next
    case (run_exit i)
    then show ?thesis using assms(1) by (simp add: defs ended_update)
  qed (use assms(1) in \<open>simp_all add: defs\<close>)
qed

lemma run_inv_steps: "run_steps listen params r r' \<Longrightarrow> run_inv listen params r \<Longrightarrow> run_inv listen params r'"
  by (induction rule: run_steps.induct) (auto dest: run_inv_step)

lemma start_process_inv: "run_inv listen params start_process"
  by (simp add: run_inv_def start_process_def received_from_def over_def)

text \<open>Once \<open>Start\<close> is over nobody receives.\<close>

lemma over_step:
  "run_step listen params r (Ret r') \<Longrightarrow> over r \<Longrightarrow> run_at r \<noteq> RunReturned \<Longrightarrow> over r' \<and> run_at r' \<noteq> RunReturned"
  by (erule run_stepE) (auto simp: over_def)

lemma over_steps:
  "run_steps listen params r r' \<Longrightarrow> over r \<Longrightarrow> run_at r \<noteq> RunReturned \<Longrightarrow> over r' \<and> run_at r' \<noteq> RunReturned"
  by (induction rule: run_steps.induct) (auto dest: over_step)

section \<open>The server programs\<close>

text \<open>
  The parameters of the three programs, before the container completes them; the gateway's first server is
  the one its users connect to, with the interface and the port of the gateway's configuration.
\<close>

definition service_param :: NetServerParam where
  "service_param = \<lparr>npName = '''', npIface = '''', npHost = '''', npPort = 0\<rparr>"

definition gw_server_params :: "string \<Rightarrow> int \<Rightarrow> NetServerParam list" where
  "gw_server_params iface port =
     [\<lparr>npName = ''gateway_outter'', npIface = iface, npHost = '''', npPort = port\<rparr>, service_param]"

definition online_server_params :: "NetServerParam list" where "online_server_params = [service_param]"
definition pusher_server_params :: "NetServerParam list" where "pusher_server_params = [service_param]"

text \<open>\<open>Run\<close>, up to the point where the goroutines start: its servers, with the process before its first step.\<close>

definition Run :: "string \<Rightarrow> (string \<Rightarrow> string + string) \<Rightarrow> ServiceConfig \<Rightarrow> NetServerParam list \<Rightarrow> NetServerParam list \<times> 'p process" where
  "Run exec GetIfaceIpAddr cfg params = (set_server_params exec GetIfaceIpAddr cfg params, start_process)"

section \<open>Properties\<close>

text \<open>
  C24: a process stops only when nothing went wrong before. The end of \<open>Start\<close> takes one message, so of
  all the logic services and \<open>Shutdown\<close> at most one gets through. As long as \<open>Start\<close> waits, stopping the
  container works, and when \<open>Run\<close> returns then all its servers were started and none of them has ended.
  But once \<open>Start\<close> has ended in another way, because an address could not be listened on or a service ended
  first, \<open>Run\<close> never returns, also if the container is stopped: \<open>Shutdown\<close> waits for ever.
\<close>

theorem shutdown_only_once:
  assumes "Run exec ip cfg ps = (params, p0)" "run_steps listen params p0 r"
  shows "received_from r \<le> 1 \<and>
    (start_at r = Waiting \<and> run_at r = RunStopping \<longrightarrow>
       (\<exists>r'. run_step listen params r (Ret r') \<and> run_at r' = RunReturned \<and> start_at r' = Releasing)) \<and>
    (run_at r = RunReturned \<longrightarrow> (\<forall>x\<in>set params. listen (listen_addr x)) \<and> SvcEnded \<notin> set (svcs r)) \<and>
    (over r \<and> run_at r \<noteq> RunReturned \<longrightarrow> (\<forall>r'. run_steps listen params r r' \<longrightarrow> run_at r' \<noteq> RunReturned))"
proof -
  have inv: "run_inv listen params r"
    using assms run_inv_steps [OF _ start_process_inv] by (auto simp: Run_def)
  have "(\<forall>x\<in>set params. listen (listen_addr x)) \<and> SvcEnded \<notin> set (svcs r)" if "run_at r = RunReturned"
    using inv that by (auto simp: run_inv_def received_from_def all_set_conv_all_nth in_set_conv_nth filter_empty_conv split: if_splits)
  moreover have "received_from r \<le> 1" using inv by (simp add: run_inv_def)
  ultimately show ?thesis using over_steps [of listen params r] run_shutdown [of r listen params] by fastforce
qed

text \<open>A gateway whose outer address cannot be listened on.\<close>

theorem shutdown_only_once_witness:
  "\<exists>params (p0 :: nat process) r. Run ''gateway'' (\<lambda>_. Inr ''h'') demo_service_cfg (gw_server_params ''eth1'' 9000) = (params, p0) \<and>
     run_steps (\<lambda>_. False) params p0 r \<and> run_at r = RunStopping \<and>
     (\<forall>r'. run_steps (\<lambda>_. False) params r r' \<longrightarrow> run_at r' \<noteq> RunReturned)"
proof -
  let ?ps = "gw_server_params ''eth1'' 9000"
  obtain params and p0 :: "nat process" where R: "Run ''gateway'' (\<lambda>_. Inr ''h'') demo_service_cfg ?ps = (params, p0)"
    and p: "p0 = start_process" "params \<noteq> []" by (auto simp: Run_def gw_server_params_def)
  let ?r = "p0\<lparr>start_at := Releasing, run_at := RunStopping\<rparr>"
  have "run_step (\<lambda>_. False) params p0 (Ret (p0\<lparr>start_at := Releasing\<rparr>))"
    by (rule run_listen_fails [of _ _ _ "server p0"]) (use p in \<open>simp_all add: start_process_def listen_next_def Let_def\<close>)
  moreover have "run_step (\<lambda>_. False) params (p0\<lparr>start_at := Releasing\<rparr>) (Ret ?r)"
    using run_cancel [of "p0\<lparr>start_at := Releasing\<rparr>"] p(1) by (simp add: start_process_def)
  ultimately have "run_steps (\<lambda>_. False) params p0 ?r" by (blast intro: run_steps.intros)
  moreover from this have "\<forall>r'. run_steps (\<lambda>_. False) params ?r r' \<longrightarrow> run_at r' \<noteq> RunReturned"
    using shutdown_only_once [OF R, of "\<lambda>_. False" ?r] by (simp add: over_def)
  ultimately show ?thesis using R by (intro exI [of _ params] exI [of _ p0] exI [of _ ?r]) simp
qed

end
