(* ===== verification/ServerConfig.thy ===== *)
theory ServerConfig
  imports Container ConfigUtil GoStrings
begin

text \<open>
  The configurations the processes read, from \<^verbatim>\<open>src/mservice/define/config.go\<close> and
  \<^verbatim>\<open>src/server/{gateway,online,pusher}/define/config.go\<close>, and where they are kept: one table for all of a
  process, whose values are of any type. Also the paths the programs derive from the name of the executable
  (\<^verbatim>\<open>src/util/common_util.go\<close>, \<^verbatim>\<open>src/mservice/util/common_util.go\<close>).
\<close>

section \<open>The framework's configuration\<close>

record EtcdConfig =
  etcdAddrs :: "string list"
  etcdUsername :: string
  etcdPassword :: string

record RedisConfig =
  redisAddr :: string
  redisPassword :: string
  redisDbIndex :: int

record ObjClientConfig =
  MaxCacheSize :: int
  HeartbeatTs :: int
  ocRetryConnectSec :: int
  ocCallTimeoutSec :: int
  ocInvalidSeriesFailCount :: int

record MServiceConfig =
  EtcdCfg :: EtcdConfig
  ObjClientCfg :: ObjClientConfig
  RedisCfg :: RedisConfig
  ServiceCfg :: ServiceConfig

section \<open>The servers' configurations\<close>

record GatewayListen =
  glIface :: string
  glPort :: int

record GatewayFlowLimit =
  InputLimit :: int
  OutputLimit :: int

record GatewayCommon =
  MaxUserCount :: int
  UserHeartbeatSec :: int
  MergePacketSec :: int

record ReportInfo =
  riUrl :: string
  riPeriod :: int

record GatewayConfig =
  gcListen :: GatewayListen
  gcFlowLimit :: GatewayFlowLimit
  gcCommon :: GatewayCommon
  gcReport :: ReportInfo

record OnlineConfig =
  onMaxCacheSize :: int
  onCacheExpireSec :: int

record PusherConfig =
  puUserCacheSec :: int
  puUserCacheSize :: int
  puBroadcastUidCount :: int
  puPushChannelCount :: int
  puRetryClientConnectSec :: int

section \<open>The table of a process\<close>

text \<open>\<open>get_string\<close>: the key of a configuration is the name of its type.\<close>

definition kMServiceConfig :: string where "kMServiceConfig = ''mservice_define.MServiceConfig''"
definition kGatewayConfig :: string where "kGatewayConfig = ''gateway_define.GatewayConfig''"
definition kOnlineConfig :: string where "kOnlineConfig = ''online_define.OnlineConfig''"
definition kPusherConfig :: string where "kPusherConfig = ''pusher_define.PusherConfig''"

text \<open>A value of the table, an interface, is a pointer to one of the structs.\<close>

datatype any_config =
  IsMService MServiceConfig
| IsGateway GatewayConfig
| IsOnline OnlineConfig
| IsPusher PusherConfig

type_synonym cfg_table = "any_config Configs"

text \<open>\<open>GetConfigValue[T]\<close>, used: a nil pointer is dereferenced, and a value of another type fails the assertion.\<close>

definition config_value :: "string \<Rightarrow> (any_config \<Rightarrow> 'cfg option) \<Rightarrow> cfg_table \<Rightarrow> (cfg_table \<times> 'cfg) outcome" where
  "config_value key as p =
     obind (GetConfigValue key p) (\<lambda>(p, cfg).
       case cfg of None \<Rightarrow> Crash | Some c \<Rightarrow> (case as c of None \<Rightarrow> Crash | Some c \<Rightarrow> Ret (p, c)))"

fun as_mservice :: "any_config \<Rightarrow> MServiceConfig option" where
  "as_mservice (IsMService c) = Some c"
| "as_mservice _ = None"

fun as_gateway :: "any_config \<Rightarrow> GatewayConfig option" where
  "as_gateway (IsGateway c) = Some c"
| "as_gateway _ = None"

text \<open>Decoding the content of a configuration as \<open>T\<close>, with the value as it is stored.\<close>

definition decode_as :: "('cfg \<Rightarrow> any_config) \<Rightarrow> (string \<Rightarrow> string + 'cfg) \<Rightarrow> string \<Rightarrow> string + any_config" where
  "decode_as C unmarshal content = (case unmarshal content of Inl err \<Rightarrow> Inl err | Inr c \<Rightarrow> Inr (C c))"

lemma loader_Get_decode:
  "loader_Get content (decode_as C u) = (case loader_Get content u of Inl err \<Rightarrow> Inl err | Inr c \<Rightarrow> Inr (C c))"
  by (simp add: loader_Get_def decode_as_def split: sum.split)

lemma config_value_free:
  "\<not> cmutex p \<Longrightarrow> config_value key as p =
    (case config_of p key of None \<Rightarrow> Crash | Some c \<Rightarrow> (case as c of None \<Rightarrow> Crash | Some c \<Rightarrow> Ret (p, c)))"
  by (simp add: config_value_def GetConfigValue_free)

section \<open>Paths\<close>

definition GetExecName :: "string \<Rightarrow> string" where "GetExecName executable = file_of executable"
definition GetExecPath :: "string \<Rightarrow> string" where "GetExecPath executable = executable"
definition GetConfigName :: "string \<Rightarrow> string" where "GetConfigName executable = GetExecName executable @ ''.cfg''"
definition GetConfigPath :: "string \<Rightarrow> string" where "GetConfigPath executable = GetExecPath executable @ ''.cfg''"
definition GetServiceConfigPath :: "string \<Rightarrow> string" where "GetServiceConfigPath executable = dir_of executable @ ''mservice.cfg''"

text \<open>Both files lie in the directory of the executable, and they are two unless it is called \<^verbatim>\<open>mservice\<close>.\<close>

lemma config_paths:
  "GetConfigPath e = dir_of e @ GetConfigName e" "GetConfigPath e = GetServiceConfigPath e \<longleftrightarrow> GetExecName e = ''mservice''"
proof -
  show p: "GetConfigPath e = dir_of e @ GetConfigName e"
    using dir_file [of e] by (simp add: GetConfigPath_def GetExecPath_def GetConfigName_def GetExecName_def)
  have "''mservice.cfg'' = ''mservice'' @ ''.cfg''" by simp
  then show "GetConfigPath e = GetServiceConfigPath e \<longleftrightarrow> GetExecName e = ''mservice''"
    unfolding p GetServiceConfigPath_def GetConfigName_def by (metis append_same_eq same_append_eq)
qed

end
