(* ===== verification/ContainerInit.thy ===== *)
theory ContainerInit
  imports ServerConfig NetUtil ObjProxy
begin

text \<open>
  The start of a service: \<^verbatim>\<open>init_container\<close> and the calls of \<^verbatim>\<open>src/mservice/container.go\<close>, and the clients of etcd
  and Redis of \<^verbatim>\<open>src/mservice/util/db_util.go\<close>, on the configuration of \<open>ServerConfig\<close>. The state is the table of configurations, the naming
  client and the etcd store; \<open>boot_env\<close> holds what the process finds outside: its flags, the name of its
  executable, the log file, the file with the configuration, the network interfaces.
\<close>

definition SERVICE_ETCD_CONFIG_PATH :: string where "SERVICE_ETCD_CONFIG_PATH = ''/service/server/config''"

section \<open>Starting\<close>

record LauncherParam =
  ConfigMode :: string
  LogMode :: string

record 's boot_env =
  bExec :: string
  bUuid :: string
  bParam :: LauncherParam
  bLogErr :: "string option"
  bFile :: "string + string"
  bUnmarshal :: "string \<Rightarrow> string + MServiceConfig"
  bIfaces :: "string + net_iface list"
  bEtcd :: "'s etcd_client"

definition boot_service_id :: "'s boot_env \<Rightarrow> string" where
  "boot_service_id env = bExec env @ ''_'' @ bUuid env"

definition init_log :: "'s boot_env \<Rightarrow> string option" where
  "init_log env = (if LogMode (bParam env) = ''file'' then bLogErr env else None)"

text \<open>
  The first \<open>GetEtcdInstance\<close>: it takes the address of etcd from the configuration, a nil pointer as long
  as none was set.
\<close>

definition GetEtcdInstance :: "cfg_table \<Rightarrow> (cfg_table \<times> EtcdConfig) outcome" where
  "GetEtcdInstance p = obind (config_value kMServiceConfig as_mservice p) (\<lambda>(p, c). Ret (p, EtcdCfg c))"

text \<open>The first \<open>GetRedisInstance\<close>, in the same way, with the options of the client: address, password, number of the database.\<close>

definition GetRedisInstance :: "(string \<Rightarrow> string \<Rightarrow> int \<Rightarrow> 'client) \<Rightarrow> cfg_table \<Rightarrow> (cfg_table \<times> 'client) outcome" where
  "GetRedisInstance new p =
     obind (config_value kMServiceConfig as_mservice p) (\<lambda>(p, c).
       let cfg = RedisCfg c in Ret (p, new (redisAddr cfg) (redisPassword cfg) (redisDbIndex cfg)))"

definition init_config_by_file :: "'s boot_env \<Rightarrow> cfg_table \<Rightarrow> (cfg_table \<times> string option) outcome" where
  "init_config_by_file env p = SetConfigByFileLoader kMServiceConfig (bFile env) (decode_as IsMService (bUnmarshal env)) p"

definition init_config_by_etcd :: "'s boot_env \<Rightarrow> 's \<Rightarrow> cfg_table \<Rightarrow> (cfg_table \<times> string option) outcome" where
  "init_config_by_etcd env s p =
     obind (GetEtcdInstance p) (\<lambda>(p, _).
       SetConfigByEtcdLoader kMServiceConfig (bEtcd env)
         (SERVICE_ETCD_CONFIG_PATH @ ''/'' @ bExec env @ ''/mservice.cfg'') (decode_as IsMService (bUnmarshal env)) s p)"

definition init_config :: "'s boot_env \<Rightarrow> 's \<Rightarrow> cfg_table \<Rightarrow> (cfg_table \<times> string option) outcome" where
  "init_config env s p =
     (let mode = ConfigMode (bParam env)
      in if mode = ''file'' then init_config_by_file env p
         else if mode = ''etcd'' then init_config_by_etcd env s p
         else Ret (p, Some (''unknow config_mode:'' @ mode)))"

text \<open>\<open>Register\<close> on the etcd of the environment: the put of a new id changes the store.\<close>

definition etcd_register :: "'s etcd_client \<Rightarrow> int \<Rightarrow> Naming \<Rightarrow> ServiceInfo \<Rightarrow> 's \<Rightarrow> (Naming \<times> string option \<times> 's) outcome" where
  "etcd_register client ttl n info s =
     obind (Register (\<lambda>k v t. fst (PutWithTimeout client k v t s)) ttl n info) (\<lambda>(n1, err).
       let (k, v) = convert_service_info_to_str info
       in Ret (n1, err,
            if register_cancels n (ServiceId info) \<noteq> None then s
            else snd (PutWithTimeout client k v (i64 (3 * ttl)) s)))"

definition init_container ::
  "'s boot_env \<Rightarrow> cfg_table \<Rightarrow> Naming \<Rightarrow> 's \<Rightarrow> ((cfg_table \<times> Naming \<times> 's) \<times> string option) outcome" where
  "init_container env p n s =
     (case init_log env of
        Some err \<Rightarrow> Ret ((p, n, s), Some err)
      | None \<Rightarrow>
        obind (init_config env s p) (\<lambda>(p, err).
          case err of
            Some e \<Rightarrow> Ret ((p, n, s), Some e)
          | None \<Rightarrow>
            obind (config_value kMServiceConfig as_mservice p) (\<lambda>(p, c).
              case get_service_info (bExec env) (boot_service_id env) (GetIfaceIpAddr (bIfaces env)) (ServiceCfg c) of
                Inl e \<Rightarrow> Ret ((p, n, s), Some e)
              | Inr info \<Rightarrow>
                obind (etcd_register (bEtcd env) (KeepAliveTtl (ServiceCfg c)) n info s) (\<lambda>(n, err, s).
                  Ret ((p, n, s), err)))))"

text \<open>\<open>container_instance\<close>: an error of the start is a panic.\<close>

definition container_instance :: "'s boot_env \<Rightarrow> cfg_table \<Rightarrow> Naming \<Rightarrow> 's \<Rightarrow> (cfg_table \<times> Naming \<times> 's) outcome" where
  "container_instance env p n s =
     obind (init_container env p n s) (\<lambda>(st, err). case err of None \<Rightarrow> Ret st | Some e \<Rightarrow> Crash)"

section \<open>Calling other services\<close>

definition container_Call ::
  "('c, 'b) pending_ops \<Rightarrow> int \<Rightarrow> (string \<Rightarrow> ('c, 'b) ObjectProxy option) \<Rightarrow> ('c, 'b) ObjProxyMgr \<Rightarrow> string \<Rightarrow>
   32 word \<Rightarrow> string \<Rightarrow> string \<Rightarrow> 'b \<Rightarrow> ('c, 'b) ObjProxyMgr outcome" where
  "container_Call L now fresh m uuid hash service method body =
     mgr_Call L now fresh m hash (CreateReqPacket uuid service method MS_CALL body)"

definition container_CallAsync ::
  "('c, 'b) pending_ops \<Rightarrow> int \<Rightarrow> (string \<Rightarrow> ('c, 'b) ObjectProxy option) \<Rightarrow> ('c, 'b) ObjProxyMgr \<Rightarrow> string \<Rightarrow>
   32 word \<Rightarrow> string \<Rightarrow> string \<Rightarrow> 'b \<Rightarrow> ('c, 'b) ObjProxyMgr outcome" where
  "container_CallAsync L now fresh m uuid hash service method body =
     mgr_CallAsync L now fresh m hash (CreateReqPacket uuid service method MS_CALL body)"

definition container_Cast ::
  "('c, 'b) pending_ops \<Rightarrow> int \<Rightarrow> (string \<Rightarrow> ('c, 'b) ObjectProxy option) \<Rightarrow> ('c, 'b) ObjProxyMgr \<Rightarrow> string \<Rightarrow>
   32 word \<Rightarrow> string \<Rightarrow> string \<Rightarrow> 'b \<Rightarrow> ('c, 'b) ObjProxyMgr outcome" where
  "container_Cast L now fresh m uuid hash service method body =
     mgr_Cast L now fresh m hash (CreateReqPacket uuid service method MS_CAST body)"

text \<open>The same for packets that exist already.\<close>

definition CallByPacket ::
  "('c, 'b) pending_ops \<Rightarrow> int \<Rightarrow> (string \<Rightarrow> ('c, 'b) ObjectProxy option) \<Rightarrow> ('c, 'b) ObjProxyMgr \<Rightarrow>
   32 word \<Rightarrow> 'b MServicePacket \<Rightarrow> ('c, 'b) ObjProxyMgr outcome" where
  "CallByPacket L now fresh m hash r = mgr_Call L now fresh m hash r"

definition CallAsyncByPacket ::
  "('c, 'b) pending_ops \<Rightarrow> int \<Rightarrow> (string \<Rightarrow> ('c, 'b) ObjectProxy option) \<Rightarrow> ('c, 'b) ObjProxyMgr \<Rightarrow>
   32 word \<Rightarrow> 'b MServicePacket \<Rightarrow> ('c, 'b) ObjProxyMgr outcome" where
  "CallAsyncByPacket L now fresh m hash r = mgr_CallAsync L now fresh m hash r"

definition CastByPacket ::
  "('c, 'b) pending_ops \<Rightarrow> int \<Rightarrow> (string \<Rightarrow> ('c, 'b) ObjectProxy option) \<Rightarrow> ('c, 'b) ObjProxyMgr \<Rightarrow>
   32 word \<Rightarrow> 'b MServicePacket \<Rightarrow> ('c, 'b) ObjProxyMgr outcome" where
  "CastByPacket L now fresh m hash r = mgr_Cast L now fresh m hash r"

section \<open>What starting does\<close>

text \<open>With the configuration in etcd the container cannot start: the address of etcd is in the configuration.\<close>

lemma etcd_mode_crashes:
  assumes "\<not> cmutex p" "config_of p kMServiceConfig = None" "ConfigMode (bParam env) = ''etcd''" "init_log env = None"
  shows "container_instance env p n s = Crash"
  using assms
  by (simp add: container_instance_def init_container_def init_config_def init_config_by_etcd_def GetEtcdInstance_def
      config_value_free)

lemma etcd_register_ok:
  assumes "etcd_register client ttl n info s = Ret (n', None, s')"
  shows "\<exists>lease. PutWithTimeout client (fst (convert_service_info_to_str info)) (ServiceId info) (i64 (3 * ttl)) s = (Inr lease, s')"
proof -
  have v: "snd (convert_service_info_to_str info) = ServiceId info" by (simp add: convert_service_info_to_str_def)
  obtain k where k: "convert_service_info_to_str info = (k, ServiceId info)"
    using v by (cases "convert_service_info_to_str info") simp
  then show ?thesis using assms
    by (cases "PutWithTimeout client k (ServiceId info) (i64 (3 * ttl)) s"; cases "nlock n")
      (auto simp: etcd_register_def Register_def Let_def obind_Ret split: if_splits sum.splits)
qed

lemma container_instance_file:
  assumes "\<not> cmutex p" "ConfigMode (bParam env) = ''file''" "container_instance env p n s = Ret (p', n', s')"
  shows "\<exists>c lease info. loader_Get (bFile env) (bUnmarshal env) = Inr c \<and>
    \<not> cmutex p' \<and> config_of p' = (config_of p)(kMServiceConfig \<mapsto> IsMService c) \<and>
    get_service_info (bExec env) (boot_service_id env) (GetIfaceIpAddr (bIfaces env)) (ServiceCfg c) = Inr info \<and>
    PutWithTimeout (bEtcd env) (fst (convert_service_info_to_str info)) (ServiceId info)
      (i64 (3 * KeepAliveTtl (ServiceCfg c))) s = (Inr lease, s')"
proof -
  let ?loaded = "loader_Get (bFile env) (decode_as IsMService (bUnmarshal env))"
  obtain p1 where p1: "SetConfig kMServiceConfig ?loaded p = Ret (p1, None)"
    using assms(2,3) by (auto simp: container_instance_def init_container_def init_config_def init_config_by_file_def
        SetConfigByFileLoader_def obind_Ret split: option.splits prod.splits)
  obtain c where c: "loader_Get (bFile env) (bUnmarshal env) = Inr c" "\<not> cmutex p1"
    "config_of p1 = (config_of p)(kMServiceConfig \<mapsto> IsMService c)"
    using SetConfig_stored [OF assms(1) p1] by (auto simp: loader_Get_decode split: sum.splits)
  then have "config_value kMServiceConfig as_mservice p1 = Ret (p1, c)" by (simp add: config_value_free)
  then show ?thesis using assms(2,3) p1 c
    by (auto simp: container_instance_def init_container_def init_config_def init_config_by_file_def
        SetConfigByFileLoader_def obind_Ret split: option.splits prod.splits sum.splits
        dest!: etcd_register_ok)
qed

lemma get_service_info_Inr:
  "get_service_info exec i ip cfg = Inr info \<longleftrightarrow>
    (\<exists>host. ip (ListenIface cfg) = Inr host \<and> info = \<lparr>Name = exec, ServiceId = i, Host = host, Port = ListenPort cfg\<rparr>)"
  by (auto simp: get_service_info_def split: sum.split)

section \<open>A configuration and a machine's interface\<close>

definition demo_mservice :: MServiceConfig where
  "demo_mservice = \<lparr>EtcdCfg = \<lparr>etcdAddrs = [''10.0.0.9:2379''], etcdUsername = '''', etcdPassword = ''''\<rparr>,
     ObjClientCfg = \<lparr>MaxCacheSize = 10, HeartbeatTs = 10, ocRetryConnectSec = 5, ocCallTimeoutSec = 5, ocInvalidSeriesFailCount = 3\<rparr>,
     RedisCfg = \<lparr>redisAddr = '''', redisPassword = '''', redisDbIndex = 0\<rparr>, ServiceCfg = demo_service_cfg\<rparr>"

definition demo_iface :: net_iface where
  "demo_iface = \<lparr>ifName = ''eth0'', ifFlags = 1, ifAddrs = Inr [IPNet [10, 0, 0, 1]], ifMac = '''', ifMtu = 1500\<rparr>"

lemma demo_service_info:
  "get_service_info exec i (GetIfaceIpAddr (Inr [demo_iface])) (ServiceCfg demo_mservice) =
    Inr \<lparr>Name = exec, ServiceId = i, Host = ip4_String [10, 0, 0, 1], Port = 8000\<rparr>"
  by (simp add: get_service_info_def GetIfaceIpAddr_def GetActiveNetInterfaces_def demo_iface_def FlagUp_def FlagLoopback_def
      get_ip_from_addr_def IsLoopback_def To4_def demo_mservice_def demo_service_cfg_def)

end
