(* ===== verification/Discovery.thy ===== *)
theory Discovery
  imports ContainerInit ObjProxySpec
begin

text \<open>
  How the services find and reach each other, over the components: a container that starts
  registers its service in etcd; the naming client of another process finds it there; the proxy of
  that process connects to what was found and sends a call to one of the nodes.
\<close>

section \<open>Finding what the store holds\<close>

text \<open>
  What an enumeration of the part of the store below a name's prefix is: what ranging over the map of
  \<open>GetWithPrefix\<close> gives.
\<close>

definition ranges_over :: "(string \<times> string) list \<Rightarrow> (string \<rightharpoonup> string) \<Rightarrow> bool" where
  "ranges_over kvs m \<longleftrightarrow> distinct (map fst kvs) \<and> map_of kvs = m"

text \<open>No key below the prefix of a name but those of services.\<close>

definition no_foreign_keys :: "(string \<rightharpoonup> string) \<Rightarrow> string \<Rightarrow> bool" where
  "no_foreign_keys st name \<longleftrightarrow>
     (\<forall>k v. st k = Some v \<longrightarrow> prefix (find_prefix name) k \<longrightarrow> (\<exists>i. slash_free i \<and> convert_service_info_to_str i = (k, v)))"

text \<open>The services a store holds under a name: those the text of the key can be read back from.\<close>

definition registered :: "(string \<rightharpoonup> string) \<Rightarrow> string \<Rightarrow> ServiceInfo set" where
  "registered st name =
     {i. Name i = name \<and> slash_free i \<and> plain i \<and> st (fst (convert_service_info_to_str i)) = Some (ServiceId i)}"

lemma same_key_plain:
  assumes "slash_free i" "slash_free j" "plain i" "convert_service_info_to_str j = convert_service_info_to_str i"
  shows "j = i"
  using convert_key [OF assms(1)] convert_key [OF assms(2)] assms(3,4) by (auto split: if_splits prod.splits)

lemma map_list_all: "\<forall>y\<in>set ys. \<exists>x. P x \<and> f x = y \<Longrightarrow> \<exists>xs. ys = map f xs \<and> list_all P xs"
proof (induction ys)
  case (Cons y ys)
  then obtain x xs where "P x" "f x = y" "ys = map f xs" "list_all P xs" by auto
  then show ?case by (intro exI [of _ "x # xs"]) simp
qed simp

lemma Find_store:
  assumes "CHR ''/'' \<notin> set name" "no_foreign_keys st name"
    and "G (find_prefix name) = Inr kvs" "ranges_over kvs (\<lambda>k. if prefix (find_prefix name) k then st k else None)"
  shows "\<exists>found. Find G name = Some (Inr found) \<and> set found = registered st name"
proof -
  have kvs: "(k, v) \<in> set kvs \<longleftrightarrow> st k = Some v \<and> prefix (find_prefix name) k" for k v
    using assms(4) map_of_eq_Some_iff [of kvs k v] by (auto simp: ranges_over_def split: if_splits)
  have "\<forall>kv\<in>set kvs. \<exists>i. slash_free i \<and> convert_service_info_to_str i = kv"
    using kvs assms(2) unfolding no_foreign_keys_def by fast
  then obtain js where js: "kvs = map convert_service_info_to_str js" "list_all slash_free js" by (blast dest: map_list_all)
  have v: "convert_service_info_to_str i = (fst (convert_service_info_to_str i), ServiceId i)" for i
    by (simp add: convert_service_info_to_str_def)
  have name: "prefix (find_prefix name) (fst (convert_service_info_to_str i)) \<longleftrightarrow> Name i = name" if "slash_free i" for i
    using find_prefix_key [OF assms(1), of i] that by (simp add: slash_free_def)
  have c: "convert_service_info_to_str i \<in> set kvs \<longleftrightarrow>
      st (fst (convert_service_info_to_str i)) = Some (ServiceId i) \<and> prefix (find_prefix name) (fst (convert_service_info_to_str i))" for i
    by (subst v) (rule kvs)
  have "i \<in> set (filter plain js) \<longleftrightarrow> i \<in> registered st name" for i
  proof
    assume i: "i \<in> set (filter plain js)"
    then have "convert_service_info_to_str i \<in> set kvs" using js(1) by auto
    then show "i \<in> registered st name" using i js(2) c [of i] name [of i] by (auto simp: registered_def list_all_iff)
  next
    assume i: "i \<in> registered st name"
    then have "convert_service_info_to_str i \<in> set kvs" using c [of i] name [of i] by (auto simp: registered_def)
    then obtain j where "j \<in> set js" "convert_service_info_to_str j = convert_service_info_to_str i" using js(1) by auto
    then show "i \<in> set (filter plain js)" using i js(2) same_key_plain [of i j] by (auto simp: registered_def list_all_iff)
  qed
  moreover have "Find G name = Some (Inr (filter plain js))"
    using assms(3) js by (simp add: Find_def convert_all_keys)
  ultimately show ?thesis by auto
qed

lemma same_address:
  assumes "slash_free i" "slash_free j" "plain i" "plain j" "fst (convert_service_info_to_str i) = fst (convert_service_info_to_str j)"
  shows "Host i = Host j \<and> Port i = Port j"
proof -
  let ?k = "fst (convert_service_info_to_str j)"
  have p: "convert_str_to_service_info ?k (ServiceId i) = Some (Some i)" "convert_str_to_service_info ?k (ServiceId j) = Some (Some j)"
    using convert_key [OF assms(1)] convert_key [OF assms(2)] assms(3,4) unfolding assms(5) [symmetric]
    by (simp_all add: convert_service_info_to_str_def)
  have "convert_str_to_service_info ?k (ServiceId j) = Some (Some (i\<lparr>ServiceId := ServiceId j\<rparr>))"
    using p(1) by (cases i) (auto simp: convert_str_to_service_info_def Let_def split: bind_splits if_splits)
  then have "j = i\<lparr>ServiceId := ServiceId j\<rparr>" using p(2) by simp
  then show ?thesis by (cases i; cases j) simp
qed

text \<open>An IPv4 address and a port have none of the separators of a key.\<close>

lemma ip4_plain: "CHR ''_'' \<notin> set (ip4_String ip)" "CHR ''/'' \<notin> set (ip4_String ip)"
  using show_int_chars [of "int n" for n] by (auto simp: ip4_String_def show_int_def dest: show_nat_digits digit_ne) 

lemma registered_put:
  assumes "slash_free info" "plain info" "convert_service_info_to_str info = (k, v)"
  shows "info \<in> registered (st(k \<mapsto> v)) (Name info)"
    "i \<in> registered st name \<Longrightarrow> (Host i, Port i) \<noteq> (Host info, Port info) \<Longrightarrow> i \<in> registered (st(k \<mapsto> v)) name"
    "no_foreign_keys st name \<Longrightarrow> no_foreign_keys (st(k \<mapsto> v)) name"
proof -
  have v: "v = ServiceId info" using assms(3) by (simp add: convert_service_info_to_str_def)
  show "info \<in> registered (st(k \<mapsto> v)) (Name info)" using assms v by (simp add: registered_def)
  show "i \<in> registered st name \<Longrightarrow> (Host i, Port i) \<noteq> (Host info, Port info) \<Longrightarrow> i \<in> registered (st(k \<mapsto> v)) name"
    using same_address [of i info] assms by (auto simp: registered_def)
  show "no_foreign_keys st name \<Longrightarrow> no_foreign_keys (st(k \<mapsto> v)) name"
    using assms by (auto simp: no_foreign_keys_def)
qed

section \<open>Connecting to what was found\<close>

definition node_client :: "ServiceInfo \<Rightarrow> 'b client" where
  "node_client i = \<lparr>tHost = Host i, tPort = Port i,
     tParam = \<lparr>cdServiceId = ServiceId i, retry_connect_ts = 0, series_fail_count = 0\<rparr>, tState = StateConnected,
     tChan = Some (make_chan kMaxSendChannelSize), tConn = True, tCancelled = False, tCbClose = True, tLock = False\<rparr>"

definition with_nodes :: "('c, 'b) ObjectProxy \<Rightarrow> ServiceInfo list \<Rightarrow> ('c, 'b) ObjectProxy" where
  "with_nodes p infos = (let n = client_count p in
     p\<lparr>clients := (\<lambda>k. if n \<le> k \<and> k < n + length infos then node_client (infos ! (k - n)) else clients p k),
       client_count := n + length infos, active_clients := active_clients p @ [n..<n + length infos]\<rparr>)"

lemma Connect_new:
  "Connect None (NewTcpClient (Host i) (Port i) True \<lparr>cdServiceId = ServiceId i, retry_connect_ts = 0, series_fail_count = 0\<rparr>) =
    Ret (node_client i, None)"
  by (simp add: Connect_def client_critical_def client_mutex.runs NewTcpClient_def node_client_def StateClose_def StateConnected_def)

lemma init_clients_all:
  assumes "\<forall>i\<in>set infos. dial i = None"
  shows "init_clients dial infos p = Ret (with_nodes p infos)"
  using assms
proof (induction infos arbitrary: p)
  case Nil
  have "with_nodes p [] = p" by (cases p) (auto simp: with_nodes_def fun_eq_iff)
  then show ?case by simp
next
  case (Cons i infos)
  let ?n = "client_count p"
  let ?p = "p\<lparr>client_count := Suc ?n, clients := (clients p)(?n := node_client i), active_clients := active_clients p @ [?n]\<rparr>"
  have "init_clients dial (i # infos) p = init_clients dial infos ?p"
    using Cons.prems by (simp add: Connect_new new_client_def Let_def set_client_def)
  also have "\<dots> = Ret (with_nodes ?p infos)" using Cons by simp
  also have "with_nodes ?p infos = with_nodes p (i # infos)"
    by (rule ObjectProxy.equality) (auto simp: with_nodes_def Let_def fun_eq_iff nth_Cons' upt_conv_Cons simp del: upt_Suc)
  finally show ?case .
qed

section \<open>Properties\<close>


definition demo_boot :: "(string \<times> string) list boot_env" where
  "demo_boot = \<lparr>bExec = ''online'', bUuid = ''u'', bParam = \<lparr>ConfigMode = ''file'', LogMode = ''stdout''\<rparr>, bLogErr = None,
     bFile = Inr ''{}'', bUnmarshal = (\<lambda>_. Inr demo_mservice), bIfaces = Inr [demo_iface], bEtcd = assoc_etcd\<rparr>"

lemma demo_boot_starts: "\<exists>p' n' s'. container_instance demo_boot no_configs NewNaming [] = Ret (p', n', s')"
proof -
  have n: "\<not> cmutex (no_configs :: cfg_table)" "config_of (no_configs :: cfg_table) kMServiceConfig = None"
    by (simp_all add: no_configs_def config_of_def)
  obtain p1 where p1: "SetConfig kMServiceConfig (Inr (IsMService demo_mservice)) no_configs = Ret (p1, None)"
    "config_value kMServiceConfig as_mservice p1 = Ret (p1, demo_mservice)"
    using SetConfig_ok [OF n, of "IsMService demo_mservice"] by (auto simp: config_value_free)
  show ?thesis using p1 demo_service_info
    by (simp add: container_instance_def init_container_def init_log_def init_config_def init_config_by_file_def
        SetConfigByFileLoader_def loader_Get_def decode_as_def demo_boot_def demo_mservice_def etcd_register_def Register_def NewNaming_def
        PutWithTimeout_def assoc_etcd_def Let_def split_beta)
qed


text \<open>
  C36: a call reaches a node of its service. A new proxy subscribes to its service, connects to all
  that a search found, when they accept, and is free to be called; a call is queued, and the next round
  of the main loop that takes it puts its request into the send queue of the node that its hash
  picks among those found, and into no other. (The cache of pending calls is empty at first; that
  adding to it evicts nothing is assumed.)
\<close>

theorem call_reaches_node:
  assumes found: "Find G name = Some (Inr infos)" "infos \<noteq> []" "length infos < 2 ^ 32" "\<forall>i\<in>set infos. dial i = None"
    and free: "\<not> nlock n" "watch_cancels n name = None"
    and lru: "\<forall>k v. snd (lruAdd L (lruNew L sz) k v) = None"
  shows "\<exists>n' p p1 p2. NewObjectProxy L sz rs ts ic G dial n name = Ret (n', p) \<and> CallBegin L now p h r = Ret p1 \<and>
    loop_main_round L waiting dial' now' PickSend p1 = Ret p2 \<and> active_clients p2 = [0..<length infos] \<and>
    (\<forall>j<length infos. tHost (clients p2 j) = Host (infos ! j) \<and> tPort (clients p2 j) = Port (infos ! j) \<and>
       tChan (clients p2 j) =
         Some \<lparr>buf = (if j = unat h mod length infos then [r] else []), cap = kMaxSendChannelSize, closed = False\<rparr>)"
proof -
  let ?p = "with_nodes (empty_proxy L sz rs ts ic name) infos"
  obtain n' where "Subscribe n name = Ret (n', None)"
    using free by (simp add: Subscribe_def naming_critical_def naming_mutex.runs)
  then have new: "NewObjectProxy L sz rs ts ic G dial n name = Ret (n', ?p)"
    using found(1) by (simp add: NewObjectProxy_def proxy_init_def empty_proxy_def init_clients_all found(4))
  let ?rec = "\<lparr>call_type = kCall, rhash = h, req = r, send_ts = now\<rparr>"
  obtain c where c: "lruAdd L (lruNew L sz) (TraceId (Header r)) ?rec = (c, None)" using lru by (metis prod.collapse)
  let ?q1 = "?p\<lparr>lru_reqs := c, channel_send := (make_chan 1000)\<lparr>buf := [?rec]\<rparr>\<rparr>" and ?q0 = "?p\<lparr>lru_reqs := c\<rparr>"
  have call: "CallBegin L now ?p h r = Ret ?q1"
    using c by (simp add: CallBegin_def add_to_call_queue_def lru_Set_def no_evicted_def do_evicted_def chan_send_def make_chan_def
        with_nodes_def empty_proxy_def Let_def)
  let ?k = "unat h mod length infos"
  have k: "?k < length infos" using found(2) by simp
  have act: "active_clients ?q0 = [0..<length infos]" and cl: "\<And>j. j < length infos \<Longrightarrow> clients ?q0 j = node_client (infos ! j)"
    by (simp_all add: with_nodes_def empty_proxy_def Let_def)
  have ps: "?q1\<lparr>channel_send := make_chan 1000\<rparr> = ?q0" by (simp add: with_nodes_def empty_proxy_def Let_def)
  have "loop_main_round L waiting dial' now' PickSend ?q1 = do_send L waiting ?q0 ?rec"
    using ps by (simp add: loop_main_round_def chan_recv_def make_chan_def)
  also have "\<dots> = do_send_by_hash L waiting ?q0 h r" by (simp add: do_send_def kCall_def kBroadcast_def)
  also have "\<dots> = Ret (set_client ?q0 ?k ((node_client (infos ! ?k))\<lparr>tChan := Some ((make_chan kMaxSendChannelSize)\<lparr>buf := [r]\<rparr>)\<rparr>))"
    using do_send_by_hash_node [of ?q0 ?k h L waiting r] act k cl [OF k] found(2,3)
    by (simp add: Send_def node_client_def chan_send_def make_chan_def kMaxSendChannelSize_def)
  finally have round: "loop_main_round L waiting dial' now' PickSend ?q1 = \<dots>" .
  show ?thesis
    by (intro exI conjI, rule new, rule call, rule round)
      (use act cl in \<open>simp_all add: set_client_def node_client_def make_chan_def\<close>)
qed

theorem call_reaches_node_witness:
  "\<exists>n' p p1 p2. NewObjectProxy demo_lru 10 5 5 3 (\<lambda>_. Inr [convert_service_info_to_str (demo_infos ! 0)]) (\<lambda>_. None) NewNaming ''pusher'' = Ret (n', p) \<and>
     CallBegin demo_lru 0 p 7 (req demo_call) = Ret p1 \<and> loop_main_round demo_lru (\<lambda>_. True) (\<lambda>_ _. None) 0 PickSend p1 = Ret p2 \<and>
     tHost (clients p2 0) = ''10.0.0.1'' \<and> tChan (clients p2 0) = Some \<lparr>buf = [req demo_call], cap = 1000, closed = False\<rparr>"
proof -
  have s: "slash_free (demo_infos ! 0)" "plain (demo_infos ! 0)" using demo_infos_ok by (simp_all add: demo_infos_def plain_def)
  then have f: "Find (\<lambda>_. Inr [convert_service_info_to_str (demo_infos ! 0)]) ''pusher'' = Some (Inr [demo_infos ! 0])"
    using convert_all_keys [of "[demo_infos ! 0]"] by (simp add: Find_def)
  have l: "\<forall>k v. snd (lruAdd (demo_lru :: ((string \<times> nat CallRecord) list, string, nat CallRecord) lru_ops) (lruNew demo_lru 10) k v) = None"
    by (simp add: demo_lru_def)
  show ?thesis
    using call_reaches_node [OF f _ _ _ _ _ l, of "\<lambda>_. None" NewNaming 5 5 3 0 7 "req demo_call" "\<lambda>_. True" "\<lambda>_ _. None" 0]
    by (fastforce simp: NewNaming_def demo_infos_def kMaxSendChannelSize_def)
qed

end
