(* ===== verification/Presence.thy ===== *)
theory Presence
  imports Gateway Wire
begin

text \<open>
  The gateway and the online server together: what the gateway casts when clients log in, carried over a
  connection by the packet handle of the services, and handled by the online server at the other end.
\<close>

section \<open>The gateway's side\<close>

text \<open>Messages of clients one after the other, each on its channel and with what the call reads outside.\<close>

fun gw_run ::
  "GatewayHandle \<Rightarrow> ('j gw_env \<times> string \<times> 'j MGatewayPacket) list \<Rightarrow> GWUserConnMgr \<Rightarrow>
   (GWUserConnMgr \<times> 'j gw_effect list) outcome" where
  "gw_run p [] m = Ret (m, [])"
| "gw_run p ((env, ch, req) # es) m =
     obind (gw_OnMessage env p ch req m) (\<lambda>(m, effs, _).
       obind (gw_run p es m) (\<lambda>(m, effs'). Ret (m, effs @ effs')))"

fun casts :: "'j gw_effect list \<Rightarrow> ol_req MServicePacket list" where
  "casts [] = []"
| "casts (Casts hash r # effs) = r # casts effs"
| "casts (_ # effs) = casts effs"

lemma casts_append [simp]: "casts (xs @ ys) = casts xs @ casts ys"
  by (induction xs rule: casts.induct) simp_all

definition gw_node :: "string \<Rightarrow> GatewayHandle \<Rightarrow> string \<Rightarrow> UserNode" where
  "gw_node service_id p uid = \<lparr>nUid = uid, nServiceId = service_id, nHost = gwHost p, nPort = gwPort p\<rparr>"

definition login_request :: "GatewayHandle \<Rightarrow> 'j gw_env \<times> string \<Rightarrow> ol_req MServicePacket" where
  "login_request p = (\<lambda>(env, uid).
     CreateReqPacket (gwUuid env 0) SERVICE_NAME MS_ONLINE_LOGIN MS_CAST (OLLoginReq (gw_node (gwServiceId env) p uid)))"

lemma casts_login [simp]: "casts [login_cast env p uid] = [login_request p (env, uid)]"
  by (simp add: login_cast_def Cast_def login_request_def gw_node_def)

text \<open>The logins of a run: what they cast and whom they add.\<close>

definition is_login :: "string \<Rightarrow> 'j gw_env \<times> string \<times> 'j MGatewayPacket \<Rightarrow> bool" where
  "is_login service_id = (\<lambda>(env, ch, req). gwCmd (gwHeader req) = GW_LOGIN \<and> draws_ok (gwDraws env) \<and> gwServiceId env = service_id)"

definition login_of :: "'j gw_env \<times> string \<times> 'j MGatewayPacket \<Rightarrow> 'j gw_env \<times> string" where
  "login_of = (\<lambda>(env, ch, req). (env, gwUid (gwHeader req)))"

lemma gw_login_step:
  assumes m: "mgr_ok m \<sigma>" and e: "is_login sid (env, ch, req)"
  obtains m' effs xs \<sigma>' where "gw_OnMessage env p ch req m = Ret (m', effs, None)" "mgr_ok m' \<sigma>'" "max_conn_size m' = max_conn_size m"
    "casts effs = map (login_request p) xs" "xs = [] \<and> m' = m \<or> xs = [login_of (env, ch, req)] \<and>
      gwUid (gwHeader req) \<notin> dom (user_conns m) \<and> dom (user_conns m') = Set.insert (gwUid (gwHeader req)) (dom (user_conns m)) \<and>
      int (card (dom (user_conns m))) < max_conn_size m"
proof -
  let ?uid = "gwUid (gwHeader req)"
  have d: "draws_ok (gwDraws env)" "gwCmd (gwHeader req) = GW_LOGIN" using e by (simp_all add: is_login_def)
  obtain m' err \<sigma>' where l: "gw_do_login env p ch req m = Ret (m', if err = None then [login_cast env p ?uid] else [],
      Some (gw_CreateRespPacket ?uid (gwCmd (gwHeader req)) (GWLoginResp (err_text err))), None)"
    and a: "AddUserConn m ?uid ch (gwNow env) (gwDraws env) = Ret (m', err)" and m': "mgr_ok m' \<sigma>'"
    using gw_do_login_ok [OF m d(1), of p ch req] by blast
  let ?effs = "(if err = None then [login_cast env p ?uid] else []) @
    [Pushes ch (Some (gw_CreateRespPacket ?uid (gwCmd (gwHeader req)) (GWLoginResp (err_text err))))]"
  have o: "gw_OnMessage env p ch req m = Ret (m', ?effs, None)" using l d(2) by (simp add: gw_OnMessage_def Let_def)
  have c: "casts ?effs = map (login_request p) (if err = None then [login_of (env, ch, req)] else [])"
    by (simp add: login_of_def)
  note add = AddUserConn_ok(1) [OF m d(1), of ?uid ch "gwNow env"]
  show ?thesis
  proof (cases err)
    case None
    then have "?uid \<notin> dom (user_conns m)" "dom (user_conns m') = Set.insert ?uid (dom (user_conns m))"
      "int (card (dom (user_conns m))) < max_conn_size m" "max_conn_size m' = max_conn_size m"
      using a add by (auto split: if_splits)
    then show ?thesis using that [OF o m', of "[login_of (env, ch, req)]"] c None by simp
  next
    case (Some x)
    then have "m' = m" using a add by (auto split: if_splits)
    then show ?thesis using that [OF o m', of "[]"] c Some by simp
  qed
qed

lemma gw_run_logins:
  assumes "mgr_ok m \<sigma>" "list_all (is_login sid) es" "int (card (dom (user_conns m))) \<le> max_conn_size m"
  shows "\<exists>m' effs xs. gw_run p es m = Ret (m', effs) \<and> casts effs = map (login_request p) xs \<and> set xs \<subseteq> login_of ` set es \<and>
    distinct (map snd xs) \<and> set (map snd xs) \<inter> dom (user_conns m) = {} \<and>
    dom (user_conns m') = dom (user_conns m) \<union> set (map snd xs) \<and>
    int (card (dom (user_conns m)) + length xs) \<le> max_conn_size m"
  using assms
proof (induction es arbitrary: m \<sigma>)
  case Nil
  then show ?case by (intro exI [of _ m] exI [of _ "[]"]) simp
next
  case (Cons e es)
  obtain env ch req where e: "e = (env, ch, req)" by (cases e) auto
  have l: "is_login sid (env, ch, req)" "list_all (is_login sid) es" using Cons.prems(2) by (simp_all add: e)
  obtain m1 effs1 xs1 \<sigma>1 where s: "gw_OnMessage env p ch req m = Ret (m1, effs1, None)" "mgr_ok m1 \<sigma>1"
    "max_conn_size m1 = max_conn_size m" "casts effs1 = map (login_request p) xs1"
    and x': "xs1 = [] \<and> m1 = m \<or> xs1 = [login_of (env, ch, req)] \<and>
      gwUid (gwHeader req) \<notin> dom (user_conns m) \<and> dom (user_conns m1) = Set.insert (gwUid (gwHeader req)) (dom (user_conns m)) \<and>
      int (card (dom (user_conns m))) < max_conn_size m"
    by (rule gw_login_step [OF Cons.prems(1) l(1)])
  from x' have x: "xs1 = [] \<and> m1 = m \<or> xs1 = [login_of e] \<and> snd (login_of e) \<notin> dom (user_conns m) \<and>
      dom (user_conns m1) = Set.insert (snd (login_of e)) (dom (user_conns m)) \<and> int (card (dom (user_conns m))) < max_conn_size m"
    by (simp add: e login_of_def)
  have c: "card (dom (user_conns m1)) = card (dom (user_conns m)) + length xs1"
    using x mgr_ok_finite [OF Cons.prems(1)] by (elim disjE conjE) (simp_all del: not_None_eq add: card_insert_disjoint)
  then have "int (card (dom (user_conns m1))) \<le> max_conn_size m1" using x s(3) Cons.prems(3) by auto
  then obtain m' effs xs where r: "gw_run p es m1 = Ret (m', effs)" "casts effs = map (login_request p) xs" "set xs \<subseteq> login_of ` set es"
    "distinct (map snd xs)" "set (map snd xs) \<inter> dom (user_conns m1) = {}" "dom (user_conns m') = dom (user_conns m1) \<union> set (map snd xs)"
    "int (card (dom (user_conns m1)) + length xs) \<le> max_conn_size m1"
    using Cons.IH [OF s(2) l(2)] by auto
  have run: "gw_run p (e # es) m = Ret (m', effs1 @ effs)" using s(1) r(1) by (simp add: e)
  have d: "distinct (map snd xs1)" "set xs1 \<subseteq> login_of ` set (e # es)" "set (map snd xs1) \<inter> dom (user_conns m) = {}"
    "dom (user_conns m1) = dom (user_conns m) \<union> set (map snd xs1)"
    using x by (elim disjE conjE; simp del: not_None_eq domIff)+
  show ?case
  proof (intro exI conjI)
    show "gw_run p (e # es) m = Ret (m', effs1 @ effs)" by (rule run)
    show "casts (effs1 @ effs) = map (login_request p) (xs1 @ xs)" using s(4) r(2) by simp
    show "set (xs1 @ xs) \<subseteq> login_of ` set (e # es)" using r(3) d(2) by auto
    show "distinct (map snd (xs1 @ xs))" using d(1) r(4,5) unfolding d(4) by auto
    show "set (map snd (xs1 @ xs)) \<inter> dom (user_conns m) = {}" using d(3) r(5) unfolding d(4) by auto
    show "dom (user_conns m') = dom (user_conns m) \<union> set (map snd (xs1 @ xs))" using r(6) unfolding d(4) by auto
    show "int (card (dom (user_conns m)) + length (xs1 @ xs)) \<le> max_conn_size m" using r(7) c s(3) by simp
  qed
qed

section \<open>The online server's side\<close>

text \<open>A body on its way: as the gateway made it, or as the online server decoded it from JSON.\<close>

datatype 'j wire_body = Sent ol_req | Decoded 'j

definition on_wire :: "ol_req MServicePacket \<Rightarrow> 'j wire_body MServicePacket" where
  "on_wire r = \<lparr>Header = Header r, Body = Sent (Body r)\<rparr>"

text \<open>A request that arrives as it was sent: JSON keeps the header, and the decoder finds the node.\<close>

definition carried ::
  "('j wire_body MServicePacket \<Rightarrow> string + byte list) \<Rightarrow> (byte list \<Rightarrow> string + 'j wire_body MServicePacket) \<Rightarrow>
   'j wire_body decoders \<Rightarrow> ol_req MServicePacket \<Rightarrow> bool" where
  "carried marshal unmarshal dec r \<longleftrightarrow> encodes marshal unmarshal (on_wire r) \<and>
     (let r' = received marshal unmarshal (on_wire r)
      in Header r' = Header r \<and> (\<forall>node. Body r = OLLoginReq node \<longrightarrow> decLoginReq dec (Body r') = Inr node))"

text \<open>\<open>OnMessage\<close> as a channel calls it: the \<open>k\<close>-th message reads the clock \<open>env k\<close>.\<close>

definition online_handler ::
  "'b decoders \<Rightarrow> (nat \<Rightarrow> online_env) \<Rightarrow> 'b MServicePacket \<Rightarrow> OnlineHandle \<times> nat \<Rightarrow> ((OnlineHandle \<times> nat) \<times> string option) outcome" where
  "online_handler dec env req = (\<lambda>(p, k). obind (online_OnMessage dec (env k) p req) (\<lambda>(p, _, err). Ret ((p, Suc k), err)))"

lemma online_login_step:
  assumes p: "online_ok p \<sigma>" and d: "draws_ok (draws (env k))" and c: "carried marshal unmarshal dec (login_request g (e, uid))"
    and u: "uid \<notin> dom (nodes p)" and room: "int (card (dom (nodes p))) < max_size (user_cache p)"
  shows "\<exists>p' t \<sigma>'. online_handler dec env (received marshal unmarshal (on_wire (login_request g (e, uid)))) (p, k) = Ret ((p', Suc k), None) \<and>
    online_ok p' \<sigma>' \<and> max_size (user_cache p') = max_size (user_cache p) \<and>
    nodes p' = (nodes p)(uid \<mapsto> \<lparr>infoNode = gw_node (gwServiceId e) g uid, infoExpireTs = t\<rparr>)"
proof -
  let ?r = "login_request g (e, uid)" and ?n = "gw_node (gwServiceId e) g uid"
  let ?r' = "received marshal unmarshal (on_wire ?r)"
  have r: "Method (Header ?r') = MS_ONLINE_LOGIN" "decLoginReq dec (Body ?r') = Inr ?n"
    using c by (simp_all add: carried_def Let_def login_request_def CreateReqPacket_def)
  obtain p' where p': "do_login dec (env k) p ?r' = Ret (p', Some (online_resp MS_ONLINE_LOGIN ?r' (OLLoginResp '''')), None)"
    "nodes p' = (nodes p)(uid \<mapsto> \<lparr>infoNode = ?n, infoExpireTs = i64 (now (env k) 1 + CacheExpireSec (env k))\<rparr>)"
    using do_login_new [OF p r(2) d] u room by (auto simp: gw_node_def)
  then have o: "online_OnMessage dec (env k) p ?r' = Ret (p', Some (online_resp MS_ONLINE_LOGIN ?r' (OLLoginResp '''')), None)"
    using r(1) by (simp add: online_OnMessage_def)
  then obtain \<sigma>' where "online_ok p' \<sigma>'" "max_size (user_cache p') = max_size (user_cache p)"
    using online_OnMessage_keeps(2) [OF p d] by blast
  then show ?thesis using o p'(2) by (auto simp: online_handler_def)
qed

lemma online_logins:
  assumes "online_ok p \<sigma>" "\<forall>k. draws_ok (draws (env k))" "list_all (\<lambda>x. carried marshal unmarshal dec (login_request g x)) xs"
    and "distinct (map snd xs)" "set (map snd xs) \<inter> dom (nodes p) = {}"
    and "int (card (dom (nodes p)) + length xs) \<le> max_size (user_cache p)"
  shows "\<exists>p'. handle_all (online_handler dec env) (map (\<lambda>x. received marshal unmarshal (on_wire (login_request g x))) xs) (p, k) e =
      Ret ((p', k + length xs), e) \<and> dom (nodes p') = dom (nodes p) \<union> set (map snd xs) \<and>
    (\<forall>uid. uid \<notin> set (map snd xs) \<longrightarrow> nodes p' uid = nodes p uid) \<and>
    (\<forall>(env, uid)\<in>set xs. \<exists>t. nodes p' uid = Some \<lparr>infoNode = gw_node (gwServiceId env) g uid, infoExpireTs = t\<rparr>)"
  using assms
proof (induction xs arbitrary: p \<sigma> k)
  case Nil
  then show ?case by (intro exI [of _ p]) simp
next
  case (Cons x xs)
  obtain gwenv uid where x: "x = (gwenv, uid)" by (cases x)
  have new: "uid \<notin> dom (nodes p)" "uid \<notin> set (map snd xs)" "finite (dom (nodes p))"
    using Cons.prems x online_ok_finite by auto
  obtain p1 t \<sigma>1 where s: "online_handler dec env (received marshal unmarshal (on_wire (login_request g x))) (p, k) = Ret ((p1, Suc k), None)"
    "online_ok p1 \<sigma>1" "max_size (user_cache p1) = max_size (user_cache p)"
    "nodes p1 = (nodes p)(uid \<mapsto> \<lparr>infoNode = gw_node (gwServiceId gwenv) g uid, infoExpireTs = t\<rparr>)"
    using online_login_step [OF Cons.prems(1) _ _ new(1), of env k marshal unmarshal dec g gwenv] Cons.prems(2,3,6) x by auto
  have d1: "dom (nodes p1) = Set.insert uid (dom (nodes p))" using s(4) by auto
  then have "card (dom (nodes p1)) = Suc (card (dom (nodes p)))" using new(1,3) by simp
  then have "set (map snd xs) \<inter> dom (nodes p1) = {}" "int (card (dom (nodes p1)) + length xs) \<le> max_size (user_cache p1)"
    using Cons.prems(5,6) s(3) new(2) d1 x by auto
  then obtain p' where r: "handle_all (online_handler dec env) (map (\<lambda>x. received marshal unmarshal (on_wire (login_request g x))) xs) (p1, Suc k) e =
      Ret ((p', Suc k + length xs), e)" "dom (nodes p') = dom (nodes p1) \<union> set (map snd xs)"
    "\<forall>uid. uid \<notin> set (map snd xs) \<longrightarrow> nodes p' uid = nodes p1 uid"
    "\<forall>(env, uid)\<in>set xs. \<exists>t. nodes p' uid = Some \<lparr>infoNode = gw_node (gwServiceId env) g uid, infoExpireTs = t\<rparr>"
    using Cons.IH [OF s(2) Cons.prems(2), of "Suc k"] Cons.prems(3,4) by auto
  have "nodes p' uid = Some \<lparr>infoNode = gw_node (gwServiceId gwenv) g uid, infoExpireTs = t\<rparr>" using r(3) new(2) s(4) by simp
  then show ?case using r s(1,4) d1 by (intro exI [of _ p']) (simp add: x)
qed

section \<open>Properties\<close>


definition demo_handle :: GatewayHandle where
  "demo_handle = \<lparr>gwHost = ''10.0.0.1'', gwPort = 9000\<rparr>"

definition demo_login :: "(unit gw_env \<times> string \<times> unit MGatewayPacket) list" where
  "demo_login = [(Gateway.demo_env, ''ch1'', demo_packet GW_LOGIN (JsonValue ()))]"

definition demo_request :: "ol_req MServicePacket" where
  "demo_request = login_request demo_handle (Gateway.demo_env, ''u1'')"

definition demo_to_json :: "UserNode wire_body MServicePacket \<Rightarrow> string + byte list" where
  "demo_to_json r = Inr [123, 125]"

definition demo_from_json :: "byte list \<Rightarrow> string + UserNode wire_body MServicePacket" where
  "demo_from_json bytes = Inr \<lparr>Header = Header demo_request, Body = Decoded (gw_node ''gateway_1'' demo_handle ''u1'')\<rparr>"

definition demo_decoders :: "UserNode wire_body decoders" where
  "demo_decoders = \<lparr>decLoginReq = (\<lambda>b. case b of Decoded u \<Rightarrow> Inr u | Sent r \<Rightarrow> Inl ''''), decLogoutReq = (\<lambda>_. Inl ''''),
     decHeartbeatReq = (\<lambda>_. Inl ''''), decGetUserNodeReq = (\<lambda>_. Inl ''''), decGetUserNodeBatchReq = (\<lambda>_. Inl '''')\<rparr>"

definition demo_link :: conn where
  "demo_link = \<lparr>inseg = [[0, 0], [0, 2, 123], [125]], inerr = ''EOF'', out = [], wplan = []\<rparr>"

lemma demo_login_runs:
  "\<exists>m effs. gw_run demo_handle demo_login (GetUserConnsInstance 1 20) = Ret (m, effs) \<and> casts effs = [demo_request] \<and>
     ''u1'' \<in> dom (user_conns m)"
proof -
  let ?m = "GetUserConnsInstance 1 20" and ?req = "demo_packet GW_LOGIN (JsonValue ())"
  note g = gw_demo_draws
  have m: "mgr_ok ?m Map.empty" by (rule mgr_ok_init [of 1 20, folded GetUserConnsInstance_def])
  obtain m1 err \<sigma> where l: "gw_do_login Gateway.demo_env demo_handle ''ch1'' ?req ?m =
      Ret (m1, if err = None then [login_cast Gateway.demo_env demo_handle (gwUid (gwHeader ?req))] else [],
        Some (gw_CreateRespPacket (gwUid (gwHeader ?req)) (gwCmd (gwHeader ?req)) (GWLoginResp (err_text err))), None)"
    "AddUserConn ?m (gwUid (gwHeader ?req)) ''ch1'' (gwNow Gateway.demo_env) (gwDraws Gateway.demo_env) = Ret (m1, err)"
    using gw_do_login_ok [OF m g, of demo_handle "''ch1''" ?req] by blast
  have "err = None" "''u1'' \<in> dom (user_conns m1)"
    using l(2) AddUserConn_ok(1) [OF m g, of "gwUid (gwHeader ?req)" "''ch1''" "gwNow Gateway.demo_env"]
    by (auto simp: GetUserConnsInstance_def demo_packet_def)
  then show ?thesis using l(1)
    by (simp add: demo_login_def gw_OnMessage_def demo_packet_def demo_request_def login_request_def login_cast_def Cast_def
        gw_node_def Let_def)
qed


end
