(* ===== verification/ProxyLife.thy ===== *)
theory ProxyLife
  imports ObjProxySpec
begin

text \<open>
  The life of a proxy, over \<open>ObjProxy\<close>: its callers, the goroutine of \<open>loop_main\<close>, the watch of the naming
  client and the send loops of the connections, as steps on one state. Receiving is not among
  them: no code starts \<^verbatim>\<open>do_recv_loop\<close>, the only caller of \<open>on_client_recv\<close>. A method that takes the mutex
  is one step, as is a round of a loop; one that waits for ever makes none. Nothing in the repository calls
  \<open>Close\<close>.
\<close>

section \<open>Steps\<close>

text \<open>A step has the trace id of the request it queued, if any, and its outcome.\<close>

inductive proxy_step ::
  "('c, 'b) pending_ops \<Rightarrow> ('c, 'b) ObjectProxy \<Rightarrow> string option \<Rightarrow> ('c, 'b) ObjectProxy outcome \<Rightarrow> bool" for L where
  step_call: "CallBegin L now p h r = res \<Longrightarrow> res \<noteq> Blocked \<Longrightarrow> proxy_step L p (Some (TraceId (Header r))) res"
| step_async: "CallAsync L now p h r = res \<Longrightarrow> res \<noteq> Blocked \<Longrightarrow> proxy_step L p (Some (TraceId (Header r))) res"
| step_cast: "proxy_Cast L now p h r = res \<Longrightarrow> res \<noteq> Blocked \<Longrightarrow> proxy_step L p (Some (TraceId (Header r))) res"
| step_broadcast: "Broadcast L now p r = res \<Longrightarrow> res \<noteq> Blocked \<Longrightarrow> proxy_step L p (Some (TraceId (Header r))) res"
| step_main: "loop_main_round L waiting dial now pick p = res \<Longrightarrow> res \<noteq> Blocked \<Longrightarrow> proxy_step L p None res"
| step_notify: "notify_service_change p changes = res \<Longrightarrow> res \<noteq> Blocked \<Longrightarrow> proxy_step L p None res"
| step_send_loop: "tChan (clients p k) = Some ch \<Longrightarrow> do_send_loop SendPacket ch [PickChan] = (ch', sent) \<Longrightarrow>
    proxy_step L p None (Ret (set_client p k ((clients p k)\<lparr>tChan := Some ch'\<rparr>)))"

text \<open>\<open>ids\<close> are the trace ids of the requests that were queued, in order.\<close>

inductive proxy_run :: "('c, 'b) pending_ops \<Rightarrow> ('c, 'b) ObjectProxy \<Rightarrow> string list \<Rightarrow> ('c, 'b) ObjectProxy \<Rightarrow> bool" for L p0 where
  proxy_start: "proxy_run L p0 [] p0"
| proxy_more: "proxy_run L p0 ids p \<Longrightarrow> proxy_step L p t (Ret p') \<Longrightarrow>
    proxy_run L p0 (ids @ (case t of None \<Rightarrow> [] | Some i \<Rightarrow> [i])) p'"

inductive_cases proxy_stepE: "proxy_step L p t res"

section \<open>Well-typed states\<close>

text \<open>
  No list points to a client that was never created, an active client has a send queue, the queues of
  the proxy are open and within their capacity, and the only events of clients are closings.
\<close>

definition queue_ok :: "'a gochan \<Rightarrow> bool" where
  "queue_ok c \<longleftrightarrow> \<not> closed c \<and> length (buf c) \<le> cap c"

definition event_ok :: "EventInfo \<Rightarrow> bool" where
  "event_ok e = (case e of EvServiceChange _ \<Rightarrow> True | EvClientChange c \<Rightarrow> ecEvent c = kClientClose)"

definition proxy_typed :: "('c, 'b) ObjectProxy \<Rightarrow> bool" where
  "proxy_typed p \<longleftrightarrow>
     (\<forall>k \<in> set (active_clients p) \<union> set (inactive_clients p). k < client_count p) \<and>
     (\<forall>k \<in> set (active_clients p). tChan (clients p k) \<noteq> None) \<and>
     (\<forall>k. tState (clients p k) = StateConnected \<longrightarrow> tChan (clients p k) \<noteq> None) \<and>
     queue_ok (channel_event p) \<and> queue_ok (channel_send p) \<and> list_all event_ok (buf (channel_event p))"

text \<open>
  \<open>quiet p m\<close>: from \<open>p\<close>, the computation \<open>m\<close> does not panic and ends, if it does, in a well-typed state
  with the pending calls, the mutex and the answers of \<open>p\<close>.
\<close>

definition same_calls :: "('c, 'b) ObjectProxy \<Rightarrow> ('c, 'b) ObjectProxy \<Rightarrow> bool" where
  "same_calls p p' \<longleftrightarrow> lru_reqs p' = lru_reqs p \<and> plock p' = plock p \<and> answered p' = answered p"

definition quiet :: "('c, 'b) ObjectProxy \<Rightarrow> ('a \<Rightarrow> ('c, 'b) ObjectProxy) \<Rightarrow> 'a outcome \<Rightarrow> bool" where
  "quiet p f m = (case m of Ret x \<Rightarrow> proxy_typed (f x) \<and> same_calls p (f x) | Blocked \<Rightarrow> True | Crash \<Rightarrow> False)"

abbreviation quiet_op :: "('c, 'b) ObjectProxy \<Rightarrow> ('c, 'b) ObjectProxy outcome \<Rightarrow> bool" where
  "quiet_op p \<equiv> quiet p (\<lambda>p. p)"

named_theorems typed

lemma same_calls_refl [simp]: "same_calls p p"
  by (simp add: same_calls_def)

lemma quiet_Ret [simp]: "quiet p f (Ret x) \<longleftrightarrow> proxy_typed (f x) \<and> same_calls p (f x)" "quiet p f Blocked"
  by (simp_all add: quiet_def)

lemma quiet_bind:
  assumes "quiet p f m" "\<And>x. m = Ret x \<Longrightarrow> proxy_typed (f x) \<Longrightarrow> same_calls p (f x) \<Longrightarrow> quiet (f x) g (h x)"
  shows "quiet p g (obind m h)"
  using assms by (cases m) (auto simp: quiet_def same_calls_def split: outcome.splits)

lemma quiet_mono: "quiet p f m \<Longrightarrow> same_calls q p \<Longrightarrow> quiet q f m"
  by (auto simp: quiet_def same_calls_def split: outcome.splits)

section \<open>The operations of the main loop are quiet\<close>

lemma set_client_typed:
  assumes "proxy_typed p" "tChan (clients p k) \<noteq> None \<or> tState c = StateConnected \<Longrightarrow> tChan c \<noteq> None"
  shows "proxy_typed (set_client p k c) \<and> same_calls p (set_client p k c)"
  using assms by (auto simp: proxy_typed_def set_client_def same_calls_def)

lemma Connect_shape:
  "case Connect e c of
     Ret (c', err) \<Rightarrow> (tChan c \<noteq> None \<or> c' \<noteq> c \<longrightarrow> tChan c' \<noteq> None) \<and> (err = None \<longrightarrow> tState c' = StateConnected)
   | Blocked \<Rightarrow> True
   | Crash \<Rightarrow> False"
proof (cases "tLock c")
  case False
  then have l: "c\<lparr>tLock := False\<rparr> = c" by (cases c) simp
  then show ?thesis using False by (cases e) (simp_all add: Connect_def client_critical_def client_mutex.runs)
qed (simp add: Connect_def client_critical_def client_mutex.blocks)

lemma client_Close_shape:
  "case client_Close c of
     Ret (c', cb) \<Rightarrow> (tChan c' = None \<longleftrightarrow> tChan c = None) \<and> tState c' = StateClose
   | Blocked \<Rightarrow> True
   | Crash \<Rightarrow> False"
  by (cases "tLock c"; cases "tChan c")
    (simp_all add: client_Close_def client_close_def Let_def chan_close_def)

lemma send_event_quiet:
  "proxy_typed p \<Longrightarrow> event_ok e \<Longrightarrow>
    quiet_op p (obind (chan_send (Some (channel_event p)) e) (\<lambda>ch. Ret (p\<lparr>channel_event := ch\<rparr>)))"
  by (auto simp: chan_send_def proxy_typed_def queue_ok_def same_calls_def)

lemma on_client_close_quiet: "proxy_typed p \<Longrightarrow> quiet_op p (on_client_close p k)"
  unfolding on_client_close_def Let_def by (rule send_event_quiet) (simp_all add: event_ok_def)

lemma notify_quiet: "proxy_typed p \<Longrightarrow> quiet_op p (notify_service_change p changes)"
  unfolding notify_service_change_def by (rule send_event_quiet) (simp_all add: event_ok_def)

lemma proxy_close_client_quiet:
  assumes "proxy_typed p"
  shows "quiet_op p (proxy_close_client p k)"
proof (cases "client_Close (clients p k)")
  case (Ret r)
  then obtain c cb where c: "client_Close (clients p k) = Ret (c, cb)" "tChan c = None \<longleftrightarrow> tChan (clients p k) = None"
    "tState c = StateClose" using client_Close_shape [of "clients p k"] by (cases r) simp
  have t: "proxy_typed (set_client p k c) \<and> same_calls p (set_client p k c)"
    by (rule set_client_typed [OF assms]) (use c in \<open>auto simp: StateClose_def StateConnected_def\<close>)
  then have "quiet_op p (on_client_close (set_client p k c) k)"
    using on_client_close_quiet quiet_mono by blast
  then show ?thesis using c(1) t by (simp add: proxy_close_client_def Let_def)
qed (use client_Close_shape [of "clients p k"] in \<open>simp_all add: proxy_close_client_def\<close>)

text \<open>The lists may be cut, and extended by created clients.\<close>

lemma lists_typed:
  assumes "proxy_typed p" "set as \<subseteq> set (active_clients p) \<union> {k. k < client_count p \<and> tChan (clients p k) \<noteq> None}"
    "set is \<subseteq> set (active_clients p) \<union> set (inactive_clients p)"
  shows "proxy_typed (p\<lparr>active_clients := as, inactive_clients := is\<rparr>)"
  using assms by (auto simp: proxy_typed_def)

lemma set_remove_at_subset: "set (remove_at i xs) \<subseteq> set xs"
  by (auto simp: remove_at_def dest: in_set_takeD in_set_dropD)

lemma do_client_remove_quiet:
  assumes "proxy_typed p"
  shows "quiet_op p (do_client_remove p host port service_id)"
proof -
  have r: "proxy_typed (q\<lparr>active_clients := remove_at i (active_clients q)\<rparr>)"
    "proxy_typed (q\<lparr>inactive_clients := remove_at i (inactive_clients q)\<rparr>)" if "proxy_typed q" for q :: "('c, 'd) ObjectProxy" and i
    using lists_typed [OF that, of "remove_at i (active_clients q)" "inactive_clients q"]
      lists_typed [OF that, of "active_clients q" "remove_at i (inactive_clients q)"] set_remove_at_subset
    by (auto simp: subset_iff) fast+
  show ?thesis unfolding do_client_remove_def
    by (auto split: option.split intro!: quiet_bind [OF proxy_close_client_quiet [OF assms]] r assms)
      (simp_all add: same_calls_def)
qed

lemma add_inactive_quiet:
  assumes "proxy_typed p"
  shows "proxy_typed (add_inactive p s) \<and> same_calls p (add_inactive p s)"
  using assms
  by (auto simp: add_inactive_def new_client_def set_client_def NewTcpClient_def StateClose_def StateConnected_def Let_def
      proxy_typed_def same_calls_def less_Suc_eq)

lemma do_event_service_change_quiet: "proxy_typed p \<Longrightarrow> quiet_op p (do_event_service_change p xs)"
proof (induction xs arbitrary: p)
  case (Cons x xs)
  let ?s = "ChService x"
  let ?remove = "do_client_remove p (Host ?s) (Port ?s) (ServiceId ?s)"
  have rm: "quiet_op p ?remove" by (rule do_client_remove_quiet [OF Cons.prems])
  have "quiet_op p (obind ?remove (\<lambda>p. Ret (add_inactive p ?s)))"
    by (rule quiet_bind [OF rm]) (simp add: add_inactive_quiet)
  then have "quiet_op p (if ChOp x = ServicePut
      then case find_client p (Host ?s) (Port ?s) (ServiceId ?s) of
             None \<Rightarrow> Ret (add_inactive p ?s)
           | Some k \<Rightarrow> if cdServiceId (tParam (clients p k)) \<noteq> ServiceId ?s then obind ?remove (\<lambda>p. Ret (add_inactive p ?s)) else Ret p
      else ?remove)"
    using rm Cons.prems by (simp add: add_inactive_quiet split: option.split)
  then show ?case unfolding do_event_service_change.simps Let_def by (rule quiet_bind) (rule Cons.IH)
qed simp

lemma find_client_index_less: "find_client_index h ks host port s = Some i \<Longrightarrow> i < length ks"
  by (induction ks arbitrary: i) (auto split: if_splits)

lemma do_event_quiet:
  assumes "proxy_typed p" "event_ok e"
  shows "quiet_op p (do_event p e)"
proof (cases e)
  case (EvClientChange c)
  have "proxy_typed (do_client_close p c) \<and> same_calls p (do_client_close p c)"
  proof (cases "find_client_index (clients p) (active_clients p) (ecHost c) (ecPort c) (ecServiceId c)")
    case (Some i)
    then have "active_clients p ! i \<in> set (active_clients p)" using find_client_index_less by fastforce
    then show ?thesis using assms(1) lists_typed [OF assms(1), of "active_clients p" "inactive_clients p @ [active_clients p ! i]"] Some
      by (auto simp: do_client_close_def same_calls_def)
  qed (use assms(1) in \<open>simp add: do_client_close_def\<close>)
  then show ?thesis using assms(2) EvClientChange
    by (simp add: do_event_def do_event_client_change_def event_ok_def kClientClose_def kClientExit_def)
qed (use assms(1) in \<open>simp add: do_event_def do_event_service_change_quiet\<close>)

lemma connected_chan: "proxy_typed p \<Longrightarrow> tState (clients p k) = StateConnected \<Longrightarrow> tChan (clients p k) \<noteq> None"
  by (simp add: proxy_typed_def)

lemma set_connected_typed:
  assumes "proxy_typed p" "Connect d (clients p k) = Ret (c, err)"
  shows "proxy_typed (set_client p k c) \<and> same_calls p (set_client p k c)"
proof (rule set_client_typed [OF assms(1)])
  assume a: "tChan (clients p k) \<noteq> None \<or> tState c = StateConnected"
  show "tChan c \<noteq> None"
  proof (cases "c = clients p k")
    case True
    then show ?thesis using a assms(1) by (auto simp: proxy_typed_def)
  next
    case False
    then show ?thesis using Connect_shape [of "clients p k" d] assms(2) by simp
  qed
qed

text \<open>What a scan of the rest \<open>ks\<close> of the inactive list, from the index \<open>i\<close> on, leaves.\<close>

definition scanned ::
  "('c, 'b) ObjectProxy \<Rightarrow> nat \<Rightarrow> nat list \<Rightarrow> (('c, 'b) ObjectProxy \<times> nat \<times> nat option) outcome \<Rightarrow> bool" where
  "scanned p i ks m = (case m of
      Ret (p', n, r) \<Rightarrow> proxy_typed p' \<and> same_calls p p' \<and> active_clients p' = active_clients p \<and>
        inactive_clients p' = inactive_clients p \<and> client_count p' = client_count p \<and>
        (\<forall>j. r = Some j \<longrightarrow> i \<le> j \<and> j < i + length ks \<and> tChan (clients p' (ks ! (j - i))) \<noteq> None)
    | Blocked \<Rightarrow> True
    | Crash \<Rightarrow> False)"

lemma scanned_Cons:
  assumes "scanned q (Suc i) ks m" "same_calls p q" "active_clients q = active_clients p"
    "inactive_clients q = inactive_clients p" "client_count q = client_count p"
  shows "scanned p i (k # ks) m"
proof (cases m)
  case (Ret r)
  have "(k # ks) ! (j - i) = ks ! (j - Suc i)" if "Suc i \<le> j" for j using that by (simp add: nth_Cons')
  then show ?thesis using assms Ret by (cases r) (auto simp: scanned_def same_calls_def)
qed (use assms(1) in \<open>simp_all add: scanned_def\<close>)

lemma retry_scan_quiet: "proxy_typed p \<Longrightarrow> scanned p i ks (retry_scan dial now n i ks p)"
proof (induction ks arbitrary: n i p)
  case (Cons k ks)
  show ?case
  proof (cases "now < retry_connect_ts (tParam (clients p k))")
    case True
    then show ?thesis using scanned_Cons [OF Cons.IH [OF Cons.prems]] by simp
  next
    case False
    show ?thesis
    proof (cases "Connect (dial n (clients p k)) (clients p k)")
      case (Ret r)
      then obtain c err where c: "Connect (dial n (clients p k)) (clients p k) = Ret (c, err)" by (cases r) simp
      note t = set_connected_typed [OF Cons.prems c]
      show ?thesis
      proof (cases err)
        case None
        then have "tState c = StateConnected" using Connect_shape [of "clients p k" "dial n (clients p k)"] c by simp
        then have "tChan c \<noteq> None" using connected_chan [of "set_client p k c" k] t by simp
        then show ?thesis using False c t None by (simp add: scanned_def set_client_def)
      next
        case (Some e)
        have "scanned p i (k # ks) (retry_scan dial now (Suc n) (Suc i) ks (set_client p k c))"
          by (rule scanned_Cons [OF Cons.IH]) (use t in \<open>simp_all add: set_client_def\<close>)
        then show ?thesis using False c Some by simp
      qed
    qed (use False Connect_shape [of "clients p k" "dial n (clients p k)"] in \<open>simp_all add: scanned_def\<close>)
  qed
qed (simp add: scanned_def)

lemma retry_loop_quiet: "proxy_typed p \<Longrightarrow> retry_loop fuel dial now n p = Some m \<Longrightarrow> quiet_op p m"
proof (induction fuel arbitrary: n p)
  case (Suc fuel)
  have sc: "scanned p 0 (inactive_clients p) (retry_scan dial now n 0 (inactive_clients p) p)"
    by (rule retry_scan_quiet [OF Suc.prems(1)])
  show ?case
  proof (cases "retry_scan dial now n 0 (inactive_clients p) p")
    case (Ret r)
    obtain q n' j where r: "r = (q, n', j)" by (cases r)
    have q: "proxy_typed q" "same_calls p q" "active_clients q = active_clients p" "inactive_clients q = inactive_clients p"
      "client_count q = client_count p" using sc Ret r by (simp_all add: scanned_def)
    show ?thesis
    proof (cases j)
      case None
      then show ?thesis using Suc.prems(2) Ret r q by auto
    next
      case (Some i)
      let ?k = "inactive_clients q ! i"
      let ?q = "q\<lparr>active_clients := active_clients q @ [?k], inactive_clients := remove_at i (inactive_clients q)\<rparr>"
      have "?k \<in> set (inactive_clients q)" "tChan (clients q ?k) \<noteq> None" using sc Ret r Some q(4) by (auto simp: scanned_def)
      then have "proxy_typed ?q"
        using lists_typed [OF q(1), of "active_clients q @ [?k]" "remove_at i (inactive_clients q)"] q(1)
          set_remove_at_subset [of i "inactive_clients q"] by (auto simp: proxy_typed_def)
      moreover have "same_calls p ?q" using q(2) by (simp add: same_calls_def)
      ultimately show ?thesis using Suc.IH [of ?q n'] Suc.prems(2) Ret r Some quiet_mono by simp
    qed
  qed (use Suc.prems(2) sc in \<open>simp_all add: scanned_def\<close>)
qed simp

lemma retry_client_connect_quiet:
  assumes "proxy_typed p"
  shows "quiet_op p (retry_client_connect dial now p)"
proof -
  have "proxy_typed (q\<lparr>active_clients := sort_clients (clients q) (active_clients q)\<rparr>)" if "proxy_typed q" for q :: "('c, 'd) ObjectProxy"
    using that by (simp add: proxy_typed_def sort_clients_def)
  then show ?thesis unfolding retry_client_connect_def
    by (intro quiet_bind [where f = "\<lambda>p. p"]) (use retry_loop_quiet [OF assms] in \<open>auto simp: same_calls_def simp del: retry_loop.simps split: option.split\<close>)
qed

section \<open>Sending\<close>

lemma Send_shape:
  "case Send c x of Ret (c', err) \<Rightarrow> (tChan c' = None \<longleftrightarrow> tChan c = None) \<and> tState c' = tState c | Blocked \<Rightarrow> True | Crash \<Rightarrow> False"
  by (auto simp: Send_Ret split: option.split)

lemma set_sent_typed:
  assumes "proxy_typed p" "Send (clients p k) x = Ret (c, err)"
  shows "proxy_typed (set_client p k c) \<and> same_calls p (set_client p k c)"
  by (rule set_client_typed [OF assms(1)])
    (use assms Send_shape [of "clients p k" x] in \<open>auto simp: proxy_typed_def\<close>)

lemma broadcast_send_quiet: "proxy_typed p \<Longrightarrow> quiet p fst (broadcast_send p packet ks)"
proof (induction ks arbitrary: p)
  case (Cons k ks)
  show ?case
  proof (cases "Send (clients p k) packet")
    case (Ret r)
    then obtain c err where c: "Send (clients p k) packet = Ret (c, err)" by (cases r) simp
    note t = set_sent_typed [OF Cons.prems c]
    have "quiet p fst (broadcast_send (set_client p k c) packet ks)"
      using quiet_mono [OF Cons.IH] t by blast
    then show ?thesis using c by (auto intro!: quiet_bind [where f = fst] simp: split_beta)
  qed (use Send_shape [of "clients p k" packet] in simp_all)
qed simp

text \<open>With a node, a send by hash goes to a client or, when 32 bits do not hold the number of clients, may panic.\<close>

lemma do_send_by_hash_cases:
  assumes "active_clients p \<noteq> []"
  shows "do_send_by_hash L waiting p hash packet = Crash \<and> 2 ^ 32 \<le> length (active_clients p) \<or>
    (\<exists>k. do_send_by_hash L waiting p hash packet = obind (Send (clients p k) packet) (\<lambda>(c, err). Ret (set_client p k c)))"
proof (cases "length (active_clients p) < 2 ^ 32")
  case True
  then show ?thesis using do_send_by_hash_node [OF assms True refl] by blast
next
  case False
  let ?n = "of_nat (length (active_clients p)) :: 32 word"
  show ?thesis
  proof (cases "?n = 0 \<or> idx (active_clients p) (unat (hash mod ?n)) = None")
    case True
    then show ?thesis using assms False by (auto simp: do_send_by_hash_def Let_def)
  next
    case ok: False
    then obtain k where k: "idx (active_clients p) (unat (hash mod ?n)) = Some k" "unat (hash mod ?n) < length (active_clients p)"
      by (auto simp: idx_def split: if_splits)
    then have "remove_active_client_by_index (set_client p k c) (unat (hash mod ?n)) = Ret (set_client p k c, False)" for c
      by (simp add: remove_active_noop)
    then have "do_send_by_hash L waiting p hash packet = obind (Send (clients p k) packet) (\<lambda>(c, err). Ret (set_client p k c))"
      using assms ok k by (cases "Send (clients p k) packet") (auto simp: do_send_by_hash_def Let_def)
    then show ?thesis by blast
  qed
qed

lemma send_client_quiet:
  assumes "proxy_typed p"
  shows "quiet_op p (obind (Send (clients p k) packet) (\<lambda>(c, err). Ret (set_client p k c)))"
  using set_sent_typed [OF assms, of k packet] Send_shape [of "clients p k" packet]
  by (cases "Send (clients p k) packet") auto

lemma do_send_by_broadcast_quiet: "proxy_typed p \<Longrightarrow> quiet_op p (do_send_by_broadcast p packet)"
  unfolding do_send_by_broadcast_def by (rule quiet_bind [OF broadcast_send_quiet]) (auto simp: remove_ids_noop)

section \<open>Every step\<close>

text \<open>
  \<open>calmed p m\<close>: \<open>m\<close> does not panic, unless there are too many clients, and ends in a well-typed state; no
  answer was recorded, and unless the mutex was left held the pending calls are those of \<open>p\<close>.
\<close>

definition calmed :: "('c, 'b) ObjectProxy \<Rightarrow> ('c, 'b) ObjectProxy outcome \<Rightarrow> bool" where
  "calmed p m = (case m of
      Ret p' \<Rightarrow> proxy_typed p' \<and> answered p' = answered p \<and> (plock p \<longrightarrow> plock p') \<and> (plock p' \<or> lru_reqs p' = lru_reqs p)
    | Blocked \<Rightarrow> True
    | Crash \<Rightarrow> 2 ^ 32 \<le> length (active_clients p))"

lemma quiet_calmed: "quiet_op p m \<Longrightarrow> calmed p m"
  by (auto simp: quiet_def calmed_def same_calls_def split: outcome.splits)

lemma calmed_mono: "calmed p m \<Longrightarrow> same_calls q p \<Longrightarrow> active_clients q = active_clients p \<Longrightarrow> calmed q m"
  by (auto simp: calmed_def same_calls_def split: outcome.splits)

lemma do_send_calmed:
  assumes "lru_removes L" "proxy_typed p"
  shows "calmed p (do_send L waiting p record)"
proof (cases "active_clients p \<noteq> [] \<or> call_type record = kBroadcast")
  case True
  show ?thesis
  proof (cases "call_type record = kBroadcast")
    case True
    then show ?thesis using quiet_calmed [OF do_send_by_broadcast_quiet [OF assms(2)]] by (simp add: do_send_def)
  next
    case False
    then have "active_clients p \<noteq> []" using True by simp
    from do_send_by_hash_cases [OF this, of L waiting "rhash record" "req record"] show ?thesis
      using False quiet_calmed [OF send_client_quiet [OF assms(2), of _ "req record"]]
      by (auto simp: do_send_def calmed_def)
  qed
next
  case False
  show ?thesis
  proof (cases "plock p")
    case True
    then show ?thesis using False by (simp add: do_send_def do_send_by_hash_def take_pending_locked calmed_def)
  next
    case unheld: False
    then obtain c where c: "do_send L waiting p record = Ret (p\<lparr>plock := True, lru_reqs := c\<rparr>)"
      using do_send_no_node [OF assms(1)] False by blast
    have "proxy_typed (p\<lparr>plock := True, lru_reqs := c\<rparr>)" using assms(2) by (simp add: proxy_typed_def)
    then show ?thesis by (simp add: c calmed_def)
  qed
qed

lemma chan_recv_shape:
  "case chan_recv c of Ret (c', x) \<Rightarrow> (queue_ok c \<longrightarrow> queue_ok c') \<and> set (buf c') \<subseteq> set (buf c) \<and> (\<forall>y. x = Some y \<longrightarrow> y \<in> set (buf c))
   | Blocked \<Rightarrow> True | Crash \<Rightarrow> False"
  by (cases "buf c") (auto simp: chan_recv_def queue_ok_def)

lemma main_round_calmed:
  assumes "lru_removes L" "proxy_typed p"
  shows "calmed p (loop_main_round L waiting dial now pick p)"
proof (cases pick)
  case PickTimer
  then show ?thesis using quiet_calmed [OF retry_client_connect_quiet [OF assms(2)]] by (simp add: loop_main_round_def)
next
  case PickSend
  show ?thesis
  proof (cases "chan_recv (channel_send p)")
    case (Ret r)
    obtain ch x where r: "r = (ch, x)" by (cases r)
    let ?p = "p\<lparr>channel_send := ch\<rparr>"
    have "proxy_typed ?p" "same_calls p ?p"
      using assms(2) chan_recv_shape [of "channel_send p"] Ret r by (simp_all add: proxy_typed_def same_calls_def)
    then show ?thesis using PickSend Ret r calmed_mono [OF do_send_calmed [OF assms(1)]]
      by (cases x) (auto simp: loop_main_round_def calmed_def)
  qed (use PickSend chan_recv_shape [of "channel_send p"] in \<open>simp_all add: loop_main_round_def calmed_def\<close>)
next
  case PickEvent
  show ?thesis
  proof (cases "chan_recv (channel_event p)")
    case (Ret r)
    obtain ch x where r: "r = (ch, x)" by (cases r)
    let ?p = "p\<lparr>channel_event := ch\<rparr>"
    have p: "proxy_typed ?p" "same_calls p ?p" "\<And>e. x = Some e \<Longrightarrow> event_ok e"
      using assms(2) chan_recv_shape [of "channel_event p"] Ret r
      by (auto simp: proxy_typed_def same_calls_def list_all_iff)
    then show ?thesis using PickEvent Ret r calmed_mono [OF quiet_calmed [OF do_event_quiet [OF p(1)]] p(2)]
      by (cases x) (auto simp: loop_main_round_def calmed_def same_calls_def)
  qed (use PickEvent chan_recv_shape [of "channel_event p"] in \<open>simp_all add: loop_main_round_def calmed_def\<close>)
qed

text \<open>Queueing a request: the cache must not evict, and the mutex is free afterwards.\<close>

lemma add_queue_shape:
  assumes "proxy_typed p"
  shows "case add_to_call_queue L p r of
      Ret p' \<Rightarrow> proxy_typed p' \<and> answered p' = answered p \<and> \<not> plock p \<and> \<not> plock p' \<and>
        lruAdd L (lru_reqs p) (TraceId (Header (req r))) r = (lru_reqs p', None)
    | Blocked \<Rightarrow> True
    | Crash \<Rightarrow> \<not> plock p \<and> snd (lruAdd L (lru_reqs p) (TraceId (Header (req r))) r) \<noteq> None"
proof (cases "plock p")
  case False
  obtain c e where a: "lruAdd L (lru_reqs p) (TraceId (Header (req r))) r = (c, e)" by fastforce
  show ?thesis
  proof (cases e)
    case None
    then show ?thesis using assms False a
      by (auto simp: add_to_call_queue_def lru_Set_def no_evicted_def do_evicted_def chan_send_def proxy_typed_def queue_ok_def)
  next
    case (Some x)
    then show ?thesis using False a
      by (cases x) (simp add: add_to_call_queue_def lru_Set_def no_evicted_def do_evicted_def)
  qed
qed (simp add: add_to_call_queue_def)

lemma send_loop_round: "do_send_loop SendPacket ch [PickChan] = (ch', sent) \<Longrightarrow> closed ch' = closed ch \<and> cap ch' = cap ch"
  by (cases "buf ch") (auto simp: chan_recv_def split: option.splits if_splits)

lemma send_loop_typed:
  assumes "proxy_typed p" "tChan (clients p k) = Some ch"
  shows "proxy_typed (set_client p k ((clients p k)\<lparr>tChan := Some ch'\<rparr>)) \<and>
    same_calls p (set_client p k ((clients p k)\<lparr>tChan := Some ch'\<rparr>))"
  by (rule set_client_typed [OF assms(1)]) simp

section \<open>A new proxy\<close>

lemma init_clients_quiet: "proxy_typed p \<Longrightarrow> quiet_op p (init_clients dial infos p)"
proof (induction infos arbitrary: p)
  case (Cons info infos)
  obtain q k where nc: "new_client p (Host info) (Port info) (ServiceId info) = (q, k)" by fastforce
  have q: "proxy_typed q" "same_calls p q" "k < client_count q"
    using Cons.prems nc
    by (auto simp: new_client_def set_client_def NewTcpClient_def StateClose_def StateConnected_def Let_def
        proxy_typed_def same_calls_def less_Suc_eq)
  show ?case
  proof (cases "Connect (dial info) (clients q k)")
    case (Ret r)
    then obtain c err where c: "Connect (dial info) (clients q k) = Ret (c, err)" by (cases r) simp
    let ?q = "set_client q k c"
    have t: "proxy_typed ?q" "same_calls q ?q" using set_connected_typed [OF q(1) c] by simp_all
    have k: "k < client_count ?q" using q(3) by (simp add: set_client_def)
    have "tChan (clients ?q k) \<noteq> None" if "err = None"
      using connected_chan [OF t(1), of k] Connect_shape [of "clients q k" "dial info"] c that by simp
    then have "proxy_typed (if err = None then ?q\<lparr>active_clients := active_clients ?q @ [k]\<rparr>
        else ?q\<lparr>inactive_clients := inactive_clients ?q @ [k]\<rparr>)" (is "proxy_typed ?q2")
      using t(1) k by (auto simp: proxy_typed_def)
    moreover have "same_calls p ?q2" using t(2) q(2) by (simp add: same_calls_def)
    ultimately have "quiet_op p (init_clients dial infos ?q2)" using quiet_mono [OF Cons.IH] by blast
    then show ?thesis using nc c by (simp add: Let_def)
  qed (use nc Connect_shape [of "clients q k" "dial info"] in simp_all)
qed simp

lemma NewObjectProxy_typed:
  assumes "NewObjectProxy L sz rs ts ic G dial n name = Ret (n', p)"
  shows "proxy_typed p \<and> answered p = [] \<and> lru_reqs p = lruNew L sz \<and> \<not> plock p"
proof -
  let ?p = "empty_proxy L sz rs ts ic name"
  have "proxy_typed ?p"
    by (simp add: proxy_typed_def empty_proxy_def NewTcpClient_def StateClose_def StateConnected_def queue_ok_def make_chan_def)
  moreover obtain infos where "init_clients dial infos ?p = Ret p"
    using assms by (auto simp: NewObjectProxy_def proxy_init_def obind_Ret split: prod.splits if_splits option.splits sum.splits)
  ultimately show ?thesis using init_clients_quiet [of ?p dial infos]
    by (simp add: same_calls_def empty_proxy_def)
qed

section \<open>Runs\<close>

text \<open>The four ways to queue a request.\<close>

lemmas queue_defs = CallBegin_def CallAsync_def proxy_Cast_def Broadcast_def

lemma proxy_step_queue:
  assumes "proxy_step L p (Some i) res"
  shows "\<exists>r. TraceId (Header (req r)) = i \<and> add_to_call_queue L p r = res"
proof -
  have "\<exists>r. TraceId (Header (req r)) = TraceId (Header q) \<and> add_to_call_queue L p r = res"
    if "add_to_call_queue L p \<lparr>call_type = t, rhash = h, req = q, send_ts = now\<rparr> = res" for t h q now
    using that by (intro exI [of _ "\<lparr>call_type = t, rhash = h, req = q, send_ts = now\<rparr>"]) simp
  with assms show ?thesis by (auto simp: queue_defs elim!: proxy_stepE)
qed

lemma proxy_step_calmed:
  assumes "lru_removes L" "proxy_typed p" "proxy_step L p None res"
  shows "calmed p res"
  using assms(3)
proof cases
  case step_main
  then show ?thesis using main_round_calmed [OF assms(1,2)] by auto
next
  case step_notify
  then show ?thesis using quiet_calmed [OF notify_quiet [OF assms(2)]] by auto
next
  case (step_send_loop k ch SendPacket ch' sent)
  then show ?thesis using send_loop_typed [OF assms(2)] by (auto simp: calmed_def same_calls_def)
qed

lemma proxy_run_typed:
  assumes "proxy_run L p0 ids p" "lru_removes L" "proxy_typed p0" "answered p0 = []"
  shows "proxy_typed p \<and> answered p = []"
  using assms
proof (induction rule: proxy_run.induct)
  case (proxy_more ids p t p')
  then have p: "proxy_typed p" "answered p = []" by simp_all
  show ?case
  proof (cases t)
    case None
    then have "calmed p (Ret p')" using proxy_step_calmed [OF proxy_more.prems(1) p(1)] proxy_more.hyps(2) by simp
    then show ?thesis using p(2) by (simp add: calmed_def)
  next
    case (Some i)
    then obtain r where "add_to_call_queue L p r = Ret p'" using proxy_step_queue proxy_more.hyps(2) by blast
    then show ?thesis using add_queue_shape [OF p(1), of L r] p(2) by simp
  qed
qed simp

text \<open>
  What the cache package documents of a cache of at most \<open>n > 0\<close> entries, with \<open>keys\<close> the keys of a cache
  and \<open>sized\<close> the caches made by \<^verbatim>\<open>lru.New(n)\<close>: adding evicts an entry exactly when the key is new and
  the cache full.
\<close>

definition lru_limit :: "('c, 'k, 'v) lru_ops \<Rightarrow> int \<Rightarrow> ('c \<Rightarrow> 'k set) \<Rightarrow> ('c \<Rightarrow> bool) \<Rightarrow> bool" where
  "lru_limit L n keys sized \<longleftrightarrow> 0 < n \<and> sized (lruNew L n) \<and> keys (lruNew L n) = {} \<and>
     (\<forall>c k v. sized c \<longrightarrow> finite (keys c) \<and> int (card (keys c)) \<le> n \<and> sized (fst (lruAdd L c k v)) \<and>
        (if k \<notin> keys c \<and> int (card (keys c)) = n then snd (lruAdd L c k v) \<noteq> None
         else snd (lruAdd L c k v) = None \<and> keys (fst (lruAdd L c k v)) = Set.insert k (keys c)))"

lemma lru_limit_entry:
  assumes "lru_limit L n keys sized" "sized c"
  shows "finite (keys c) \<and> int (card (keys c)) \<le> n \<and> sized (fst (lruAdd L c k v)) \<and>
    (if k \<notin> keys c \<and> int (card (keys c)) = n then snd (lruAdd L c k v) \<noteq> None
     else snd (lruAdd L c k v) = None \<and> keys (fst (lruAdd L c k v)) = Set.insert k (keys c))"
  using assms(1) unfolding lru_limit_def by (elim conjE) (erule allE, erule allE, erule allE, erule mp, rule assms(2))

lemma lru_limit_add:
  assumes "lru_limit L n keys sized" "sized c" "lruAdd L c k v = (c', None)"
  shows "sized c'" "keys c' = Set.insert k (keys c)" "int (card (keys c')) \<le> n"
proof -
  show s: "sized c'" "keys c' = Set.insert k (keys c)"
    using lru_limit_entry [OF assms(1,2), of k v] assms(3) by (auto split: if_splits)
  show "int (card (keys c')) \<le> n" using lru_limit_entry [OF assms(1) s(1)] by blast
qed

lemma lru_limit_full:
  assumes "lru_limit L n keys sized" "sized c" "k \<notin> keys c" "int (card (keys c)) = n"
  shows "snd (lruAdd L c k v) \<noteq> None"
  using lru_limit_entry [OF assms(1,2), of k v] assms(3,4) by simp

definition within_limit :: "('c \<Rightarrow> string set) \<Rightarrow> ('c \<Rightarrow> bool) \<Rightarrow> int \<Rightarrow> string list \<Rightarrow> ('c, 'b) ObjectProxy \<Rightarrow> bool" where
  "within_limit keys sized n ids p \<longleftrightarrow> int (card (set ids)) \<le> n \<and>
     (plock p \<or> sized (lru_reqs p) \<and> keys (lru_reqs p) = set ids)"

lemma proxy_run_within:
  assumes "proxy_run L p0 ids p" "lru_removes L" "proxy_typed p0" "answered p0 = []" "lru_limit L n keys sized"
    and "within_limit keys sized n [] p0"
  shows "within_limit keys sized n ids p"
  using assms
proof (induction rule: proxy_run.induct)
  case (proxy_more ids p t p')
  have p: "proxy_typed p" "within_limit keys sized n ids p"
    using proxy_run_typed [OF proxy_more.hyps(1) proxy_more.prems(1-3)] proxy_more.IH [OF proxy_more.prems] by blast+
  show ?case
  proof (cases t)
    case None
    then have "calmed p (Ret p')" using proxy_step_calmed [OF proxy_more.prems(1) p(1)] proxy_more.hyps(2) by simp
    then have c: "plock p \<longrightarrow> plock p'" "plock p' \<or> lru_reqs p' = lru_reqs p" by (simp_all add: calmed_def)
    then show ?thesis by (cases "plock p'") (use None p(2) in \<open>simp_all add: within_limit_def\<close>)
  next
    case (Some i)
    then obtain q where r: "TraceId (Header (req q)) = i" "add_to_call_queue L p q = Ret p'"
      using proxy_step_queue proxy_more.hyps(2) by blast
    have a: "\<not> plock p" "\<not> plock p'" "lruAdd L (lru_reqs p) i q = (lru_reqs p', None)"
      using add_queue_shape [OF p(1), of L q] r by simp_all
    have k: "sized (lru_reqs p)" "keys (lru_reqs p) = set ids" using p(2) a(1) by (simp_all add: within_limit_def)
    note s = lru_limit_add [OF proxy_more.prems(4) k(1) a(3)]
    show ?thesis using s k Some a(2) by (simp add: within_limit_def)
  qed
qed simp

section \<open>Properties\<close>

text \<open>
  C37: the proxy is type safe, and useless for calls. After any interleaving of calls, casts, rounds of
  the main loop, changes of the service and sending, from a new proxy on: the lists point to clients
  that were created, each active one has a send queue, both queues of the proxy are open and within
  their capacity; no round of the main loop panics, as long as 32 bits hold the number of active
  clients, and no notification does. But no call was answered in any way, not even with the error for a
  missing node, so that the result of each is the timeout.
\<close>

theorem proxy_sound:
  assumes "lru_removes L" "NewObjectProxy L sz rs ts ic G dial n name = Ret (n', p0)" "proxy_run L p0 ids p"
  shows "(\<forall>k \<in> set (active_clients p) \<union> set (inactive_clients p). k < client_count p) \<and>
    (\<forall>k \<in> set (active_clients p). tChan (clients p k) \<noteq> None) \<and>
    queue_ok (channel_event p) \<and> queue_ok (channel_send p) \<and>
    (length (active_clients p) < 2 ^ 32 \<longrightarrow> (\<forall>waiting dial now pick. loop_main_round L waiting dial now pick p \<noteq> Crash)) \<and>
    (\<forall>changes. notify_service_change p changes \<noteq> Crash) \<and>
    answered p = [] \<and> (\<forall>i. CallResult (map_of (answered p) i) = Inl kErrorCallTimeout)"
proof -
  have p: "proxy_typed p" "answered p = []"
    using proxy_run_typed [OF assms(3,1)] NewObjectProxy_typed [OF assms(2)] by blast+
  have "loop_main_round L waiting dial now pick p \<noteq> Crash" if "length (active_clients p) < 2 ^ 32" for waiting dial now pick
    using main_round_calmed [OF assms(1) p(1), of waiting dial now pick] that by (auto simp: calmed_def)
  moreover have "notify_service_change p changes \<noteq> Crash" for changes
    using notify_quiet [OF p(1), of changes] by (auto simp: quiet_def)
  ultimately show ?thesis using p by (simp add: proxy_typed_def CallResult_def)
qed

lemma demo_new_proxy:
  fixes L :: "('c, 'b) pending_ops"
  shows "\<exists>n'. NewObjectProxy L sz rs ts ic (\<lambda>_. Inr []) dial NewNaming name = Ret (n', empty_proxy L sz rs ts ic name)"
  by (simp add: NewObjectProxy_def proxy_init_def empty_proxy_def Subscribe_def naming_critical_def naming_mutex.runs NewNaming_def Find_def)

theorem proxy_sound_witness:
  "\<exists>n' p0 p1 p2. NewObjectProxy demo_lru 10 5 5 3 (\<lambda>_. Inr []) (\<lambda>_. None) NewNaming ''online'' = Ret (n', p0) \<and>
     CallBegin demo_lru 0 p0 7 (req demo_call) = Ret p1 \<and>
     loop_main_round demo_lru (\<lambda>_. True) (\<lambda>_ _. None) 0 PickSend p1 = Ret p2 \<and>
     answered p2 = [] \<and> loop_main_round demo_lru (\<lambda>_. True) (\<lambda>_ _. None) 1 PickTimer p2 \<noteq> Crash"
proof -
  let ?p0 = "empty_proxy demo_lru 10 5 5 3 ''online'' :: ((string \<times> nat CallRecord) list, nat) ObjectProxy"
  obtain n' where n: "NewObjectProxy demo_lru 10 5 5 3 (\<lambda>_. Inr []) (\<lambda>_. None) NewNaming ''online'' = Ret (n', ?p0)"
    using demo_new_proxy by blast
  obtain p1 where p1: "CallBegin demo_lru 0 ?p0 7 (req demo_call) = Ret p1" "active_clients p1 = []" "\<not> plock p1"
    "channel_send p1 = (make_chan 1000)\<lparr>buf := [\<lparr>call_type = kCall, rhash = 7, req = req demo_call, send_ts = 0\<rparr>]\<rparr>"
    by (simp add: CallBegin_def add_to_call_queue_def empty_proxy_def lru_Set_def demo_lru_def no_evicted_def do_evicted_def
        chan_send_def make_chan_def)
  let ?q = "p1\<lparr>channel_send := make_chan 1000\<rparr>"
  let ?r = "\<lparr>call_type = kCall, rhash = 7, req = req demo_call, send_ts = 0\<rparr>"
  have "\<not> plock ?q" "active_clients ?q = []" "call_type ?r \<noteq> kBroadcast" using p1 by (simp_all add: kCall_def kBroadcast_def)
  from do_send_no_node [OF demo_lru_removes this] obtain c where
    p2: "do_send demo_lru (\<lambda>_. True) ?q ?r = Ret (?q\<lparr>plock := True, lru_reqs := c\<rparr>)" (is "_ = Ret ?p2") by blast
  then have m: "loop_main_round demo_lru (\<lambda>_. True) (\<lambda>_ _. None) 0 PickSend p1 = Ret ?p2"
    using p1(4) by (simp add: loop_main_round_def chan_recv_def make_chan_def)
  have "proxy_run demo_lru ?p0 (([] @ [TraceId (Header (req demo_call))]) @ []) ?p2"
    using proxy_more [OF proxy_more [OF proxy_start step_call [OF p1(1)]] step_main [OF m]] by simp
  from proxy_sound [OF demo_lru_removes n this] show ?thesis using n p1(1,2) m by fastforce
qed


text \<open>A cache of at most \<open>n\<close> entries.\<close>

definition bounded_lru :: "nat \<Rightarrow> ((string \<times> 'v) list, string, 'v) lru_ops" where
  "bounded_lru n = demo_lru\<lparr>lruAdd := (\<lambda>c k v.
     if k \<in> set (map fst c) then ((k, v) # filter (\<lambda>e. fst e \<noteq> k) c, None)
     else if length c < n then ((k, v) # c, None)
     else ((k, v) # butlast c, Some (last c)))\<rparr>"

lemma bounded_lru_Add: "lruAdd (bounded_lru n) c k v =
    (if k \<in> set (map fst c) then ((k, v) # filter (\<lambda>e. fst e \<noteq> k) c, None)
     else if length c < n then ((k, v) # c, None)
     else ((k, v) # butlast c, Some (last c)))"
  by (simp add: bounded_lru_def)

lemma bounded_lru_sized:
  assumes "distinct (map fst c)" "length c \<le> n" "0 < n"
  shows "distinct (map fst (fst (lruAdd (bounded_lru n) c k v)))" "length (fst (lruAdd (bounded_lru n) c k v)) \<le> n"
proof -
  consider "k \<in> set (map fst c)" | "k \<notin> set (map fst c)" "length c < n" | "k \<notin> set (map fst c)" "length c = n"
    using assms(2) by linarith
  then have "distinct (map fst (fst (lruAdd (bounded_lru n) c k v))) \<and> length (fst (lruAdd (bounded_lru n) c k v)) \<le> n"
  proof cases
    case 1
    then have "length (filter (\<lambda>e. fst e \<noteq> k) c) < length c" by (auto intro: length_filter_less)
    then show ?thesis using 1 assms by (auto simp: bounded_lru_Add distinct_map_filter)
  next
    case 3
    then have "k \<notin> set (butlast (map fst c))" "distinct (butlast (map fst c))"
      using assms(1) by (auto simp: distinct_butlast dest: in_set_butlastD)
    then show ?thesis using 3 assms by (simp add: bounded_lru_Add map_butlast)
  qed (use assms in \<open>simp add: bounded_lru_Add\<close>)
  then show "distinct (map fst (fst (lruAdd (bounded_lru n) c k v)))" "length (fst (lruAdd (bounded_lru n) c k v)) \<le> n" by simp_all
qed

lemma bounded_lru_limit:
  assumes "0 < n"
  shows "lru_limit (bounded_lru n :: ((string \<times> 'v) list, string, 'v) lru_ops) (int n) (\<lambda>c. set (map fst c)) (\<lambda>c. distinct (map fst c) \<and> length c \<le> n)"
proof -
  have card: "card (fst ` set c) = length c" if "distinct (map fst c)" for c :: "(string \<times> 'v) list"
    using distinct_card [OF that] by simp
  have upd: "set (map fst ((k, v) # filter (\<lambda>e. fst e \<noteq> k) c)) = Set.insert k (set (map fst c))"
    for c :: "(string \<times> 'v) list" and k v by auto
  have entry: "finite (set (map fst c)) \<and> int (card (set (map fst c))) \<le> int n \<and>
      (distinct (map fst (fst (lruAdd (bounded_lru n) c k v))) \<and> length (fst (lruAdd (bounded_lru n) c k v)) \<le> n) \<and>
      (if k \<notin> set (map fst c) \<and> int (card (set (map fst c))) = int n then snd (lruAdd (bounded_lru n) c k v) \<noteq> None
       else snd (lruAdd (bounded_lru n) c k v) = None \<and>
         set (map fst (fst (lruAdd (bounded_lru n) c k v))) = Set.insert k (set (map fst c)))"
    if "distinct (map fst c) \<and> length c \<le> n" for c :: "(string \<times> 'v) list" and k v
    using that assms bounded_lru_sized [of c n k v] upd [of k v c] by (simp add: bounded_lru_Add card)
  have new: "lruNew (bounded_lru n :: ((string \<times> 'v) list, string, 'v) lru_ops) m = []" for m
    by (simp add: bounded_lru_def demo_lru_def)
  show ?thesis unfolding lru_limit_def new
    by (rule conjI, simp add: assms, rule conjI, simp, rule conjI, simp, intro allI impI, rule entry)
qed

lemma bounded_lru_removes: "lru_removes (bounded_lru n)"
  using demo_lru_removes by (simp add: lru_removes_def bounded_lru_def)


end
