(* ===== verification/Launch.thy ===== *)
theory Launch
  imports ContainerInit ServerLife
begin

text \<open>
  The three server programs, \<^verbatim>\<open>src/server/{gateway,online,pusher}/service.go\<close>, from the start of the process to
  the point where \<^verbatim>\<open>Run\<close> starts its goroutines (\<open>ServerLife\<close> goes on from there): the container starts and registers
  the service, the program loads its own configuration, and \<^verbatim>\<open>Run\<close> completes the parameters of the servers.
  \<^verbatim>\<open>log.Fatalf\<close> ends the process, \<^term>\<open>Crash\<close>. What a process finds outside is the record \<open>machine\<close>; a program
  starts with an empty table of configurations and a new naming client.
\<close>

section \<open>The machine\<close>

text \<open>The flags that were given, the path of the executable, a fresh UUID, files, network interfaces, etcd.\<close>

record 's machine =
  flags :: "string \<rightharpoonup> string"
  executable :: string
  uuid :: string
  ReadFile :: "string \<Rightarrow> string + string"
  OpenLog :: "string \<Rightarrow> string option"
  unmarshal_service :: "string \<Rightarrow> string + MServiceConfig"
  interfaces :: "string + net_iface list"
  etcd :: "'s etcd_client"

definition init_param :: "(string \<rightharpoonup> string) \<Rightarrow> LauncherParam" where
  "init_param fs =
     \<lparr>ConfigMode = (case fs ''config_mode'' of None \<Rightarrow> ''file'' | Some v \<Rightarrow> v),
      LogMode = (case fs ''log_mode'' of None \<Rightarrow> ''file'' | Some v \<Rightarrow> v)\<rparr>"

text \<open>What \<open>init_container\<close> reads of the machine.\<close>

definition boot_of :: "'s machine \<Rightarrow> 's boot_env" where
  "boot_of m =
     \<lparr>bExec = GetExecName (executable m), bUuid = uuid m, bParam = init_param (flags m),
      bLogErr = OpenLog m (GetExecName (executable m) @ ''.log''),
      bFile = ReadFile m (GetServiceConfigPath (executable m)), bUnmarshal = unmarshal_service m,
      bIfaces = interfaces m, bEtcd = etcd m\<rparr>"

section \<open>The configuration of a program\<close>

definition own_config_by_file :: "string \<Rightarrow> (string \<Rightarrow> string + any_config) \<Rightarrow> 's machine \<Rightarrow> cfg_table \<Rightarrow> (cfg_table \<times> string option) outcome" where
  "own_config_by_file key decode m p = SetConfigByFileLoader key (ReadFile m (GetConfigPath (executable m))) decode p"

definition own_config_by_etcd ::
  "string \<Rightarrow> (string \<Rightarrow> string + any_config) \<Rightarrow> 's machine \<Rightarrow> 's \<Rightarrow> cfg_table \<Rightarrow> (cfg_table \<times> string option) outcome" where
  "own_config_by_etcd key decode m s p =
     obind (GetEtcdInstance p) (\<lambda>(p, _).
       let exec = GetExecName (executable m)
       in SetConfigByEtcdLoader key (etcd m) (SERVICE_ETCD_CONFIG_PATH @ ''/'' @ exec @ ''/'' @ exec @ ''.cfg'') decode s p)"

definition own_config ::
  "string \<Rightarrow> (string \<Rightarrow> string + any_config) \<Rightarrow> 's machine \<Rightarrow> 's \<Rightarrow> cfg_table \<Rightarrow> (cfg_table \<times> string option) outcome" where
  "own_config key decode m s p =
     (let mode = ConfigMode (init_param (flags m))
      in if mode = ''file'' then own_config_by_file key decode m p
         else if mode = ''etcd'' then own_config_by_etcd key decode m s p
         else Ret (p, Some (''unknow config_mode:'' @ mode)))"

section \<open>The programs\<close>

text \<open>
  \<open>main\<close>: its first use of the container starts it. The result has the table, the naming client, the etcd
  store, the servers \<open>Run\<close> starts and the process before its first step.
\<close>

type_synonym ('s, 'p) launched = "(cfg_table \<times> Naming \<times> 's \<times> NetServerParam list \<times> 'p process) outcome"

text \<open>\<open>Run\<close> of the container, which reads the configuration to complete the parameters.\<close>

definition container_run :: "'s machine \<Rightarrow> NetServerParam list \<Rightarrow> cfg_table \<times> Naming \<times> 's \<Rightarrow> ('s, 'p) launched" where
  "container_run m params st =
     (case st of (p, n, s) \<Rightarrow>
        obind (config_value kMServiceConfig as_mservice p) (\<lambda>(p, c).
          case Run (GetExecName (executable m)) (GetIfaceIpAddr (interfaces m)) (ServiceCfg c) params of
            (servers, process) \<Rightarrow> Ret (p, n, s, servers, process)))"

definition program_main ::
  "string \<Rightarrow> (string \<Rightarrow> string + any_config) \<Rightarrow> (cfg_table \<Rightarrow> (cfg_table \<times> NetServerParam list) outcome) \<Rightarrow>
   's machine \<Rightarrow> 's \<Rightarrow> ('s, 'p) launched" where
  "program_main key decode get_server_params m s =
     obind (container_instance (boot_of m) no_configs NewNaming s) (\<lambda>(p, n, s).
       obind (own_config key decode m s p) (\<lambda>(p, err).
         if err \<noteq> None then Crash
         else obind (get_server_params p) (\<lambda>(p, params). container_run m params (p, n, s))))"

definition gateway_params :: "cfg_table \<Rightarrow> (cfg_table \<times> NetServerParam list) outcome" where
  "gateway_params p =
     obind (config_value kGatewayConfig as_gateway p) (\<lambda>(p, c).
       Ret (p, gw_server_params (glIface (gcListen c)) (glPort (gcListen c))))"

definition gateway_main :: "(string \<Rightarrow> string + GatewayConfig) \<Rightarrow> 's machine \<Rightarrow> 's \<Rightarrow> ('s, 'p) launched" where
  "gateway_main unmarshal = program_main kGatewayConfig (decode_as IsGateway unmarshal) gateway_params"

definition online_main :: "(string \<Rightarrow> string + OnlineConfig) \<Rightarrow> 's machine \<Rightarrow> 's \<Rightarrow> ('s, 'p) launched" where
  "online_main unmarshal = program_main kOnlineConfig (decode_as IsOnline unmarshal) (\<lambda>p. Ret (p, online_server_params))"

definition pusher_main :: "(string \<Rightarrow> string + PusherConfig) \<Rightarrow> 's machine \<Rightarrow> 's \<Rightarrow> ('s, 'p) launched" where
  "pusher_main unmarshal = program_main kPusherConfig (decode_as IsPusher unmarshal) (\<lambda>p. Ret (p, pusher_server_params))"

text \<open>The echo example has no configuration of its own.\<close>

definition echo_server_params :: "NetServerParam list" where "echo_server_params = [service_param]"

definition echo_main :: "'s machine \<Rightarrow> 's \<Rightarrow> ('s, 'p) launched" where
  "echo_main m s = obind (container_instance (boot_of m) no_configs NewNaming s) (container_run m echo_server_params)"

section \<open>What a start gives\<close>

text \<open>A default server listens at the address of the registration.\<close>

lemma service_param_listens:
  assumes "get_service_info exec i ip cfg = Inr info" "service_param \<in> set params"
  shows "\<lparr>npName = exec, npIface = '''', npHost = Host info, npPort = Port info\<rparr> \<in> set (set_server_params exec ip cfg params)"
  using assms
proof (induction params)
  case (Cons x xs)
  then show ?case
    by (cases "x = service_param") (auto simp: service_param_def get_service_info_def Let_def split: sum.splits)
qed simp

lemma fresh_table: "\<not> cmutex (no_configs :: cfg_table)" "config_of (no_configs :: cfg_table) key = None"
  by (simp_all add: no_configs_def config_of_def)

lemma fresh_table_empty: "config_of (no_configs :: cfg_table) = Map.empty"
  using fresh_table(2) by (simp add: fun_eq_iff)

text \<open>The parameters a program passes to \<open>Run\<close> have a default server, and getting them changes nothing.\<close>

definition has_service :: "(cfg_table \<Rightarrow> (cfg_table \<times> NetServerParam list) outcome) \<Rightarrow> bool" where
  "has_service get_params \<longleftrightarrow>
     (\<forall>p p' params. \<not> cmutex p \<longrightarrow> get_params p = Ret (p', params) \<longrightarrow> p' = p \<and> service_param \<in> set params)"

text \<open>A container starts from an empty table only with its configuration in a file, which it then holds.\<close>

lemma container_instance_fresh:
  assumes "container_instance env no_configs n s = Ret (p, n', s')"
  shows "ConfigMode (bParam env) = ''file''"
proof (rule ccontr)
  assume f: "ConfigMode (bParam env) \<noteq> ''file''"
  have l: "init_log env = None" using assms by (auto simp: container_instance_def init_container_def split: option.splits)
  show False
  proof (cases "ConfigMode (bParam env) = ''etcd''")
    case True
    from etcd_mode_crashes [OF fresh_table this l] show False using assms by simp
  qed (use assms f l in \<open>simp add: container_instance_def init_container_def init_config_def\<close>)
qed

text \<open>
  \<open>serves m s s' servers process\<close>: the process of the machine registered an address, the change of the store from
  \<open>s\<close> to \<open>s'\<close>, and one of its servers has it.
\<close>

definition serves :: "'s machine \<Rightarrow> 's \<Rightarrow> 's \<Rightarrow> NetServerParam list \<Rightarrow> 'p process \<Rightarrow> bool" where
  "serves m s s' servers process \<longleftrightarrow>
     (\<exists>info ttl lease. Name info = GetExecName (executable m) \<and> ServiceId info = Name info @ ''_'' @ uuid m \<and>
        PutWithTimeout (etcd m) (fst (convert_service_info_to_str info)) (ServiceId info) ttl s = (Inr lease, s') \<and>
        \<lparr>npName = Name info, npIface = [], npHost = Host info, npPort = Port info\<rparr> \<in> set servers \<and>
        (\<forall>x\<in>set servers. npName x = Name info) \<and> process = start_process)"

lemma container_run_serves:
  assumes "container_instance (boot_of m) no_configs NewNaming s = Ret (p1, n1, s')"
    and "container_run m params (p, n, s') = Ret (p', n', s2, servers, process)" "service_param \<in> set params"
    and "\<not> cmutex p" "config_of p kMServiceConfig = config_of p1 kMServiceConfig"
  shows "serves m s s' servers process \<and> s2 = s'"
proof -
  obtain c lease info where c: "config_of p1 kMServiceConfig = Some (IsMService c)"
    "get_service_info (GetExecName (executable m)) (boot_service_id (boot_of m)) (GetIfaceIpAddr (interfaces m)) (ServiceCfg c) = Inr info"
    "PutWithTimeout (etcd m) (fst (convert_service_info_to_str info)) (ServiceId info) (i64 (3 * KeepAliveTtl (ServiceCfg c))) s = (Inr lease, s')"
    using container_instance_file [OF fresh_table(1) container_instance_fresh [OF assms(1)] assms(1)] by (auto simp: boot_of_def)
  have sv: "servers = set_server_params (GetExecName (executable m)) (GetIfaceIpAddr (interfaces m)) (ServiceCfg c) params"
    "process = start_process" "s2 = s'"
    using assms(2,4,5) c(1) by (auto simp: container_run_def Run_def config_value_free)
  have n: "Name info = GetExecName (executable m)" "ServiceId info = Name info @ ''_'' @ uuid m"
    using c(2) by (auto simp: get_service_info_Inr boot_service_id_def boot_of_def)
  moreover have "\<lparr>npName = Name info, npIface = [], npHost = Host info, npPort = Port info\<rparr> \<in> set servers"
    using service_param_listens [OF c(2) assms(3)] sv(1) n(1) by simp
  moreover have "\<forall>x\<in>set servers. npName x = Name info" using sv(1) n(1) set_server_params_name by auto
  ultimately show ?thesis using sv(2,3) c(3) unfolding serves_def by blast
qed

lemma program_main_serves:
  assumes "program_main key decode get_params m s = Ret (p, n, s', servers, process)" "key \<noteq> kMServiceConfig" "has_service get_params"
  shows "serves m s s' servers process"
proof -
  from assms(1) obtain p1 n1 s1 p2 p3 ps where
    1: "container_instance (boot_of m) no_configs NewNaming s = Ret (p1, n1, s1)" and
    2: "own_config key decode m s1 p1 = Ret (p2, None)" and
    3: "get_params p2 = Ret (p3, ps)" and 4: "container_run m ps (p3, n1, s1) = Ret (p, n, s', servers, process)"
    by (auto simp: program_main_def obind_Ret split: if_splits)
  have mode: "ConfigMode (init_param (flags m)) = ''file''" using container_instance_fresh [OF 1] by (simp add: boot_of_def)
  have m1: "\<not> cmutex p1" using container_instance_file [OF fresh_table(1) container_instance_fresh [OF 1] 1] by blast
  have "\<not> cmutex p2 \<and> config_of p2 kMServiceConfig = config_of p1 kMServiceConfig"
    using 2 SetConfig_stored [OF m1, of key "loader_Get (ReadFile m (GetConfigPath (executable m))) decode" p2] mode assms(2)
    by (auto simp: own_config_def own_config_by_file_def SetConfigByFileLoader_def)
  moreover from this have "p3 = p2" "service_param \<in> set ps" using assms(3) 3 unfolding has_service_def by blast+
  ultimately show ?thesis using container_run_serves [OF 1 4] by auto
qed

lemma echo_main_serves:
  assumes "echo_main m s = Ret (p, n, s', servers, process)"
  shows "serves m s s' servers process"
proof -
  obtain p1 n1 s1 where 1: "container_instance (boot_of m) no_configs NewNaming s = Ret (p1, n1, s1)"
    "container_run m echo_server_params (p1, n1, s1) = Ret (p, n, s', servers, process)"
    using assms by (auto simp: echo_main_def obind_Ret)
  have "\<not> cmutex p1" using container_instance_file [OF fresh_table(1) container_instance_fresh [OF 1(1)] 1(1)] by blast
  then show ?thesis using container_run_serves [OF 1] by (auto simp: echo_server_params_def)
qed

lemma main_serves:
  assumes "main = gateway_main ug \<or> main = online_main uo \<or> main = pusher_main up \<or> main = echo_main"
    and "main m s = Ret (p, n, s', servers, process)"
  shows "serves m s s' servers process"
proof -
  have keys: "kGatewayConfig \<noteq> kMServiceConfig" "kOnlineConfig \<noteq> kMServiceConfig" "kPusherConfig \<noteq> kMServiceConfig"
    by (simp_all add: kGatewayConfig_def kOnlineConfig_def kPusherConfig_def kMServiceConfig_def)
  have params: "has_service gateway_params" "has_service (\<lambda>p. Ret (p, online_server_params))"
    "has_service (\<lambda>p. Ret (p, pusher_server_params))"
    by (auto simp: has_service_def gateway_params_def obind_Ret config_value_free gw_server_params_def online_server_params_def
        pusher_server_params_def split: option.splits)
  from assms(1) show ?thesis
  proof (elim disjE)
    assume "main = gateway_main ug"
    then show ?thesis using assms(2) program_main_serves [OF _ keys(1) params(1)] by (simp add: gateway_main_def)
  next
    assume "main = online_main uo"
    then show ?thesis using assms(2) program_main_serves [OF _ keys(2) params(2)] by (simp add: online_main_def)
  next
    assume "main = pusher_main up"
    then show ?thesis using assms(2) program_main_serves [OF _ keys(3) params(3)] by (simp add: pusher_main_def)
  qed (use assms(2) echo_main_serves in simp)
qed

text \<open>Where every address can be listened on, the process comes to wait with all of its sockets open.\<close>

lemma run_listens:
  assumes "\<forall>x\<in>set params. listen (listen_addr x)" "k \<le> length params"
  shows "\<exists>r :: 'p process. run_steps listen params start_process r \<and> start_at r = Listening \<and> length (svcs r) = k \<and>
    open_socks (server r) = map listen_addr (take k params)"
  using assms(2)
proof (induction k)
  case 0
  then show ?case
    by (intro exI [of _ start_process]) (simp add: run_refl start_process_def NetServer_def)
next
  case (Suc k)
  obtain r :: "'p process" where r: "run_steps listen params start_process r" "start_at r = Listening" "length (svcs r) = k"
    "open_socks (server r) = map listen_addr (take k params)" using Suc.IH Suc.prems by (meson Suc_leD)
  obtain q where q: "listen_next listen params r = (q, True)" "open_socks q = map listen_addr (take (Suc k) params)"
    using r(3,4) Suc.prems assms(1) by (simp add: listen_next_def Let_def take_Suc_conv_app_nth)
  have "run_step listen params r (Ret (r\<lparr>server := q, svcs := svcs r @ [SvcStarting]\<rparr>))"
    using run_listen [OF r(2) _ q(1)] r(3) Suc.prems by simp
  from run_move [OF r(1) this] show ?case using r(2,3) q(2)
    by (intro exI [of _ "r\<lparr>server := q, svcs := svcs r @ [SvcStarting]\<rparr>"]) simp
qed

lemma run_comes_to_wait:
  assumes "\<forall>x\<in>set params. listen (listen_addr x)"
  shows "\<exists>r :: 'p process. run_steps listen params start_process r \<and> start_at r = Waiting \<and> open_socks (server r) = map listen_addr params"
proof -
  obtain r :: "'p process" where r: "run_steps listen params start_process r" "start_at r = Listening" "length (svcs r) = length params"
    "open_socks (server r) = map listen_addr params" using run_listens [OF assms le_refl] by auto
  from run_move [OF r(1) run_wait [OF r(2,3)]] show ?thesis using r(4)
    by (intro exI [of _ "r\<lparr>start_at := Waiting\<rparr>"]) simp
qed

section \<open>Properties\<close>

text \<open>
  C39: what a server registers it serves. When one of the programs reaches the point where its goroutines
  start, its configuration was in a file, and the etcd store has one new entry: the name of the
  executable, an id made of it and the UUID, and a host and port. One of the servers it starts has this address, all
  have the name of the registration, and if the addresses can be listened on, the process can come to wait with
  a socket open at the registered address.
\<close>

theorem registered_address_is_served:
  assumes "etcd_laws (etcd m) contents"
    and "main = gateway_main ug \<or> main = online_main uo \<or> main = pusher_main up \<or> main = echo_main"
    and "main m s = Ret (p, n, s', servers, process)"
  shows "ConfigMode (init_param (flags m)) = ''file'' \<and>
    (\<exists>info. contents s' = (contents s)(fst (convert_service_info_to_str info) \<mapsto> ServiceId info) \<and>
       Name info = GetExecName (executable m) \<and> ServiceId info = Name info @ ''_'' @ uuid m \<and>
       (\<exists>x\<in>set servers. npHost x = Host info \<and> npPort x = Port info) \<and> (\<forall>x\<in>set servers. npName x = Name info) \<and>
       (\<forall>listen. (\<forall>x\<in>set servers. listen (listen_addr x)) \<longrightarrow>
          (\<exists>r. run_steps listen servers process r \<and> start_at r = Waiting \<and>
             Host info @ '':'' @ show_int (Port info) \<in> set (open_socks (server r)))))"
proof -
  have mode: "ConfigMode (init_param (flags m)) = ''file''"
    using assms(2,3) container_instance_fresh [of "boot_of m"]
    by (auto simp: gateway_main_def online_main_def pusher_main_def echo_main_def program_main_def obind_Ret boot_of_def)
  obtain info :: ServiceInfo and ttl lease where i: "Name info = GetExecName (executable m)" "ServiceId info = Name info @ ''_'' @ uuid m"
    "PutWithTimeout (etcd m) (fst (convert_service_info_to_str info)) (ServiceId info) ttl s = (Inr lease, s')"
    "\<lparr>npName = Name info, npIface = [], npHost = Host info, npPort = Port info\<rparr> \<in> set servers" (is "?x \<in> _")
    "\<forall>x\<in>set servers. npName x = Name info" "process = start_process"
    using main_serves [OF assms(2,3)] unfolding serves_def by blast
  have "\<exists>r. run_steps listen servers process r \<and> start_at r = Waiting \<and> Host info @ '':'' @ show_int (Port info) \<in> set (open_socks (server r))"
    if l: "\<forall>x\<in>set servers. listen (listen_addr x)" for listen
  proof -
    have "listen_addr ?x = Host info @ '':'' @ show_int (Port info)" by (simp add: listen_addr_def)
    then show ?thesis using run_comes_to_wait [OF l] i(4,6) by (metis image_eqI image_set)
  qed
  moreover have "\<exists>x\<in>set servers. npHost x = Host info \<and> npPort x = Port info" using i(4) by force
  ultimately show ?thesis using mode i(1,2,5) PutWithTimeout_contents [OF assms(1) i(3)] by blast
qed

definition demo_own :: "'cfg \<Rightarrow> string \<Rightarrow> string + 'cfg" where
  "demo_own c content = (if content = ''own'' then Inr c else Inl ''json'')"

definition demo_machine :: "(string \<times> string) list machine" where
  "demo_machine = \<lparr>flags = [''log_mode'' \<mapsto> ''stdout''], executable = ''/opt/online'', uuid = ''u'',
     ReadFile = (\<lambda>path. if path = ''/opt/mservice.cfg'' then Inr ''service''
                        else if path = ''/opt/online.cfg'' then Inr ''own'' else Inl ''no such file''),
     OpenLog = (\<lambda>_. None), unmarshal_service = (\<lambda>_. Inr demo_mservice), interfaces = Inr [demo_iface], etcd = assoc_etcd\<rparr>"

lemma demo_machine_boots:
  "\<exists>p n s'. container_instance (boot_of demo_machine) no_configs NewNaming [] = Ret (p, n, s') \<and> \<not> cmutex p \<and>
     config_of p = [kMServiceConfig \<mapsto> IsMService demo_mservice]"
proof -
  obtain p1 where p1: "SetConfig kMServiceConfig (Inr (IsMService demo_mservice)) no_configs = Ret (p1, None)" "\<not> cmutex p1"
    "config_of p1 = [kMServiceConfig \<mapsto> IsMService demo_mservice]"
    using SetConfig_ok [OF fresh_table(1) fresh_table(2) [of kMServiceConfig], of "IsMService demo_mservice"] by (auto simp: fresh_table_empty)
  then have "config_value kMServiceConfig as_mservice p1 = Ret (p1, demo_mservice)" by (simp add: config_value_free)
  then show ?thesis using p1 demo_service_info
    by (simp add: container_instance_def init_container_def init_log_def init_config_def init_config_by_file_def
        SetConfigByFileLoader_def loader_Get_def decode_as_def boot_of_def init_param_def demo_machine_def etcd_register_def
        Register_def NewNaming_def PutWithTimeout_def assoc_etcd_def Let_def split_beta GetServiceConfigPath_def dir_of_def
        GetExecName_def file_of_def)
qed

definition demo_online_config :: OnlineConfig where
  "demo_online_config = \<lparr>onMaxCacheSize = 5, onCacheExpireSec = 60\<rparr>"

theorem registered_address_is_served_witness:
  "\<exists>p n s' servers (process :: nat process) r info. online_main (demo_own demo_online_config) demo_machine [] = Ret (p, n, s', servers, process) \<and>
     map_of s' (fst (convert_service_info_to_str info)) = Some ''online_u'' \<and>
     run_steps (\<lambda>_. True) servers process r \<and> Host info @ '':'' @ show_int (Port info) \<in> set (open_socks (server r))"
proof -
  obtain p n s' where b: "container_instance (boot_of demo_machine) no_configs NewNaming [] = Ret (p, n, s')" "\<not> cmutex p"
    "config_of p = [kMServiceConfig \<mapsto> IsMService demo_mservice]" using demo_machine_boots by blast
  have k: "kOnlineConfig \<noteq> kMServiceConfig" by (simp add: kOnlineConfig_def kMServiceConfig_def)
  obtain p1 where p1: "SetConfig kOnlineConfig (Inr (IsOnline demo_online_config)) p = Ret (p1, None)" "\<not> cmutex p1"
    "config_of p1 = (config_of p)(kOnlineConfig \<mapsto> IsOnline demo_online_config)"
    using SetConfig_ok [OF b(2), of kOnlineConfig "IsOnline demo_online_config"] b(3) k by auto
  have "own_config kOnlineConfig (decode_as IsOnline (demo_own demo_online_config)) demo_machine s' p = Ret (p1, None)"
    using p1(1) by (simp add: own_config_def own_config_by_file_def SetConfigByFileLoader_def loader_Get_def decode_as_def demo_own_def
        demo_machine_def GetConfigPath_def GetExecPath_def init_param_def)
  moreover have "config_value kMServiceConfig as_mservice p1 = Ret (p1, demo_mservice)"
    using p1(2,3) b(3) k by (simp add: config_value_free)
  ultimately obtain servers and process :: "nat process" where
    m: "online_main (demo_own demo_online_config) demo_machine [] = Ret (p1, n, s', servers, process)"
    using b(1) by (simp add: online_main_def program_main_def container_run_def Run_def)
  have e: "GetExecName (executable demo_machine) = ''online''" "uuid demo_machine = ''u''" "etcd demo_machine = assoc_etcd"
    by (simp_all add: demo_machine_def GetExecName_def file_of_def)
  have laws: "etcd_laws (etcd demo_machine) map_of" by (simp add: e assoc_etcd_laws)
  from registered_address_is_served [OF laws disjI2 [OF disjI1 [OF refl]] m]
  obtain info where i: "map_of s' = (map_of [])(fst (convert_service_info_to_str info) \<mapsto> ServiceId info)"
    "Name info = GetExecName (executable demo_machine)" "ServiceId info = Name info @ ''_'' @ uuid demo_machine"
    and r: "\<forall>listen. (\<forall>x\<in>set servers. listen (listen_addr x)) \<longrightarrow>
      (\<exists>r. run_steps listen servers process r \<and> start_at r = Waiting \<and> Host info @ '':'' @ show_int (Port info) \<in> set (open_socks (server r)))"
    by blast
  have "\<exists>r. run_steps (\<lambda>_. True) servers process r \<and> Host info @ '':'' @ show_int (Port info) \<in> set (open_socks (server r))"
    using r [THEN spec, of "\<lambda>_. True"] by auto
  moreover have "map_of s' (fst (convert_service_info_to_str info)) = Some ''online_u''" using i e by simp
  ultimately show ?thesis using m by blast
qed

end
