(* ===== verification/GatewayServer.thy ===== *)
theory GatewayServer
  imports Gateway TcpServer
begin

text \<open>
  The gateway as one process: the two handlers of \<open>Gateway\<close> on the server of \<open>TcpServer\<close>. Each connection
  has a goroutine that runs the receive loop of \<^verbatim>\<open>src/net/net_core/channel.go\<close>; a handler's call to the
  connection manager is one step, and so is each of the casts, pushes and closings that follow, so that the
  goroutines interleave between any two of them. The elimination timer has a goroutine of its own, and so
  has the send loop of each channel.
\<close>

section \<open>The process\<close>

text \<open>
  What a goroutine has still to do: an effect; one round of the loop over the targets of a push request; the
  second half of \<^verbatim>\<open>PushChannel\<close>, which has found its channel; \<^verbatim>\<open>Close\<close> of a channel; taking an id out of the table.
\<close>

datatype 'j gw_task =
  Do "'j gw_effect"
| PushTo "'j MPushPacket" string
| PushOn nat "'j MGatewayPacket option"
| CloseOn nat
| RemoveId string

text \<open>
  The goroutine of a connection: \<open>wStop\<close> is set when \<^verbatim>\<open>OnMessage\<close> returns an error, which ends the receive
  loop, and \<open>wDone\<close> when the loop has ended and the deferred function runs.
\<close>

record 'j gw_worker =
  wService :: bool
  wTodo :: "'j gw_task list"
  wStop :: bool
  wDone :: bool

record 'j gateway =
  gMgr :: GWUserConnMgr
  gSrv :: "'j MGatewayPacket option TcpServer"
  gWork :: "nat \<rightharpoonup> 'j gw_worker"
  gTimer :: "'j gw_task list"
  gCasts :: "(32 word \<times> ol_req MServicePacket) list"

definition gateway_start :: "int \<Rightarrow> int \<Rightarrow> 'j gateway" where
  "gateway_start n h =
     \<lparr>gMgr = GetUserConnsInstance n h, gSrv = NetServer, gWork = Map.empty, gTimer = [], gCasts = []\<rparr>"

text \<open>
  The handlers ignore the errors of \<open>PushChannel\<close> and \<open>CloseChannel\<close>. Both look into the table of channels and
  then work on the channel they found, two accesses that other goroutines can come between. The result
  has the tasks that come first now.
\<close>

fun run_task :: "'j gw_task \<Rightarrow> 'j gateway \<Rightarrow> ('j gateway \<times> 'j gw_task list) outcome" where
  "run_task (Do (Casts h q)) g = Ret (g\<lparr>gCasts := gCasts g @ [(h, q)]\<rparr>, [])"
| "run_task (Do (Pushes cid x)) g =
     (case channels_Get (gSrv g) cid of None \<Rightarrow> Ret (g, []) | Some k \<Rightarrow> Ret (g, [PushOn k x]))"
| "run_task (Do (Closes cid)) g =
     (case channels_LoadAndDelete (gSrv g) cid of
        (s, None) \<Rightarrow> Ret (g\<lparr>gSrv := s\<rparr>, [])
      | (s, Some k) \<Rightarrow> Ret (g\<lparr>gSrv := s\<rparr>, [CloseOn k]))"
| "run_task (PushTo packet uid) g = obind (push_loop packet [uid] (gMgr g)) (\<lambda>(m, outs). Ret (g\<lparr>gMgr := m\<rparr>, map Do outs))"
| "run_task (PushOn k x) g = obind (Push (chans (gSrv g) k) x) (\<lambda>(c, _). Ret (g\<lparr>gSrv := set_channel (gSrv g) k c\<rparr>, []))"
| "run_task (CloseOn k) g = obind (Close (chans (gSrv g) k)) (\<lambda>(c, _). Ret (g\<lparr>gSrv := set_channel (gSrv g) k c\<rparr>, []))"
| "run_task (RemoveId i) g = Ret (g\<lparr>gSrv := channels_Remove (gSrv g) i\<rparr>, [])"

definition service_tasks :: "'j ms_body MServicePacket \<Rightarrow> 'j gw_task list outcome" where
  "service_tasks mpacket =
     (if Service (Header mpacket) \<noteq> GW_SERVICE_NAME then Ret []
      else case Body mpacket of
        MsPushReq req \<Rightarrow> Ret (map (PushTo (convert_push_packets req)) (pushUids req))
      | MsJson j \<Rightarrow> Crash)"

text \<open>What a step is: \<open>Msg k cmd uid\<close> is a packet of a client, handled on the connection \<open>k\<close>.\<close>

datatype gw_event = Accepts nat | Msg nat string string | Requests nat | Works nat | Ticks | TimerWorks | Sends nat | Finishes nat | Leaves nat

text \<open>
  The clock and the draws of a call are those of its \<open>env\<close>. A channel id is a new KSUID. The receive loop of a
  connection can end when its goroutine has nothing to do: its read has failed or \<^verbatim>\<open>OnMessage\<close> has returned
  an error. Then the goroutine closes the channel, takes its id out of the table and is gone;
  \<^verbatim>\<open>OnClose\<close> of the handler is not called.
\<close>

inductive gw_step :: "GatewayHandle \<Rightarrow> 'j gateway \<Rightarrow> gw_event \<Rightarrow> 'j gateway \<Rightarrow> bool" for p where
  gw_accept: "i \<noteq> '''' \<Longrightarrow> \<forall>k<chan_count (gSrv g). channelId (chans (gSrv g) k) \<noteq> i \<Longrightarrow>
    accept_conn (gSrv g) (Inr i) = (s, Some k) \<Longrightarrow>
    gw_step p g (Accepts k) (g\<lparr>gSrv := s,
      gWork := (gWork g)(k \<mapsto> \<lparr>wService = service, wTodo = [], wStop = False, wDone = False\<rparr>)\<rparr>)"
| gw_message: "gWork g k = Some w \<Longrightarrow> wTodo w = [] \<Longrightarrow> \<not> wStop w \<Longrightarrow> \<not> wDone w \<Longrightarrow> \<not> wService w \<Longrightarrow> draws_ok (gwDraws env) \<Longrightarrow>
    gw_OnMessage env p (channelId (chans (gSrv g) k)) packet (gMgr g) = Ret (m, outs, err) \<Longrightarrow>
    gw_step p g (Msg k (gwCmd (gwHeader packet)) (gwUid (gwHeader packet)))
      (g\<lparr>gMgr := m, gWork := (gWork g)(k \<mapsto> w\<lparr>wTodo := map Do outs, wStop := err \<noteq> None\<rparr>)\<rparr>)"
| gw_request: "gWork g k = Some w \<Longrightarrow> wTodo w = [] \<Longrightarrow> \<not> wStop w \<Longrightarrow> \<not> wDone w \<Longrightarrow> wService w \<Longrightarrow> service_tasks mpacket = Ret ts \<Longrightarrow>
    gw_step p g (Requests k) (g\<lparr>gWork := (gWork g)(k \<mapsto> w\<lparr>wTodo := ts\<rparr>)\<rparr>)"
| gw_work: "gWork g k = Some w \<Longrightarrow> wTodo w = t # ts \<Longrightarrow> run_task t g = Ret (g', first) \<Longrightarrow>
    gw_step p g (Works k) (g'\<lparr>gWork := (gWork g)(k \<mapsto> w\<lparr>wTodo := first @ ts\<rparr>)\<rparr>)"
| gw_tick: "gTimer g = [] \<Longrightarrow> 0 \<le> gwNow env \<Longrightarrow> gw_OnTimer env ''eliminate_user'' (gMgr g) = Ret (m, outs) \<Longrightarrow>
    gw_step p g Ticks (g\<lparr>gMgr := m, gTimer := map Do outs\<rparr>)"
| gw_timer_work: "gTimer g = t # ts \<Longrightarrow> run_task t g = Ret (g', first) \<Longrightarrow>
    gw_step p g TimerWorks (g'\<lparr>gTimer := first @ ts\<rparr>)"
| gw_send: "take_packet (gSrv g) k = Ret (s, x) \<Longrightarrow> gw_step p g (Sends k) (g\<lparr>gSrv := s\<rparr>)"
| gw_finish: "gWork g k = Some w \<Longrightarrow> wTodo w = [] \<Longrightarrow> \<not> wDone w \<Longrightarrow>
    gw_step p g (Finishes k)
      (g\<lparr>gWork := (gWork g)(k \<mapsto> w\<lparr>wTodo := [CloseOn k, RemoveId (channelId (chans (gSrv g) k))], wDone := True\<rparr>)\<rparr>)"
| gw_leave: "gWork g k = Some w \<Longrightarrow> wTodo w = [] \<Longrightarrow> wDone w \<Longrightarrow> gw_step p g (Leaves k) (g\<lparr>gWork := (gWork g)(k := None)\<rparr>)"

inductive_cases gw_stepE: "gw_step p g e g'"
inductive_cases gw_leaveE: "gw_step p g (Leaves k) g'"

inductive gw_steps :: "GatewayHandle \<Rightarrow> 'j gateway \<Rightarrow> gw_event list \<Rightarrow> 'j gateway \<Rightarrow> bool" for p where
  gw_stay: "gw_steps p g [] g"
| gw_go: "gw_steps p g es g1 \<Longrightarrow> gw_step p g1 e g2 \<Longrightarrow> gw_steps p g (es @ [e]) g2"

text \<open>
  Without other steps in between, the tasks of a push request are the effects of \<open>service_OnMessage\<close>, and the
  pieces of an access to a channel are the operations of \<open>TcpServer\<close>.
\<close>

fun task_effects :: "GWUserConnMgr \<Rightarrow> 'j gw_task \<Rightarrow> 'j gw_effect list" where
  "task_effects m (PushTo packet uid) = push_out m packet uid"
| "task_effects m (Do e) = [e]"
| "task_effects m _ = []"

lemma service_tasks_effects:
  assumes "mgr_ok m \<sigma>"
  shows "service_OnMessage mpacket m = obind (service_tasks mpacket) (\<lambda>ts. Ret (m, concat (map (task_effects m) ts), None))"
  by (auto simp: service_OnMessage_def service_tasks_def push_loop_ok [OF assms] comp_def split: ms_body.split)

lemma PushTo_effects: "mgr_ok (gMgr g) \<sigma> \<Longrightarrow> run_task (PushTo packet uid) g = Ret (g, map Do (task_effects (gMgr g) (PushTo packet uid)))"
  by (simp add: push_loop_ok [of "gMgr g" \<sigma>] del: push_loop.simps)

definition run_both :: "'j gw_task \<Rightarrow> 'j gateway \<Rightarrow> 'j gateway outcome" where
  "run_both t g = obind (run_task t g) (\<lambda>(g, first). case first of [] \<Rightarrow> Ret g | t # _ \<Rightarrow> obind (run_task t g) (\<lambda>(g, _). Ret g))"

lemma run_both_push: "run_both (Do (Pushes cid x)) g = obind (PushChannel (gSrv g) cid x) (\<lambda>(s, _). Ret (g\<lparr>gSrv := s\<rparr>))"
  by (cases "channels_Get (gSrv g) cid"; cases "Push (chans (gSrv g) (the (channels_Get (gSrv g) cid))) x")
    (auto simp: run_both_def PushChannel_def)

lemma run_both_close: "run_both (Do (Closes cid)) g = obind (CloseChannel (gSrv g) cid) (\<lambda>(s, _). Ret (g\<lparr>gSrv := s\<rparr>))"
  by (cases "chmap (gSrv g) cid"; cases "Close (chans (gSrv g) (the (chmap (gSrv g) cid)))")
    (auto simp: run_both_def CloseChannel_def channels_LoadAndDelete_def)

lemma Close_id: "Close c = Ret (c', err) \<Longrightarrow> channelId c' = channelId c"
  by (cases "chan_close (Some (chSend c))") (auto simp: Close_def)

lemma run_finish: "obind (run_task (CloseOn k) g) (\<lambda>(g, _). run_task (RemoveId (channelId (chans (gSrv g) k))) g) =
    obind (finish_conn (gSrv g) k) (\<lambda>s. Ret (g\<lparr>gSrv := s\<rparr>, []))"
  by (cases "Close (chans (gSrv g) k)") (auto simp: finish_conn_def set_channel_def dest: Close_id)

section \<open>The table of the server\<close>

text \<open>Pushing and sending leave all this alone.\<close>

definition idents :: "'p TcpServer \<Rightarrow> nat \<times> (string \<rightharpoonup> nat) \<times> (nat \<Rightarrow> string) \<times> (nat \<Rightarrow> bool)" where
  "idents s = (chan_count s, chmap s, \<lambda>k. channelId (chans s k), \<lambda>k. connOpen (chans s k))"

definition chans_ok :: "'p TcpServer \<Rightarrow> bool" where
  "chans_ok s \<longleftrightarrow> (\<forall>i k. chmap s i = Some k \<longrightarrow> k < chan_count s \<and> channelId (chans s k) = i \<and> i \<noteq> '''') \<and>
     (\<forall>j<chan_count s. \<forall>k<chan_count s. channelId (chans s j) = channelId (chans s k) \<longrightarrow> j = k)"

definition listed :: "'p TcpServer \<Rightarrow> nat \<Rightarrow> bool" where
  "listed s k \<longleftrightarrow> chmap s (channelId (chans s k)) = Some k"

text \<open>A channel is closed by others only after its id has left the table.\<close>

fun task_ok :: "'p TcpServer \<Rightarrow> 'j gw_task \<Rightarrow> bool" where
  "task_ok s (CloseOn k) \<longleftrightarrow> k < chan_count s \<and> \<not> listed s k"
| "task_ok s (RemoveId i) \<longleftrightarrow> False"
| "task_ok s _ \<longleftrightarrow> True"

text \<open>
  \<open>F\<close> are the tasks of the timer and of the goroutines in their receive loops, which are \<open>A\<close>, and \<open>D\<close> has
  what the ending ones have still to do. An open channel is in the table or about to be closed; a closed
  one is in the table only until its own goroutine takes it out.
\<close>

definition table_ok :: "'p TcpServer \<Rightarrow> 'j gw_task set \<Rightarrow> nat set \<Rightarrow> (nat \<rightharpoonup> 'j gw_task list) \<Rightarrow> bool" where
  "table_ok s F A D \<longleftrightarrow> chans_ok s \<and> (\<forall>t\<in>F. task_ok s t) \<and> A \<union> dom D \<subseteq> {..<chan_count s} \<and>
     (\<forall>k ts. D k = Some ts \<longrightarrow> ts = [CloseOn k, RemoveId (channelId (chans s k))] \<or>
        ts \<in> {[RemoveId (channelId (chans s k))], []} \<and> \<not> connOpen (chans s k)) \<and>
     (\<forall>k<chan_count s. connOpen (chans s k) \<longrightarrow> k \<in> A \<union> dom D \<and> (listed s k \<or> CloseOn k \<in> F \<or> D k \<noteq> None)) \<and>
     (\<forall>k<chan_count s. \<not> connOpen (chans s k) \<and> listed s k \<longrightarrow> D k = Some [RemoveId (channelId (chans s k))])"

lemma table_okD:
  assumes "table_ok s F A D"
  shows "chans_ok s" "t \<in> F \<Longrightarrow> task_ok s t" "k \<in> A \<union> dom D \<Longrightarrow> k < chan_count s"
    "D k = Some ts \<Longrightarrow> ts = [CloseOn k, RemoveId (channelId (chans s k))] \<or>
       ts \<in> {[RemoveId (channelId (chans s k))], []} \<and> \<not> connOpen (chans s k)"
    "k < chan_count s \<Longrightarrow> connOpen (chans s k) \<Longrightarrow> k \<in> A \<union> dom D \<and> (listed s k \<or> CloseOn k \<in> F \<or> D k \<noteq> None)"
    "k < chan_count s \<Longrightarrow> \<not> connOpen (chans s k) \<Longrightarrow> listed s k \<Longrightarrow> D k = Some [RemoveId (channelId (chans s k))]"
  using assms unfolding table_ok_def by blast+

lemma table_okI:
  assumes "chans_ok s" "\<And>t. t \<in> F \<Longrightarrow> task_ok s t" "\<And>k. k \<in> A \<union> dom D \<Longrightarrow> k < chan_count s"
    "\<And>k ts. D k = Some ts \<Longrightarrow> ts = [CloseOn k, RemoveId (channelId (chans s k))] \<or>
       ts \<in> {[RemoveId (channelId (chans s k))], []} \<and> \<not> connOpen (chans s k)"
    "\<And>k. k < chan_count s \<Longrightarrow> connOpen (chans s k) \<Longrightarrow> k \<in> A \<union> dom D \<and> (listed s k \<or> CloseOn k \<in> F \<or> D k \<noteq> None)"
    "\<And>k. k < chan_count s \<Longrightarrow> \<not> connOpen (chans s k) \<Longrightarrow> listed s k \<Longrightarrow> D k = Some [RemoveId (channelId (chans s k))]"
  shows "table_ok s F A D"
  using assms unfolding table_ok_def by blast

lemma listed_idents: "idents s' = idents s \<Longrightarrow> listed s' = listed s"
  by (simp add: listed_def idents_def fun_eq_iff)

lemma task_ok_cong: "chan_count s' = chan_count s \<Longrightarrow> listed s' = listed s \<Longrightarrow> task_ok s' = task_ok s"
proof
  fix t :: "'j gw_task"
  assume "chan_count s' = chan_count s" "listed s' = listed s"
  then show "task_ok s' t = task_ok s t" by (cases t) simp_all
qed

lemma table_ok_idents:
  assumes "idents s' = idents s" "table_ok s F A D"
  shows "table_ok s' F A D"
proof -
  have e: "chan_count s' = chan_count s" "chmap s' = chmap s" "\<And>j. channelId (chans s' j) = channelId (chans s j)"
    "\<And>j. connOpen (chans s' j) = connOpen (chans s j)" using assms(1) by (auto simp: idents_def fun_eq_iff)
  note l = listed_idents [OF assms(1)]
  have c: "chans_ok s' = chans_ok s" by (simp add: chans_ok_def e)
  show ?thesis using assms(2) unfolding table_ok_def e l c task_ok_cong [OF e(1) l] .
qed

lemma table_ok_tasks:
  assumes "table_ok s F A D" "\<forall>t\<in>F'. task_ok s t" "\<forall>k. CloseOn k \<in> F \<longrightarrow> CloseOn k \<in> F' \<or> listed s k \<or> \<not> connOpen (chans s k)"
  shows "table_ok s F' A D"
  using assms unfolding table_ok_def by blast

text \<open>What the table does not lose: ids stay what they are, and an issued id that is not in the table never comes back.\<close>

definition srv_grows :: "'p TcpServer \<Rightarrow> 'p TcpServer \<Rightarrow> bool" where
  "srv_grows s s' \<longleftrightarrow> chan_count s \<le> chan_count s' \<and>
     (\<forall>k<chan_count s. channelId (chans s' k) = channelId (chans s k) \<and>
        (chmap s (channelId (chans s k)) = None \<longrightarrow> chmap s' (channelId (chans s k)) = None))"

lemma srv_grows_refl [simp]: "srv_grows s s"
  by (simp add: srv_grows_def)

lemma srv_grows_trans: "srv_grows s s' \<Longrightarrow> srv_grows s' s'' \<Longrightarrow> srv_grows s s''"
  unfolding srv_grows_def by (metis order_less_le_trans order_trans)

lemma idents_grows: "idents s' = idents s \<Longrightarrow> srv_grows s s'"
  by (simp add: srv_grows_def idents_def fun_eq_iff)

lemma unlisted_None: "chans_ok s \<Longrightarrow> k < chan_count s \<Longrightarrow> \<not> listed s k \<Longrightarrow> chmap s (channelId (chans s k)) = None"
  by (cases "chmap s (channelId (chans s k))") (auto simp: chans_ok_def listed_def)

subsection \<open>The accesses\<close>

lemma idents_set_channel:
  assumes "channelId c = channelId (chans s k)" "connOpen c = connOpen (chans s k)"
  shows "idents (set_channel s k c) = idents s"
  using assms by (auto simp: idents_def set_channel_def fun_eq_iff)

lemma push_idents: "chan_ok (chans s k) \<Longrightarrow> Push (chans s k) x = Ret (c, err) \<Longrightarrow> idents (set_channel s k c) = idents s \<and> chan_ok c"
  using Push_ok [of "chans s k" x] by (auto intro!: idents_set_channel simp: chan_ok_def split: if_splits)

lemma take_idents:
  assumes "\<forall>k. chan_ok (chans s k)" "take_packet s k = Ret (s', x)"
  shows "idents s' = idents s \<and> (\<forall>k. chan_ok (chans s' k))"
proof -
  have c: "chan_ok (chans s k)" using assms(1) by blast
  obtain q where q: "chan_recv (chSend (chans s k)) = Ret (q, x)" "s' = set_channel s k ((chans s k)\<lparr>chSend := q\<rparr>)"
    using assms(2) by (auto simp: take_packet_def obind_Ret)
  have "chan_ok ((chans s k)\<lparr>chSend := q\<rparr>)"
    using q(1) c by (cases "buf (chSend (chans s k))") (auto simp: chan_recv_def chan_ok_def split: if_splits)
  then show ?thesis using assms(1) q(2) by (simp add: idents_set_channel) (simp add: set_channel_def)
qed

lemma close_idents:
  assumes "chan_ok (chans s k)" "Close (chans s k) = Ret (c, err)"
  shows "idents (set_channel s k c) = (chan_count s, chmap s, \<lambda>j. channelId (chans s j), (\<lambda>j. connOpen (chans s j))(k := False)) \<and> chan_ok c"
  using Close_ok [OF assms(1)] assms by (auto simp: set_channel_def idents_def fun_eq_iff chan_ok_def split: if_splits)

text \<open>Closing a channel that is out of the table, or by its own goroutine.\<close>

lemma table_ok_close:
  assumes t: "table_ok s F A D" and i: "idents s' = (chan_count s, chmap s, \<lambda>j. channelId (chans s j), (\<lambda>j. connOpen (chans s j))(k := False))"
  shows "\<not> listed s k \<Longrightarrow> table_ok s' F A D"
    "D k = Some [CloseOn k, RemoveId (channelId (chans s k))] \<Longrightarrow> table_ok s' F A (D(k \<mapsto> [RemoveId (channelId (chans s k))]))"
    "srv_grows s s'"
proof -
  have e: "chan_count s' = chan_count s" "chmap s' = chmap s" "\<And>j. channelId (chans s' j) = channelId (chans s j)"
    "\<And>j. connOpen (chans s' j) = (connOpen (chans s j) \<and> j \<noteq> k)" using i by (auto simp: idents_def fun_eq_iff)
  then have l: "listed s' = listed s" by (simp add: listed_def fun_eq_iff)
  note o = task_ok_cong [OF e(1) l]
  have c: "chans_ok s' = chans_ok s" by (simp add: chans_ok_def e)
  show "table_ok s' F A D" if "\<not> listed s k"
  proof (rule table_okI, unfold e l o c, goal_cases)
    case (4 j ts) then show ?case using table_okD(4) [OF t, of j ts] by auto
  next
    case (5 j) then show ?case using table_okD(5) [OF t, of j] by auto
  next
    case (6 j) then show ?case using table_okD(6) [OF t, of j] that by auto
  qed (rule table_okD(1) [OF t], rule table_okD(2) [OF t], assumption, rule table_okD(3) [OF t])
  show "table_ok s' F A (D(k \<mapsto> [RemoveId (channelId (chans s k))]))" if d: "D k = Some [CloseOn k, RemoveId (channelId (chans s k))]"
  proof (rule table_okI, unfold e l o c, goal_cases)
    case (3 j) then show ?case using table_okD(3) [OF t, of j] d by (auto split: if_splits)
  next
    case (4 j ts) then show ?case using table_okD(4) [OF t, of j ts] by (auto split: if_splits)
  next
    case (5 j) then show ?case using table_okD(5) [OF t, of j] by auto
  next
    case (6 j) then show ?case using table_okD(6) [OF t, of j] by auto
  qed (rule table_okD(1) [OF t], rule table_okD(2) [OF t])
  show "srv_grows s s'" by (simp add: srv_grows_def e)
qed

text \<open>Taking an id out of the table: by \<^verbatim>\<open>LoadAndDelete\<close>, and by the channel's own goroutine.\<close>

lemma table_ok_remove:
  assumes t: "table_ok s F A D" and k: "k < chan_count s"
  shows "table_ok (channels_Remove s (channelId (chans s k))) (F \<union> {CloseOn k}) A D"
    "D k = Some [RemoveId (channelId (chans s k))] \<Longrightarrow>
       table_ok (channels_Remove s (channelId (chans s k))) F A (D(k \<mapsto> []))"
    "srv_grows s (channels_Remove s i)"
proof -
  let ?s = "channels_Remove s (channelId (chans s k))"
  have e: "chan_count ?s = chan_count s" "chans ?s = chans s" by (simp_all add: channels_Remove_def)
  have l: "listed ?s j = (listed s j \<and> j \<noteq> k)" if "j < chan_count s" for j
    using table_okD(1) [OF t] k that by (auto simp: listed_def channels_Remove_def chans_ok_def)
  have o: "task_ok ?s x" if "task_ok s x" for x :: "'b gw_task" using that l by (cases x) (auto simp: e)
  have c: "chans_ok ?s" using table_okD(1) [OF t] by (auto simp: chans_ok_def channels_Remove_def)
  show "table_ok ?s (F \<union> {CloseOn k}) A D"
  proof (rule table_okI, unfold e, goal_cases)
    case (2 x) then show ?case using table_okD(2) [OF t, of x] o l k by (auto simp: e)
  next
    case (5 j) then show ?case using table_okD(5) [OF t, of j] l [of j] by auto
  next
    case (6 j) then show ?case using table_okD(6) [OF t, of j] l [of j] by auto
  qed (rule c, rule table_okD(3) [OF t], assumption, rule table_okD(4) [OF t])
  show "table_ok ?s F A (D(k \<mapsto> []))" if d: "D k = Some [RemoveId (channelId (chans s k))]"
  proof -
    have n: "\<not> connOpen (chans s k)" using table_okD(4) [OF t d] by auto
    show ?thesis
    proof (rule table_okI, unfold e, goal_cases)
      case (2 x) then show ?case using table_okD(2) [OF t, of x] o by simp
    next
      case (3 j) then show ?case using table_okD(3) [OF t, of j] k by (auto split: if_splits)
    next
      case (4 j ts) then show ?case using table_okD(4) [OF t, of j ts] n by (auto split: if_splits)
    next
      case (5 j) then show ?case using table_okD(5) [OF t, of j] l [of j] n by (cases "j = k") auto
    next
      case (6 j) then show ?case using table_okD(6) [OF t, of j] l [of j] by auto
    qed (rule c)
  qed
  show "srv_grows s (channels_Remove s i)" by (simp add: srv_grows_def channels_Remove_def)
qed

end
