(* ===== verification/GatewayRuns.thy ===== *)
theory GatewayRuns
  imports GatewayServer
begin

text \<open>
  The runs of the process of \<open>GatewayServer\<close>: an invariant of users, channels and goroutines that every step
  keeps, whatever the interleaving, and what becomes of a user whose connection ends.
\<close>

section \<open>The invariant of the process\<close>

text \<open>
  The users are those of the manager, at most \<open>n\<close>; each has the id of a channel that was opened.
\<close>

definition users_ok :: "int \<Rightarrow> GWUserConnMgr \<Rightarrow> bool" where
  "users_ok n m \<longleftrightarrow> (\<exists>\<sigma>. mgr_ok m \<sigma>) \<and> max_conn_size m = n \<and> int (users_of m) \<le> max 0 n"

definition users_placed :: "GWUserConnMgr \<Rightarrow> 'p TcpServer \<Rightarrow> bool" where
  "users_placed m s \<longleftrightarrow> (\<forall>uid u. user_conns m uid = Some u \<longrightarrow> (\<exists>k<chan_count s. channelId (chans s k) = ChannelId u))"

definition tasks_of :: "'j gw_worker option \<Rightarrow> 'j gw_task set" where
  "tasks_of w = (case w of None \<Rightarrow> {} | Some w \<Rightarrow> if wDone w then {} else set (wTodo w))"

definition free_tasks :: "'j gateway \<Rightarrow> 'j gw_task set" where
  "free_tasks g = set (gTimer g) \<union> (\<Union>k. tasks_of (gWork g k))"

definition active :: "'j gateway \<Rightarrow> nat set" where
  "active g = {k. \<exists>w. gWork g k = Some w \<and> \<not> wDone w}"

definition ending :: "'j gateway \<Rightarrow> nat \<rightharpoonup> 'j gw_task list" where
  "ending g k = (case gWork g k of None \<Rightarrow> None | Some w \<Rightarrow> if wDone w then Some (wTodo w) else None)"

definition gateway_ok :: "int \<Rightarrow> 'j gateway \<Rightarrow> bool" where
  "gateway_ok n g \<longleftrightarrow> users_ok n (gMgr g) \<and> users_placed (gMgr g) (gSrv g) \<and> (\<forall>k. chan_ok (chans (gSrv g) k)) \<and>
     table_ok (gSrv g) (free_tasks g) (active g) (ending g)"

lemma gateway_okD:
  assumes "gateway_ok n g"
  shows "\<exists>\<sigma>. mgr_ok (gMgr g) \<sigma>" "\<forall>k. chan_ok (chans (gSrv g) k)" "table_ok (gSrv g) (free_tasks g) (active g) (ending g)"
    "gWork g k = Some w \<Longrightarrow> k < chan_count (gSrv g)"
    "user_conns (gMgr g) uid = Some u \<Longrightarrow> \<exists>k<chan_count (gSrv g). channelId (chans (gSrv g) k) = ChannelId u"
proof -
  show t: "table_ok (gSrv g) (free_tasks g) (active g) (ending g)" using assms by (simp add: gateway_ok_def)
  show "k < chan_count (gSrv g)" if "gWork g k = Some w"
    using table_okD(3) [OF t, of k] that by (cases "wDone w") (auto simp: active_def ending_def dom_def)
qed (use assms in \<open>auto simp: gateway_ok_def users_ok_def users_placed_def\<close>)

lemma users_placed_grows: "users_placed m s \<Longrightarrow> srv_grows s s' \<Longrightarrow> users_placed m s'"
  unfolding users_placed_def srv_grows_def by (metis order_less_le_trans)

lemma gw_OnMessage_users:
  assumes m: "mgr_ok m \<sigma>" and d: "draws_ok (gwDraws env)" and r: "gw_OnMessage env p ch req m = Ret (m', outs, err)"
  shows "(m' = m \<or> mgr_step m m') \<and>
    (\<forall>uid u. user_conns m' uid = Some u \<longrightarrow> user_conns m uid = Some u \<or> ChannelId u = ch) \<and>
    (\<forall>uid u. user_conns m uid = Some u \<longrightarrow>
       user_conns m' uid = Some u \<or> gwCmd (gwHeader req) = GW_LOGOUT \<and> gwUid (gwHeader req) = uid)"
proof -
  let ?uid = "gwUid (gwHeader req)"
  consider "gwCmd (gwHeader req) = GW_LOGIN" | "gwCmd (gwHeader req) = GW_LOGOUT" | "gwCmd (gwHeader req) = GW_HEARTBEAT"
    | "gwCmd (gwHeader req) = GW_CMD" | "gwCmd (gwHeader req) \<notin> {GW_LOGIN, GW_LOGOUT, GW_HEARTBEAT, GW_CMD}" by blast
  then show ?thesis
  proof cases
    case 1
    obtain e where a: "AddUserConn m ?uid ch (gwNow env) (gwDraws env) = Ret (m', e)"
      using gw_do_login_ok [OF m d, of p ch req] r 1 by (auto simp: gw_OnMessage_def Let_def)
    then have "user_conns m ?uid = None \<and> user_conns m' = (user_conns m)(?uid \<mapsto> \<lparr>Uid = ?uid, ChannelId = ch, ConnectTs = gwNow env,
        ExpireTs = i64 (gwNow env + conn_timeout_sec m)\<rparr>) \<or> m' = m"
      using AddUserConn_ok(1) [OF m d, of ?uid ch "gwNow env"] by (auto split: if_splits)
    then show ?thesis using step_add [OF a d] by (auto split: if_splits)
  next
    case 2
    obtain ok where a: "RemoveUserConn m ?uid = Ret (m', ok)"
      using RemoveUserConn_ok [OF m, of ?uid] r 2 gw_names_distinct by (auto simp: gw_OnMessage_def gw_do_logout_def Let_def)
    moreover have "user_conns m' = (user_conns m)(?uid := None)" using RemoveUserConn_ok [OF m, of ?uid] a by auto
    ultimately show ?thesis using step_remove [OF a] 2 by (auto split: if_splits)
  next
    case 3
    obtain ok where a: "RefreshUserConn m ?uid (gwNow env) (gwDraws env) = Ret (m', ok)"
      using RefreshUserConn_ok [OF m d, of ?uid "gwNow env"] r 3 gw_names_distinct
      by (auto simp: gw_OnMessage_def gw_do_heartbeat_def Let_def)
    moreover have "user_conns m' = user_conns m" using RefreshUserConn_ok [OF m d, of ?uid "gwNow env"] a by auto
    ultimately show ?thesis using step_refresh [OF a d] by auto
  next
    case 4
    then have "m' = m" using r gw_OnMessage_cmd [of req env p ch m] by (auto split: gw_body.splits sum.splits)
    then show ?thesis by simp
  next
    case 5
    then have "m' = m" using r gw_OnMessage_other [of req env p ch m] by auto
    then show ?thesis by simp
  qed
qed

lemma gw_OnTimer_users:
  assumes m: "mgr_ok m \<sigma>" and now: "0 \<le> gwNow env" and r: "gw_OnTimer env ''eliminate_user'' m = Ret (m', outs)"
  shows "mgr_step m m' \<and> (\<forall>uid u. user_conns m' uid = Some u \<longrightarrow> user_conns m uid = Some u)"
proof -
  obtain us where a: "EliminateTimeoutUserConns m (gwNow env) = Ret (m', us)"
    using r by (auto simp: gw_OnTimer_def eliminate_user_def obind_Ret)
  define gone where "gone = {uid. \<exists>sc. \<sigma> uid = Some sc \<and> Fin 0 \<le> sc \<and> sc \<le> f64_of_int (gwNow env)}"
  have "user_conns m' = user_conns m |` (- gone)" using EliminateTimeoutUserConns_ok [OF m now gone_def] a by auto
  then show ?thesis using step_eliminate [OF a now] by (auto simp: restrict_map_def split: if_splits)
qed

text \<open>A manager after an operation, with the server it had.\<close>

lemma gateway_ok_manager:
  assumes "gateway_ok n g" "m = gMgr g \<or> mgr_step (gMgr g) m"
    and "\<And>uid u. user_conns m uid = Some u \<Longrightarrow> user_conns (gMgr g) uid = Some u \<or>
      (\<exists>k<chan_count (gSrv g). channelId (chans (gSrv g) k) = ChannelId u)"
  shows "users_ok n m \<and> users_placed m (gSrv g)"
  using assms(2)
proof
  assume st: "mgr_step (gMgr g) m"
  obtain \<sigma> where "mgr_ok (gMgr g) \<sigma>" using gateway_okD(1) [OF assms(1)] by blast
  from mgr_step_bound [OF st this] obtain \<sigma>' where "mgr_ok m \<sigma>'" "max_conn_size m = max_conn_size (gMgr g)"
    "int (users_of m) \<le> max (int (users_of (gMgr g))) (max_conn_size (gMgr g))" by blast
  then have "users_ok n m" using assms(1) by (auto simp: gateway_ok_def users_ok_def)
  moreover have "users_placed m (gSrv g)" unfolding users_placed_def using assms(3) gateway_okD(5) [OF assms(1)] by blast
  ultimately show ?thesis by simp
qed (use assms(1) in \<open>simp add: gateway_ok_def\<close>)

text \<open>A task of the timer or of a goroutine in its loop; \<open>F'\<close> are the tasks afterwards.\<close>

definition same_but_server :: "'j gateway \<Rightarrow> 'j gateway \<Rightarrow> bool" where
  "same_but_server g h \<longleftrightarrow> gMgr h = gMgr g \<and> gWork h = gWork g \<and> gTimer h = gTimer g"

lemma run_free:
  assumes t: "table_ok (gSrv g) F A D" and ok: "\<forall>k. chan_ok (chans (gSrv g) k)" "mgr_ok (gMgr g) \<sigma>" "task_ok (gSrv g) t"
    and r: "run_task t g = Ret (h, first)" and F: "set first \<subseteq> F'" "F \<subseteq> F' \<union> {t}" "F' \<subseteq> F \<union> set first"
  shows "table_ok (gSrv h) F' A D \<and> (\<forall>k. chan_ok (chans (gSrv h) k)) \<and> srv_grows (gSrv g) (gSrv h) \<and> same_but_server g h"
proof -
  have quiet: "table_ok s F' A D \<and> srv_grows (gSrv g) s"
    if "idents s = idents (gSrv g)" "\<forall>x\<in>set first. task_ok (gSrv g) x" "\<forall>k. t \<noteq> CloseOn k" for s
  proof -
    have "table_ok (gSrv g) F' A D"
      by (rule table_ok_tasks [OF t]) (use that table_okD(2) [OF t] F in blast)+
    then show ?thesis using table_ok_idents [OF that(1)] idents_grows [OF that(1)] by blast
  qed
  show ?thesis
  proof (cases "(t, g)" rule: run_task.cases)
    case (1 c q g')
    then show ?thesis using r ok quiet [of "gSrv g"] by (auto simp: same_but_server_def)
  next
    case (2 cid x g')
    then show ?thesis using r ok quiet [of "gSrv g"] by (auto simp: same_but_server_def split: option.splits)
  next
    case (3 cid g')
    show ?thesis
    proof (cases "chmap (gSrv g) cid")
      case None
      then have "h = g\<lparr>gSrv := (gSrv g)\<lparr>chmap := (chmap (gSrv g))(cid := None)\<rparr>\<rparr>" "first = []"
        using r 3 by (auto simp: channels_LoadAndDelete_def)
      moreover have "(chmap (gSrv g))(cid := None) = chmap (gSrv g)" using None by auto
      ultimately show ?thesis using ok quiet [of "gSrv h"] 3 by (auto simp: same_but_server_def idents_def)
    next
      case (Some k)
      then have h: "gSrv h = channels_Remove (gSrv g) cid" "first = [CloseOn k]" "same_but_server g h"
        using r 3 by (auto simp: channels_LoadAndDelete_def channels_Remove_def same_but_server_def)
      have k: "k < chan_count (gSrv g)" "channelId (chans (gSrv g) k) = cid"
        using table_okD(1) [OF t] Some by (auto simp: chans_ok_def)
      note u = table_ok_remove(1) [OF t k(1)]
      have "table_ok (gSrv h) F' A D" unfolding h(1)
        by (rule table_ok_tasks [OF u [unfolded k(2)]]) (use table_okD(2) [OF u [unfolded k(2)]] F h(2) 3 in auto)
      moreover have "\<forall>k. chan_ok (chans (gSrv h) k)" using ok(1) by (simp add: h(1) channels_Remove_def)
      ultimately show ?thesis using table_ok_remove(3) [OF t k(1)] h by simp
    qed
  next
    case (4 packet uid g')
    then have "h = g" "set first \<subseteq> range Do" using r PushTo_effects [OF ok(2), of packet uid] by auto
    then show ?thesis using ok 4 quiet [of "gSrv g"] by (force simp: same_but_server_def)
  next
    case (5 k x g')
    then obtain c e where c: "Push (chans (gSrv g) k) x = Ret (c, e)" "h = g\<lparr>gSrv := set_channel (gSrv g) k c\<rparr>" "first = []"
      using r by (auto simp: obind_Ret)
    have i: "idents (set_channel (gSrv g) k c) = idents (gSrv g) \<and> chan_ok c" by (rule push_idents [OF ok(1) [rule_format] c(1)])
    have "\<forall>j. chan_ok (chans (set_channel (gSrv g) k c) j)" using i ok(1) by (simp add: set_channel_def)
    then show ?thesis using quiet [OF conjunct1 [OF i]] c 5 by (simp add: same_but_server_def)
  next
    case (6 k g')
    then obtain c e where c: "Close (chans (gSrv g) k) = Ret (c, e)" "h = g\<lparr>gSrv := set_channel (gSrv g) k c\<rparr>" "first = []"
      using r by (auto simp: obind_Ret)
    note i = close_idents [OF ok(1) [rule_format] c(1)]
    note u = table_ok_close [OF t conjunct1 [OF i]]
    have l: "\<not> listed (gSrv g) k" using ok(3) 6 by simp
    have "\<not> connOpen (chans (set_channel (gSrv g) k c) k)" using i by (simp add: idents_def fun_eq_iff)
    then have "table_ok (set_channel (gSrv g) k c) F' A D"
      by (intro table_ok_tasks [OF u(1) [OF l]]) (use table_okD(2) [OF u(1) [OF l]] F c(3) 6 in auto)
    moreover have "\<forall>j. chan_ok (chans (set_channel (gSrv g) k c) j)" using i ok(1) by (simp add: set_channel_def)
    ultimately show ?thesis using u(3) c(2) by (simp add: same_but_server_def)
  next
    case (7 i g')
    then show ?thesis using ok(3) by simp
  qed
qed

text \<open>A task of a goroutine that is ending.\<close>

lemma run_ending:
  assumes t: "table_ok (gSrv g) F A D" and ok: "\<forall>k. chan_ok (chans (gSrv g) k)"
    and D: "D k = Some (x # ts)" and r: "run_task x g = Ret (h, first)"
  shows "table_ok (gSrv h) F A (D(k \<mapsto> first @ ts)) \<and> (\<forall>k. chan_ok (chans (gSrv h) k)) \<and> srv_grows (gSrv g) (gSrv h) \<and> same_but_server g h"
proof -
  let ?i = "channelId (chans (gSrv g) k)"
  have k: "k < chan_count (gSrv g)" using table_okD(3) [OF t, of k] D by auto
  consider "x = CloseOn k" "ts = [RemoveId ?i]" | "x = RemoveId ?i" "ts = []" using table_okD(4) [OF t D] by auto
  then show ?thesis
  proof cases
    case 1
    then obtain c e where c: "Close (chans (gSrv g) k) = Ret (c, e)" "h = g\<lparr>gSrv := set_channel (gSrv g) k c\<rparr>" "first = []"
      using r by (auto simp: obind_Ret)
    note i = close_idents [OF ok [rule_format] c(1)]
    have "\<forall>j. chan_ok (chans (set_channel (gSrv g) k c) j)" using i ok by (simp add: set_channel_def)
    then show ?thesis using table_ok_close(2,3) [OF t conjunct1 [OF i]] D 1 c(2,3) by (simp add: same_but_server_def)
  next
    case 2
    then have "h = g\<lparr>gSrv := channels_Remove (gSrv g) ?i\<rparr>" "first = []" using r by simp_all
    then show ?thesis using table_ok_remove(2,3) [OF t k] D 2 ok by (simp add: same_but_server_def) (simp add: channels_Remove_def)
  qed
qed

subsection \<open>The tasks after a step\<close>

lemma free_tasks_split: "free_tasks g = set (gTimer g) \<union> tasks_of (gWork g k) \<union> (\<Union>j\<in>- {k}. tasks_of (gWork g j))"
  unfolding free_tasks_def by blast

lemma free_tasks_update:
  assumes "gWork g' = (gWork g)(k := x)" "gTimer g' = gTimer g"
  shows "tasks_of x \<subseteq> free_tasks g'" "free_tasks g \<subseteq> free_tasks g' \<union> (tasks_of (gWork g k) - tasks_of x)"
    "free_tasks g' \<subseteq> free_tasks g \<union> tasks_of x"
proof -
  have "(\<Union>j\<in>- {k}. tasks_of (gWork g' j)) = (\<Union>j\<in>- {k}. tasks_of (gWork g j))" using assms(1) by auto
  then show "tasks_of x \<subseteq> free_tasks g'" "free_tasks g \<subseteq> free_tasks g' \<union> (tasks_of (gWork g k) - tasks_of x)"
    "free_tasks g' \<subseteq> free_tasks g \<union> tasks_of x"
    using assms by (auto simp: free_tasks_split [of _ k])
qed

lemma free_tasks_same:
  assumes "gWork g' = (gWork g)(k := x)" "gTimer g' = gTimer g" "tasks_of x = {}" "tasks_of (gWork g k) = {}"
  shows "free_tasks g' = free_tasks g"
  using free_tasks_update [OF assms(1,2)] assms(3,4) by blast

lemma worker_update:
  assumes "gWork g k = Some w" "\<not> wDone w" "\<not> wDone w'" "gWork g' = (gWork g)(k \<mapsto> w')" "gTimer g' = gTimer g"
  shows "active g' = active g" "ending g' = ending g" "set (wTodo w') \<subseteq> free_tasks g'"
    "free_tasks g \<subseteq> free_tasks g' \<union> (set (wTodo w) - set (wTodo w'))" "free_tasks g' \<subseteq> free_tasks g \<union> set (wTodo w')"
proof -
  have "tasks_of (gWork g k) = set (wTodo w)" "tasks_of (Some w') = set (wTodo w')" using assms by (simp_all add: tasks_of_def)
  with free_tasks_update [OF assms(4,5)] show "set (wTodo w') \<subseteq> free_tasks g'"
    "free_tasks g \<subseteq> free_tasks g' \<union> (set (wTodo w) - set (wTodo w'))" "free_tasks g' \<subseteq> free_tasks g \<union> set (wTodo w')" by simp_all
qed (use assms in \<open>auto simp: active_def ending_def fun_eq_iff split: if_splits\<close>)

lemma ending_update:
  assumes "gWork g k = Some w" "wDone w" "wDone w'" "gWork g' = (gWork g)(k \<mapsto> w')" "gTimer g' = gTimer g"
  shows "active g' = active g" "ending g' = (ending g)(k \<mapsto> wTodo w')" "free_tasks g' = free_tasks g"
  using assms free_tasks_same [OF assms(4,5)] by (auto simp: active_def ending_def tasks_of_def fun_eq_iff split: if_splits)

lemma finish_update:
  assumes "gWork g k = Some w" "wTodo w = []" "\<not> wDone w" "wDone w'" "gWork g' = (gWork g)(k \<mapsto> w')" "gTimer g' = gTimer g"
  shows "active g' = active g - {k}" "ending g' = (ending g)(k \<mapsto> wTodo w')" "free_tasks g' = free_tasks g" "k \<in> active g" "ending g k = None"
  using assms free_tasks_same [OF assms(5,6)] by (auto simp: active_def ending_def tasks_of_def fun_eq_iff split: if_splits)

lemma leave_update:
  assumes "gWork g k = Some w" "wTodo w = []" "wDone w" "gWork g' = (gWork g)(k := None)" "gTimer g' = gTimer g"
  shows "active g' = active g" "ending g' = (ending g)(k := None)" "free_tasks g' = free_tasks g" "ending g k = Some []"
  using assms free_tasks_same [OF assms(4,5)] by (auto simp: active_def ending_def tasks_of_def fun_eq_iff split: if_splits)

lemma accept_update:
  assumes "gWork g k = None" "wTodo w' = []" "\<not> wDone w'" "gWork g' = (gWork g)(k \<mapsto> w')" "gTimer g' = gTimer g"
  shows "active g' = Set.insert k (active g)" "ending g' = ending g" "free_tasks g' = free_tasks g"
  using assms free_tasks_same [OF assms(4,5)] by (auto simp: active_def ending_def tasks_of_def fun_eq_iff split: if_splits)

lemma timer_update:
  assumes "gWork g' = gWork g" "gTimer g' = ts"
  shows "active g' = active g" "ending g' = ending g" "set ts \<subseteq> free_tasks g'"
    "free_tasks g \<subseteq> free_tasks g' \<union> (set (gTimer g) - set ts)" "free_tasks g' \<subseteq> free_tasks g \<union> set ts"
  using assms by (auto simp: active_def ending_def free_tasks_def fun_eq_iff)

lemma same_tasks:
  assumes "gWork g' = gWork g" "gTimer g' = gTimer g"
  shows "active g' = active g" "ending g' = ending g" "free_tasks g' = free_tasks g"
  using assms by (simp_all add: active_def ending_def free_tasks_def fun_eq_iff)

text \<open>New tasks that are effects of a handler or rounds of a push.\<close>

lemma table_ok_more:
  assumes "table_ok s F A D" "F \<subseteq> F' \<union> G" "F' \<subseteq> F \<union> G'" "\<forall>t\<in>G'. task_ok s t" "\<forall>k. CloseOn k \<notin> G"
  shows "table_ok s F' A D"
  by (rule table_ok_tasks [OF assms(1)]) (use assms(2-5) table_okD(2) [OF assms(1)] in blast)+

lemma service_tasks_ok: "service_tasks mpacket = Ret ts \<Longrightarrow> \<forall>t\<in>set ts. task_ok s t"
  by (auto simp: service_tasks_def split: if_splits ms_body.splits)

lemma accept_table:
  assumes t: "table_ok s F A D" and i: "i \<noteq> ''''" "\<forall>k<chan_count s. channelId (chans s k) \<noteq> i"
    and a: "accept_conn s (Inr i) = (s', Some k)"
  shows "k = chan_count s" "table_ok s' F (Set.insert k A) D" "srv_grows s s'"
    "\<forall>k. chan_ok (chans s k) \<Longrightarrow> \<forall>k. chan_ok (chans s' k)"
proof -
  have "chmap s i = None" using table_okD(1) [OF t] i(2) by (cases "chmap s i") (auto simp: chans_ok_def)
  then have "k = chan_count s \<and> s' = channels_Add ((set_channel s k (NewChannel i))\<lparr>chan_count := Suc k\<rparr>) k"
    using a i(1) by (auto simp: accept_conn_def channels_Get_def Let_def)
  then have s': "chan_count s' = Suc (chan_count s)" "chmap s' = (chmap s)(i \<mapsto> chan_count s)"
    "chans s' = (chans s)(chan_count s := NewChannel i)" and k: "k = chan_count s"
    using i(1) by (auto simp: channels_Add_def set_channel_def NewChannel_def)
  show "k = chan_count s" by (rule k)
  note c = table_okD(1) [OF t]
  have l: "listed s' j = (if j = chan_count s then True else listed s j)" if "j < Suc (chan_count s)" for j
    using that i(2) c by (auto simp: listed_def s' NewChannel_def)
  have o: "task_ok s' x" if "task_ok s x" for x :: "'b gw_task" using that l by (cases x) (auto simp: s')
  have cs: "chans_ok s'" using c i by (auto simp: chans_ok_def s' NewChannel_def less_Suc_eq)
  have d: "D (chan_count s) = None" using table_okD(3) [OF t, of "chan_count s"] by (cases "D (chan_count s)") auto
  show "table_ok s' F (Set.insert k A) D"
  proof (rule table_okI, goal_cases)
    case (2 x) then show ?case using table_okD(2) [OF t] o by blast
  next
    case (3 j) then show ?case using table_okD(3) [OF t, of j] k s'(1) by (auto simp: dom_def)
  next
    case (4 j ts) then show ?case using table_okD(3,4) [OF t, of j] d by (auto simp: s')
  next
    case (5 j) then show ?case using table_okD(5) [OF t, of j] l [of j] k by (cases "j = k") (auto simp: s')
  next
    case (6 j) then show ?case using table_okD(6) [OF t, of j] l [of j] k by (cases "j = k") (auto simp: s' NewChannel_def)
  qed (rule cs)
  show "srv_grows s s'" using i(2) by (auto simp: srv_grows_def s')
  show "\<forall>k. chan_ok (chans s' k)" if "\<forall>k. chan_ok (chans s k)" using that NewChannel_ok by (simp add: s')
qed

text \<open>A goroutine leaves its loop, and is gone.\<close>

lemma table_ok_ending:
  assumes t: "table_ok s F A D" and k: "k < chan_count s" "D k = None" and ts: "ts = [CloseOn k, RemoveId (channelId (chans s k))]"
  shows "table_ok s F (A - {k}) (D(k \<mapsto> ts))"
proof (rule table_okI, goal_cases)
  case (3 j) then show ?case using table_okD(3) [OF t, of j] k(1) by (auto split: if_splits)
next
  case (4 j us) then show ?case using table_okD(4) [OF t, of j us] ts by (auto split: if_splits)
next
  case (5 j) then show ?case using table_okD(5) [OF t, of j] by auto
next
  case (6 j) then show ?case using table_okD(6) [OF t, of j] k(2) by (cases "j = k") auto
qed (rule table_okD(1) [OF t], rule table_okD(2) [OF t])

lemma table_ok_leaving:
  assumes t: "table_ok s F A D" and d: "D k = Some []"
  shows "table_ok s F A (D(k := None))"
proof (rule table_okI, goal_cases)
  case (3 j) then show ?case using table_okD(3) [OF t, of j] by (auto split: if_splits)
next
  case (4 j us) then show ?case using table_okD(4) [OF t, of j us] by (auto split: if_splits)
next
  case (5 j) then show ?case using table_okD(5) [OF t, of j] table_okD(4) [OF t d] by (cases "j = k") auto
next
  case (6 j) then show ?case using table_okD(6) [OF t, of j] d by (cases "j = k") auto
qed (rule table_okD(1) [OF t], rule table_okD(2) [OF t])

subsection \<open>Every step keeps the invariant\<close>

lemma gateway_okI:
  "users_ok n (gMgr g) \<and> users_placed (gMgr g) (gSrv g) \<Longrightarrow> \<forall>k. chan_ok (chans (gSrv g) k) \<Longrightarrow>
     table_ok (gSrv g) (free_tasks g) (active g) (ending g) \<Longrightarrow> gateway_ok n g"
  by (simp add: gateway_ok_def)

lemma gateway_ok_grows:
  "gateway_ok n g \<Longrightarrow> srv_grows (gSrv g) s \<Longrightarrow> users_ok n (gMgr g) \<and> users_placed (gMgr g) s"
  using users_placed_grows by (auto simp: gateway_ok_def)

text \<open>A packet of a client is handled.\<close>

lemma message_ok:
  assumes g: "gateway_ok n g" and w: "gWork g k = Some w" "wTodo w = []" "\<not> wDone w" and d: "draws_ok (gwDraws env)"
    and r: "gw_OnMessage env p (channelId (chans (gSrv g) k)) packet (gMgr g) = Ret (m, outs, err)"
    and g': "g' = g\<lparr>gMgr := m, gWork := (gWork g)(k \<mapsto> w\<lparr>wTodo := map Do outs, wStop := err \<noteq> None\<rparr>)\<rparr>"
  shows "gateway_ok n g'"
proof -
  obtain \<sigma> where m: "mgr_ok (gMgr g) \<sigma>" using gateway_okD(1) [OF g] by blast
  note u = gw_OnMessage_users [OF m d r]
  have um: "users_ok n m \<and> users_placed m (gSrv g)"
  proof (rule gateway_ok_manager [OF g])
    show "m = gMgr g \<or> mgr_step (gMgr g) m" using u by (rule conjunct1)
    fix uid v assume "user_conns m uid = Some v"
    then have "user_conns (gMgr g) uid = Some v \<or> ChannelId v = channelId (chans (gSrv g) k)" using u by metis
    then show "user_conns (gMgr g) uid = Some v \<or> (\<exists>j<chan_count (gSrv g). channelId (chans (gSrv g) j) = ChannelId v)"
      using gateway_okD(4) [OF g w(1)] by metis
  qed
  note wu = worker_update [OF w(1,3), of "w\<lparr>wTodo := map Do outs, wStop := err \<noteq> None\<rparr>" g']
  have "table_ok (gSrv g) (free_tasks g') (active g) (ending g)"
    by (rule table_ok_more [OF gateway_okD(3) [OF g], where G = "{}" and G' = "Do ` set outs"]) (use wu g' w(2,3) in auto)
  then show ?thesis using um gateway_okD(2) [OF g] wu(1,2) g' w(3) by (intro gateway_okI) simp_all
qed

text \<open>A goroutine, or the timer's, does the first of its tasks.\<close>

lemma work_ok:
  assumes g: "gateway_ok n g" and w: "gWork g k = Some w" "wTodo w = t # ts" and r: "run_task t g = Ret (h, first)"
    and g': "g' = h\<lparr>gWork := (gWork g)(k \<mapsto> w\<lparr>wTodo := first @ ts\<rparr>)\<rparr>"
  shows "gateway_ok n g' \<and> srv_grows (gSrv g) (gSrv h) \<and> same_but_server g h"
proof (cases "wDone w")
  case True
  have d: "ending g k = Some (t # ts)" using w True by (simp add: ending_def)
  note r = run_ending [OF gateway_okD(3,2) [OF g] d r]
  have "gateway_ok n g'" using r gateway_ok_grows [OF g, of "gSrv h"] ending_update [OF w(1) True, of "w\<lparr>wTodo := first @ ts\<rparr>" g'] g' True
    by (intro gateway_okI) (simp_all add: same_but_server_def)
  then show ?thesis using r by simp
next
  case False
  obtain \<sigma> where m: "mgr_ok (gMgr g) \<sigma>" using gateway_okD(1) [OF g] by blast
  let ?g = "g\<lparr>gWork := (gWork g)(k \<mapsto> w\<lparr>wTodo := first @ ts\<rparr>)\<rparr>"
  note wu = worker_update [OF w(1) False, of "w\<lparr>wTodo := first @ ts\<rparr>" ?g]
  have T: "set (t # ts) \<subseteq> free_tasks g" using w False unfolding free_tasks_split [of g k] by (auto simp: tasks_of_def)
  then have o: "task_ok (gSrv g) t" using table_okD(2) [OF gateway_okD(3) [OF g], of t] by simp
  have F: "set first \<subseteq> free_tasks ?g" "free_tasks g \<subseteq> free_tasks ?g \<union> {t}" "free_tasks ?g \<subseteq> free_tasks g \<union> set first"
    using wu(3-5) w(2) False T by auto
  note r = run_free [OF gateway_okD(3,2) [OF g] m o r F]
  have "free_tasks g' = free_tasks ?g" "active g' = active g" "ending g' = ending g"
    using same_tasks [of g' ?g] wu(1,2) r g' False by (simp_all add: same_but_server_def)
  then have "gateway_ok n g'" using r gateway_ok_grows [OF g, of "gSrv h"] g'
    by (intro gateway_okI) (simp_all add: same_but_server_def)
  then show ?thesis using r by simp
qed

lemma timer_work_ok:
  assumes g: "gateway_ok n g" and w: "gTimer g = t # ts" and r: "run_task t g = Ret (h, first)" and g': "g' = h\<lparr>gTimer := first @ ts\<rparr>"
  shows "gateway_ok n g' \<and> srv_grows (gSrv g) (gSrv h) \<and> same_but_server g h"
proof -
  obtain \<sigma> where m: "mgr_ok (gMgr g) \<sigma>" using gateway_okD(1) [OF g] by blast
  let ?g = "g\<lparr>gTimer := first @ ts\<rparr>"
  note wu = timer_update [of ?g g "first @ ts"]
  have o: "task_ok (gSrv g) t" using table_okD(2) [OF gateway_okD(3) [OF g], of t] w by (simp add: free_tasks_def)
  have F: "set first \<subseteq> free_tasks ?g" "free_tasks g \<subseteq> free_tasks ?g \<union> {t}" "free_tasks ?g \<subseteq> free_tasks g \<union> set first"
    using w by (auto simp: free_tasks_def)
  note r = run_free [OF gateway_okD(3,2) [OF g] m o r F]
  have "free_tasks g' = free_tasks ?g" "active g' = active g" "ending g' = ending g"
    using same_tasks [of g' ?g] wu(1,2) r g' by (simp_all add: same_but_server_def)
  then have "gateway_ok n g'" using r gateway_ok_grows [OF g, of "gSrv h"] g'
    by (intro gateway_okI) (simp_all add: same_but_server_def)
  then show ?thesis using r by simp
qed

text \<open>Only a logout and the timer take users out.\<close>

lemma gw_step_ok:
  assumes "gw_step p g e g'" and g: "gateway_ok n g"
  shows "gateway_ok n g' \<and> srv_grows (gSrv g) (gSrv g') \<and>
    (\<forall>uid u. user_conns (gMgr g) uid = Some u \<longrightarrow>
       user_conns (gMgr g') uid = Some u \<or> e = Ticks \<or> (\<exists>k. e = Msg k GW_LOGOUT uid))"
  using assms(1)
proof (elim gw_stepE, goal_cases)
  case (1 i s k service)
  note a = accept_table [OF gateway_okD(3) [OF g] 1(3-5)]
  have "gWork g k = None" using gateway_okD(4) [OF g, of k] a(1) by (cases "gWork g k") auto
  then have "gateway_ok n g'"
    using accept_update [of g k _ g'] a(2) a(4) [OF gateway_okD(2) [OF g]] gateway_ok_grows [OF g a(3)] 1(2) by (intro gateway_okI) simp_all
  then show ?case using a(3) 1(2) by simp
next
  case (2 k w env packet m outs err)
  obtain \<sigma> where m: "mgr_ok (gMgr g) \<sigma>" using gateway_okD(1) [OF g] by blast
  show ?case using gw_OnMessage_users [OF m 2(8,9)] message_ok [OF g 2(3,4,6,8,9), of g'] 2(1,2) by auto
next
  case (3 k w mpacket ts)
  note w = worker_update [OF 3(3,6), of "w\<lparr>wTodo := ts\<rparr>" g']
  have "table_ok (gSrv g) (free_tasks g') (active g) (ending g)"
    by (rule table_ok_more [OF gateway_okD(3) [OF g], where G = "{}" and G' = "set ts"]) (use w 3(2,4,6) service_tasks_ok [OF 3(8), of "gSrv g"] in auto)
  then have "gateway_ok n g'" using gateway_ok_grows [OF g srv_grows_refl] gateway_okD(2) [OF g] w(1,2) 3(2,6) by (intro gateway_okI) simp_all
  then show ?case using 3(2) by simp
next
  case (4 k w t ts h first)
  show ?case using work_ok [OF g 4(3-5,2)] 4(2) by (simp add: same_but_server_def)
next
  case (5 env m outs)
  obtain \<sigma> where m: "mgr_ok (gMgr g) \<sigma>" using gateway_okD(1) [OF g] by blast
  note u = gw_OnTimer_users [OF m 5(4,5)]
  note w = timer_update [of g' g "map Do outs"]
  have "table_ok (gSrv g) (free_tasks g') (active g) (ending g)"
    by (rule table_ok_more [OF gateway_okD(3) [OF g], where G = "{}" and G' = "Do ` set outs"]) (use w 5(2,3) in auto)
  then have "gateway_ok n g'" using gateway_ok_manager [OF g, of m] u gateway_okD(2) [OF g] w(1,2) 5(2) by (intro gateway_okI) simp_all
  then show ?case using 5(1,2) by simp
next
  case (6 t ts h first)
  show ?case using timer_work_ok [OF g 6(3,4,2)] 6(2) by (simp add: same_but_server_def)
next
  case (7 k s x)
  note s = take_idents [OF gateway_okD(2) [OF g] 7(3)]
  have "gateway_ok n g'"
    using s table_ok_idents [OF conjunct1 [OF s] gateway_okD(3) [OF g]] gateway_ok_grows [OF g idents_grows [OF conjunct1 [OF s]]] same_tasks [of g' g] 7(2)
    by (intro gateway_okI) simp_all
  then show ?case using idents_grows [OF conjunct1 [OF s]] 7(2) by simp
next
  case (8 k w)
  let ?w = "w\<lparr>wTodo := [CloseOn k, RemoveId (channelId (chans (gSrv g) k))], wDone := True\<rparr>"
  have w: "active g' = active g - {k}" "ending g' = (ending g)(k \<mapsto> wTodo ?w)" "free_tasks g' = free_tasks g" "ending g k = None"
    using finish_update [OF 8(3-5), of ?w g'] 8(2) by simp_all
  have "table_ok (gSrv g) (free_tasks g') (active g') (ending g')" unfolding w
    by (rule table_ok_ending [OF gateway_okD(3) [OF g] gateway_okD(4) [OF g 8(3)] w(4)]) simp_all
  then have "gateway_ok n g'" using gateway_ok_grows [OF g srv_grows_refl] gateway_okD(2) [OF g] 8(2) by (intro gateway_okI) simp_all
  then show ?case using 8(2) by simp
next
  case (9 k w)
  have w: "active g' = active g" "ending g' = (ending g)(k := None)" "free_tasks g' = free_tasks g" "ending g k = Some []"
    using leave_update [OF 9(3-5), of g'] 9(2) by simp_all
  have "table_ok (gSrv g) (free_tasks g') (active g') (ending g')" unfolding w
    by (rule table_ok_leaving [OF gateway_okD(3) [OF g] w(4)])
  then have "gateway_ok n g'" using gateway_ok_grows [OF g srv_grows_refl] gateway_okD(2) [OF g] 9(2) by (intro gateway_okI) simp_all
  then show ?case using 9(2) by simp
qed

section \<open>Runs\<close>

lemma gateway_start_ok: "gateway_ok n (gateway_start n h)"
  using mgr_ok_init [of n h] NetServer_ok
  by (auto simp: gateway_ok_def gateway_start_def users_ok_def users_placed_def table_ok_def chans_ok_def server_ok_def
      free_tasks_def tasks_of_def active_def ending_def GetUserConnsInstance_def NetServer_def users_of_def)

lemma gw_steps_ok:
  assumes "gw_steps p g es g'" "gateway_ok n g"
  shows "gateway_ok n g' \<and> srv_grows (gSrv g) (gSrv g') \<and>
    (\<forall>uid u. user_conns (gMgr g) uid = Some u \<longrightarrow>
       user_conns (gMgr g') uid = Some u \<or> Ticks \<in> set es \<or> (\<exists>k. Msg k GW_LOGOUT uid \<in> set es))"
  using assms
proof induction
  case (gw_stay g)
  then show ?case by simp
next
  case (gw_go g es g1 e g2)
  note i = gw_go.IH [OF gw_go.prems]
  note s = gw_step_ok [OF gw_go.hyps(2) conjunct1 [OF i]]
  have "user_conns (gMgr g2) uid = Some u \<or> Ticks \<in> set (es @ [e]) \<or> (\<exists>k. Msg k GW_LOGOUT uid \<in> set (es @ [e]))"
    if "user_conns (gMgr g) uid = Some u" for uid u
  proof (cases "Ticks \<in> set es \<or> (\<exists>k. Msg k GW_LOGOUT uid \<in> set es)")
    case False
    then have "user_conns (gMgr g1) uid = Some u" using i that by blast
    then show ?thesis using s by (metis in_set_conv_decomp)
  qed auto
  then show ?case using i s srv_grows_trans [of "gSrv g" "gSrv g1" "gSrv g2"] by blast
qed

text \<open>When the goroutine of a connection is gone, so is its id; the manager was not told.\<close>

lemma leave_drops_channel:
  assumes "gw_step p g (Leaves k) g'" "gateway_ok n g"
  shows "k < chan_count (gSrv g) \<and> gMgr g' = gMgr g \<and> gSrv g' = gSrv g \<and> chmap (gSrv g) (channelId (chans (gSrv g) k)) = None"
proof -
  obtain w where w: "g' = g\<lparr>gWork := (gWork g)(k := None)\<rparr>" "gWork g k = Some w" "wTodo w = []" "wDone w"
    using assms(1) by (rule gw_leaveE) blast
  note t = gateway_okD(3) [OF assms(2)] and k = gateway_okD(4) [OF assms(2) w(2)]
  have d: "ending g k = Some []" using w by (simp add: ending_def)
  have "\<not> listed (gSrv g) k" using table_okD(4) [OF t d] table_okD(6) [OF t k] d by auto
  then show ?thesis using unlisted_None [OF table_okD(1) [OF t] k] k w(1) by simp
qed

lemma login_refused:
  assumes "mgr_ok m \<sigma>" "draws_ok (gwDraws env)" "gwCmd (gwHeader req) = GW_LOGIN" "user_conns m (gwUid (gwHeader req)) \<noteq> None"
  shows "gw_OnMessage env p ch req m =
    Ret (m, [Pushes ch (Some (gw_CreateRespPacket (gwUid (gwHeader req)) GW_LOGIN (GWLoginResp eUidAlreadyExists)))], None)"
  using gw_do_login_ok [OF assms(1,2), of p ch req] AddUserConn_ok(1) [OF assms(1,2), of "gwUid (gwHeader req)" ch "gwNow env"]
    assms(3,4) by (auto simp: gw_OnMessage_def Let_def err_text_def)

lemma gw_workI:
  "gWork g k = Some w \<Longrightarrow> wTodo w = t # ts \<Longrightarrow> run_task t g = Ret (h, first) \<Longrightarrow>
     g' = h\<lparr>gWork := (gWork g)(k \<mapsto> w\<lparr>wTodo := first @ ts\<rparr>)\<rparr> \<Longrightarrow> gw_step p g (Works k) g'"
  by (simp add: gw_work)

text \<open>A run: a connection is accepted, its client logs in and is told so, and the connection ends.\<close>

definition demo_handle :: GatewayHandle where "demo_handle = \<lparr>gwHost = ''h'', gwPort = 1\<rparr>"

definition demo_events :: "gw_event list" where
  "demo_events = [Accepts 0, Msg 0 GW_LOGIN ''u1'', Works 0, Works 0, Works 0, Finishes 0, Works 0, Works 0]"

lemma demo_login_run:
  "\<exists>g g1. gw_steps p (gateway_start 1 20 :: unit gateway) demo_events g \<and>
     (\<exists>u. user_conns (gMgr g) ''u1'' = Some u \<and> ChannelId u = channelId (chans (gSrv g) 0)) \<and> gw_step p g (Leaves 0) g1"
proof -
  define req where "req = demo_packet GW_LOGIN (JsonValue ())"
  have r: "gwCmd (gwHeader req) = GW_LOGIN" "gwUid (gwHeader req) = ''u1''" by (simp_all add: req_def demo_packet_def)
  define s :: "unit MGatewayPacket option TcpServer"
    where "s = channels_Add ((set_channel NetServer 0 (NewChannel ''c1''))\<lparr>chan_count := 1\<rparr>) 0"
  have acc: "accept_conn NetServer (Inr ''c1'') = (s, Some 0)"
    by (simp add: accept_conn_def channels_Get_def NetServer_def s_def)
  have s: "channels_Get s ''c1'' = Some 0" "channelId (chans s 0) = ''c1''" "connOpen (chans s 0)" "buf (chSend (chans s 0)) = []"
    by (simp_all add: s_def channels_Add_def set_channel_def NewChannel_def make_chan_def channels_Get_def)
  have sok: "chan_ok (chans s 0)" using server_okD(1) [OF accept_ok [OF NetServer_ok acc]] .
  define w where "w todo d = \<lparr>wService = False, wTodo = todo, wStop = False, wDone = d\<rparr>" for todo :: "unit gw_task list" and d
  define st :: "GWUserConnMgr \<Rightarrow> _" where
    "st m srv todo d casts = \<lparr>gMgr = m, gSrv = srv, gWork = [0 \<mapsto> w todo d], gTimer = [], gCasts = casts\<rparr>" for m srv todo d casts
  note m0 = mgr_ok_init [of 1 20]
  obtain m c x where login: "gw_OnMessage demo_env p ''c1'' req (GetUserConnsInstance 1 20) = Ret (m, [Casts c x,
      Pushes ''c1'' (Some (gw_CreateRespPacket ''u1'' GW_LOGIN (GWLoginResp '''')))], None)"
    and u: "\<exists>u. user_conns m ''u1'' = Some u \<and> ChannelId u = ''c1''"
    using gw_do_login_ok [OF m0 gw_demo_draws, of p "''c1''" req]
      AddUserConn_ok(1) [OF m0 gw_demo_draws, of "''u1''" "''c1''" "gwNow demo_env"] r
    by (auto simp: gw_OnMessage_def Let_def err_text_def login_cast_def Cast_def GetUserConnsInstance_def)
  define resp where "resp = Some (gw_CreateRespPacket ''u1'' GW_LOGIN (GWLoginResp '''') :: unit MGatewayPacket)"
  obtain c2 where push: "Push (chans s 0) resp = Ret (c2, None)" using Push_ok [OF sok, of resp] s(3,4) by simp
  define s2 where "s2 = set_channel s 0 c2"
  have i: "channelId (chans s2 0) = ''c1''" using push_idents [OF sok push] s(2) by (simp add: s2_def idents_def fun_eq_iff)
  have c2: "chan_ok (chans s2 0)" using push_idents [OF sok push] by (simp add: s2_def set_channel_def)
  obtain c3 e where close: "Close (chans s2 0) = Ret (c3, e)" using Close_ok [OF c2] by (auto split: if_splits)
  define s3 where "s3 = set_channel s2 0 c3"
  have 1: "gw_step p (gateway_start 1 20) (Accepts 0) (st (GetUserConnsInstance 1 20) s [] False [])"
    using gw_accept [of "''c1''" "gateway_start 1 20" s 0 p False] acc
    by (simp add: gateway_start_def st_def w_def NetServer_def)
  have 2: "gw_step p (st (GetUserConnsInstance 1 20) s [] False []) (Msg 0 GW_LOGIN ''u1'') (st m s (map Do [Casts c x, Pushes ''c1'' resp]) False [])"
    using gw_message [of "st (GetUserConnsInstance 1 20) s [] False []" 0 "w [] False" demo_env p req m _ None] login r s(2) gw_demo_draws
    by (simp add: st_def w_def resp_def)
  have 3: "gw_step p (st m s (map Do [Casts c x, Pushes ''c1'' resp]) False []) (Works 0) (st m s [Do (Pushes ''c1'' resp)] False [(c, x)])"
    by (rule gw_workI [where w = "w (map Do [Casts c x, Pushes ''c1'' resp]) False" and t = "Do (Casts c x)" and first = "[]" and
          h = "st m s (map Do [Casts c x, Pushes ''c1'' resp]) False [(c, x)]"]) (simp_all add: st_def w_def)
  have 4: "gw_step p (st m s [Do (Pushes ''c1'' resp)] False [(c, x)]) (Works 0) (st m s [PushOn 0 resp] False [(c, x)])"
    by (rule gw_workI [where w = "w [Do (Pushes ''c1'' resp)] False" and t = "Do (Pushes ''c1'' resp)" and first = "[PushOn 0 resp]" and
          h = "st m s [Do (Pushes ''c1'' resp)] False [(c, x)]"])
      (simp_all add: st_def w_def s(1))
  have 5: "gw_step p (st m s [PushOn 0 resp] False [(c, x)]) (Works 0) (st m s2 [] False [(c, x)])"
    by (rule gw_workI [where w = "w [PushOn 0 resp] False" and t = "PushOn 0 resp" and first = "[]" and h = "st m s2 [PushOn 0 resp] False [(c, x)]"])
      (simp_all add: st_def w_def push s2_def)
  have 6: "gw_step p (st m s2 [] False [(c, x)]) (Finishes 0) (st m s2 [CloseOn 0, RemoveId ''c1''] True [(c, x)])"
    using gw_finish [of "st m s2 [] False [(c, x)]" 0 "w [] False" p] i by (simp add: st_def w_def)
  have 7: "gw_step p (st m s2 [CloseOn 0, RemoveId ''c1''] True [(c, x)]) (Works 0) (st m s3 [RemoveId ''c1''] True [(c, x)])"
    by (rule gw_workI [where w = "w [CloseOn 0, RemoveId ''c1''] True" and t = "CloseOn 0" and first = "[]" and
          h = "st m s3 [CloseOn 0, RemoveId ''c1''] True [(c, x)]"])
      (simp_all add: st_def w_def close s3_def)
  let ?last = "st m (channels_Remove s3 ''c1'') [] True [(c, x)]"
  have 8: "gw_step p (st m s3 [RemoveId ''c1''] True [(c, x)]) (Works 0) ?last"
    by (rule gw_workI [where w = "w [RemoveId ''c1''] True" and t = "RemoveId ''c1''" and first = "[]" and
          h = "st m (channels_Remove s3 ''c1'') [RemoveId ''c1''] True [(c, x)]"])
      (simp_all add: st_def w_def)
  have "gw_step p ?last (Leaves 0) (?last\<lparr>gWork := (gWork ?last)(0 := None)\<rparr>)"
    by (rule gw_leave [where w = "w [] True"]) (simp_all add: st_def w_def)
  moreover have "gw_steps p (gateway_start 1 20) ([] @ [Accepts 0] @ [Msg 0 GW_LOGIN ''u1''] @ [Works 0] @ [Works 0] @ [Works 0] @
      [Finishes 0] @ [Works 0] @ [Works 0]) ?last"
    unfolding append_assoc [symmetric] by (rule gw_go gw_stay 1 2 3 4 5 6 7 8)+
  moreover have "\<exists>u. user_conns (gMgr ?last) ''u1'' = Some u \<and> ChannelId u = channelId (chans (gSrv ?last) 0)"
    using u i Close_id [OF close] by (simp add: st_def s3_def set_channel_def channels_Remove_def)
  ultimately show ?thesis unfolding append_Nil append_Cons demo_events_def by blast
qed

section \<open>Properties\<close>



text \<open>
  C13: a user whose connection has ended stays logged in. Once the goroutine of a connection is
  gone, a user of that connection stays in the manager until the elimination timer fires or
  somebody logs the user out: a login of the user, from any connection, is refused because the user
  is there already and changes nothing, and what is pushed to the user's channel is lost, without an
  error that reaches the sender of the push.
\<close>

theorem dropped_user_stays:
  assumes "gw_steps p (gateway_start n h) es g" "user_conns (gMgr g) uid = Some u" "ChannelId u = channelId (chans (gSrv g) k)"
    and "gw_step p g (Leaves k) g1" "gw_steps p g1 fs g2" "Ticks \<notin> set fs" "\<forall>j. Msg j GW_LOGOUT uid \<notin> set fs"
    and "draws_ok (gwDraws env)" "gwCmd (gwHeader req) = GW_LOGIN" "gwUid (gwHeader req) = uid"
  shows "user_conns (gMgr g2) uid = Some u \<and>
    gw_OnMessage env p ch req (gMgr g2) =
      Ret (gMgr g2, [Pushes ch (Some (gw_CreateRespPacket uid GW_LOGIN (GWLoginResp eUidAlreadyExists)))], None) \<and>
    PushChannel (gSrv g2) (ChannelId u) x = Ret (gSrv g2, Some kNoChannel) \<and>
    run_task (Do (Pushes (ChannelId u) x)) g2 = Ret (g2, [])"
proof -
  have ok: "gateway_ok n g" using gw_steps_ok [OF assms(1) gateway_start_ok] by blast
  note f = leave_drops_channel [OF assms(4) ok] and s1 = gw_step_ok [OF assms(4) ok]
  note s2 = gw_steps_ok [OF assms(5) conjunct1 [OF s1]]
  have u: "user_conns (gMgr g2) uid = Some u" using s2 f assms(2,6,7) by auto
  have "chmap (gSrv g2) (ChannelId u) = None" using s2 f assms(3) by (auto simp: srv_grows_def)
  then have p: "channels_Get (gSrv g2) (ChannelId u) = None" by (simp add: channels_Get_def)
  obtain \<sigma> where "mgr_ok (gMgr g2) \<sigma>" using gateway_okD(1) [OF conjunct1 [OF s2]] by blast
  from login_refused [OF this assms(8,9), of p ch] show ?thesis using u p assms(10) by (simp add: PushChannel_def)
qed

theorem dropped_user_stays_witness:
  "\<exists>(g :: unit gateway) g1 u. gw_step demo_handle g (Leaves 0) g1 \<and> user_conns (gMgr g1) ''u1'' = Some u \<and>
     PushChannel (gSrv g1) (ChannelId u) None = Ret (gSrv g1, Some kNoChannel)"
proof -
  obtain g g1 :: "unit gateway" and u where g: "gw_steps demo_handle (gateway_start 1 20) demo_events g"
    "gw_step demo_handle g (Leaves 0) g1" "user_conns (gMgr g) ''u1'' = Some u" "ChannelId u = channelId (chans (gSrv g) 0)"
    using demo_login_run [of demo_handle] by auto
  have "gwCmd (gwHeader (demo_packet GW_LOGIN (JsonValue ()))) = GW_LOGIN" "gwUid (gwHeader (demo_packet GW_LOGIN (JsonValue ()))) = ''u1''"
    by (simp_all add: demo_packet_def)
  from dropped_user_stays [OF g(1,3,4,2) gw_stay _ _ gw_demo_draws this, where x = None and ch = "''c2''"]
  have "user_conns (gMgr g1) ''u1'' = Some u" "PushChannel (gSrv g1) (ChannelId u) None = Ret (gSrv g1, Some kNoChannel)" by simp_all
  with g(2) show ?thesis by blast
qed

end
