(* ===== verification/Deadline.thy ===== *)
theory Deadline
  imports Wire
begin

text \<open>
  Receiving with a time limit: \<^verbatim>\<open>SetTimeout\<close>, \<^verbatim>\<open>NetRecv\<close> and \<^verbatim>\<open>NetRecvTimeout\<close> of
  \<^verbatim>\<open>src/util/net_util.go\<close> and \<^verbatim>\<open>CommonRecvPacket\<close> of \<^verbatim>\<open>src/mservice/define/packet.go\<close> with their
  \<open>timeout_ms\<close>. A connection is now what will arrive on it and when, in nanoseconds; the read deadline
  is a part of it, as it is of a \<^verbatim>\<open>net.Conn\<close>, and stays until it is set again. Computing takes no time:
  the clock moves when a read waits. \<open>Wire\<close> has the same code without the clock; the refinement says
  that a deadline is the end of the connection that \<open>Wire\<close> sees.
\<close>

record tconn =
  arrivals :: "(int \<times> byte list) list"
  tend :: "(int \<times> string) option"
  rdeadline :: "int option"
  tnow :: int

definition kTimeout :: string where "kTimeout = ''i/o timeout''"

definition past :: "int option \<Rightarrow> int \<Rightarrow> bool" where
  "past d t \<longleftrightarrow> (case d of None \<Rightarrow> False | Some d \<Rightarrow> d \<le> t)"

section \<open>A read\<close>

text \<open>
  \<^verbatim>\<open>conn.Read\<close> with a buffer of \<open>n\<close> bytes. When the deadline has passed it fails, even with bytes at hand;
  otherwise it waits for what comes first, the next segment, the end or the deadline. With none of
  them it waits for ever.
\<close>

definition timed_Read :: "tconn \<Rightarrow> nat \<Rightarrow> ((string + byte list) \<times> tconn) outcome" where
  "timed_Read c n =
     (let expire = Ret (Inl kTimeout, c\<lparr>tnow := max (tnow c) (the (rdeadline c))\<rparr>)
      in if n = 0 then Ret (Inr [], c)
         else if past (rdeadline c) (tnow c) then expire
         else case arrivals c of
           (t, s) # r \<Rightarrow>
             if past (rdeadline c) t then expire
             else if length s \<le> n then Ret (Inr s, c\<lparr>arrivals := r, tnow := max (tnow c) t\<rparr>)
             else Ret (Inr (take n s), c\<lparr>arrivals := (t, drop n s) # r, tnow := max (tnow c) t\<rparr>)
         | [] \<Rightarrow>
             case tend c of
               Some (t, e) \<Rightarrow> if past (rdeadline c) t then expire else Ret (Inl e, c\<lparr>tnow := max (tnow c) t\<rparr>)
             | None \<Rightarrow> if rdeadline c = None then Blocked else expire)"

lemma timed_Read_measure:
  "timed_Read c n = Ret (Inr b, c') \<Longrightarrow> 0 < n \<Longrightarrow>
    length b \<le> n \<and> (length (arrivals c') < length (arrivals c) \<or> (length b = n \<and> length (arrivals c') = length (arrivals c)))"
  by (auto simp: timed_Read_def Let_def split: list.splits option.splits if_splits)

text \<open>\<^verbatim>\<open>binary.Read\<close> reads its 4 bytes with \<^verbatim>\<open>io.ReadFull\<close>.\<close>

function timed_ReadFull :: "tconn \<Rightarrow> nat \<Rightarrow> byte list \<Rightarrow> ((string + byte list) \<times> tconn) outcome" where
  "timed_ReadFull c n acc =
     (if n \<le> length acc then Ret (Inr acc, c)
      else case timed_Read c (n - length acc) of
             Ret (Inl e, c') \<Rightarrow> Ret (Inl (if acc \<noteq> [] \<and> e = ''EOF'' then ''unexpected EOF'' else e), c')
           | Ret (Inr b, c') \<Rightarrow> timed_ReadFull c' n (acc @ b)
           | Blocked \<Rightarrow> Blocked
           | Crash \<Rightarrow> Crash)"
  by pat_completeness auto
termination
proof (relation "measures [\<lambda>(c, n, acc). n - length acc, \<lambda>(c, n, acc). length (arrivals c)]", goal_cases)
  case 1
  show ?case by simp
next
  case (2 c n acc x y c' b)
  then have r: "timed_Read c (n - length acc) = Ret (Inr b, c')" by (metis prod.collapse prod.inject)
  show ?case
  proof (cases "b = []")
    case True
    then show ?thesis using timed_Read_measure [OF r] 2(1) by auto
  next
    case False
    then show ?thesis using 2(1) by (cases b) auto
  qed
qed

declare timed_ReadFull.simps [simp del]

section \<open>The code\<close>

definition SetTimeout :: "tconn \<Rightarrow> int option \<Rightarrow> tconn" where
  "SetTimeout c timeout = (case timeout of None \<Rightarrow> c | Some d \<Rightarrow> c\<lparr>rdeadline := Some d\<rparr>)"

lemma SetTimeout_arrivals [simp]: "arrivals (SetTimeout c timeout) = arrivals c"
  by (simp add: SetTimeout_def split: option.split)

function timed_recv_loop ::
  "tconn \<Rightarrow> nat \<Rightarrow> nat \<Rightarrow> int option \<Rightarrow> byte list \<Rightarrow> (string option \<times> byte list \<times> tconn) outcome" where
  "timed_recv_loop c len sz timeout acc =
     (case timed_Read (SetTimeout c timeout) (len - length acc) of
        Ret (Inl e, c') \<Rightarrow> Ret (Some e, acc, c')
      | Ret (Inr b, c') \<Rightarrow>
          if b = [] then Ret (None, acc, c')
          else if length (acc @ b) \<ge> sz then Ret (None, acc @ b, c')
          else timed_recv_loop c' len sz timeout (acc @ b)
      | Blocked \<Rightarrow> Blocked
      | Crash \<Rightarrow> Crash)"
  by pat_completeness auto
termination
proof (relation "measure (\<lambda>(c, len, sz, timeout, acc). sz - length acc)", goal_cases)
  case 1
  show ?case by simp
next
  case (2 c len sz timeout acc x y c' b)
  then show ?case by (cases b) auto
qed

declare timed_recv_loop.simps [simp del]

definition timed_NetRecvTimeout ::
  "tconn \<Rightarrow> nat \<Rightarrow> int \<Rightarrow> int option \<Rightarrow> (int \<times> string option \<times> byte list \<times> tconn) outcome" where
  "timed_NetRecvTimeout c len sz timeout =
     (if int len < sz then Ret (-1, Some ''NetRecv buf not enough'', [], c)
      else obind (timed_recv_loop c len (nat sz) timeout []) (\<lambda>(e, bs, c'). Ret (int (length bs), e, bs, c')))"

text \<open>\<^verbatim>\<open>time.Now().Add(timeout_ms * time.Millisecond)\<close> for a positive \<open>timeout_ms\<close>: the product is an \<^verbatim>\<open>int64\<close>.\<close>

definition timeout_at :: "tconn \<Rightarrow> int \<Rightarrow> int option" where
  "timeout_at c timeout_ms = (if 0 < timeout_ms then Some (tnow c + i64 (timeout_ms * 1000000)) else None)"

definition NetRecv :: "tconn \<Rightarrow> nat \<Rightarrow> int \<Rightarrow> int \<Rightarrow> (int \<times> string option \<times> byte list \<times> tconn) outcome" where
  "NetRecv c len sz timeout_ms = timed_NetRecvTimeout c len sz (timeout_at c timeout_ms)"

definition timed_CommonRecvPacket :: "tconn \<Rightarrow> int \<Rightarrow> ((string + byte list) \<times> tconn) outcome" where
  "timed_CommonRecvPacket c timeout_ms =
     (let timeout = timeout_at c timeout_ms
      in obind (timed_ReadFull (SetTimeout c timeout) 4 []) (\<lambda>(r, c1).
           case r of
             Inl e \<Rightarrow> Ret (Inl e, c1)
           | Inr head \<Rightarrow>
             let body_size = from_be32 head
             in if body_size < 0 then Crash
                else obind (timed_NetRecvTimeout c1 (nat body_size) body_size timeout) (\<lambda>(n, err, bs, c2).
                  case err of
                    Some e \<Rightarrow> Ret (Inl e, c2)
                  | None \<Rightarrow>
                    if n = 0 then Ret (Inl ''socket peer close'', c2)
                    else Ret (Inr (bs @ replicate (nat body_size - length bs) 0), c2))))"

section \<open>A deadline is an end\<close>

definition in_time :: "tconn \<Rightarrow> bool" where
  "in_time c \<longleftrightarrow> \<not> past (rdeadline c) (tnow c)"

text \<open>Every read returns: there is a deadline, or an end that will come.\<close>

definition ends :: "tconn \<Rightarrow> bool" where
  "ends c \<longleftrightarrow> rdeadline c \<noteq> None \<or> tend c \<noteq> None"

text \<open>What a reader sees of the connection: the segments before the deadline, then the error.\<close>

definition early :: "tconn \<Rightarrow> int \<times> byte list \<Rightarrow> bool" where
  "early c x \<longleftrightarrow> \<not> past (rdeadline c) (fst x)"

definition view_end :: "tconn \<Rightarrow> string" where
  "view_end c = (case tend c of None \<Rightarrow> kTimeout
     | Some (t, e) \<Rightarrow> if past (rdeadline c) t \<or> \<not> list_all (early c) (arrivals c) then kTimeout else e)"

definition view :: "tconn \<Rightarrow> conn" where
  "view c = \<lparr>inseg = map snd (takeWhile (early c) (arrivals c)), inerr = view_end c, out = [], wplan = []\<rparr>"

text \<open>What a receiving call leaves of the connection.\<close>

definition timely :: "tconn \<Rightarrow> tconn \<Rightarrow> bool" where
  "timely c c' \<longleftrightarrow> rdeadline c' = rdeadline c \<and> tend c' = tend c \<and> (\<forall>d. rdeadline c = Some d \<longrightarrow> tnow c' \<le> d)"

lemma timely_trans: "timely c c' \<Longrightarrow> timely c' c'' \<Longrightarrow> timely c c''"
  by (auto simp: timely_def)

lemma timely_ends: "timely c c' \<Longrightarrow> ends c' = ends c"
  by (simp add: timely_def ends_def)

lemma timely_refl: "in_time c \<Longrightarrow> timely c c"
  by (auto simp: timely_def in_time_def past_def)

lemma early_cong [simp]: "early (c\<lparr>arrivals := a\<rparr>) = early c" "early (c\<lparr>tnow := t\<rparr>) = early c"
  by (simp_all add: early_def fun_eq_iff)

lemma view_tnow [simp]: "view (c\<lparr>tnow := t\<rparr>) = view c"
  by (simp add: view_def view_end_def split: option.split)

lemma timed_Read_view:
  assumes "in_time c" "ends c"
  shows "\<exists>c'. timed_Read c n = Ret (fst (conn_Read (view c) n), c') \<and> view c' = snd (conn_Read (view c) n) \<and>
    timely c c' \<and> (\<not> isl (fst (conn_Read (view c) n)) \<longrightarrow> in_time c')"
proof (cases "n = 0")
  case True
  then show ?thesis using assms(1) timely_refl [OF assms(1)] by (simp add: timed_Read_def conn_Read_def)
next
  case False
  let ?expired = "c\<lparr>tnow := max (tnow c) (the (rdeadline c))\<rparr>"
  have expire: "timely c ?expired" "view ?expired = view c" if "rdeadline c \<noteq> None"
    using assms(1) that by (auto simp: timely_def in_time_def past_def)
  show ?thesis
  proof (cases "arrivals c")
    case Nil
    then have v: "conn_Read (view c) n = (Inl (view_end c), view c)" using False by (simp add: conn_Read_def view_def)
    show ?thesis
    proof (cases "\<exists>t e. tend c = Some (t, e) \<and> \<not> past (rdeadline c) t")
      case True
      then obtain t e where t: "tend c = Some (t, e)" "\<not> past (rdeadline c) t" by blast
      have "timely c (c\<lparr>tnow := max (tnow c) t\<rparr>)" "view (c\<lparr>tnow := max (tnow c) t\<rparr>) = view c"
        using t assms(1) by (auto simp: timely_def in_time_def past_def split: option.splits)
      then show ?thesis using False Nil t assms(1) v by (simp add: timed_Read_def in_time_def view_end_def)
    next
      case no_end: False
      then have d: "rdeadline c \<noteq> None" using assms(2) by (cases "tend c"; cases "rdeadline c") (auto simp: ends_def past_def)
      have "timed_Read c n = Ret (Inl kTimeout, ?expired)"
        using False Nil no_end d assms(1) by (auto simp: timed_Read_def Let_def in_time_def split: option.split)
      moreover have "view_end c = kTimeout" using no_end by (auto simp: view_end_def split: option.split)
      ultimately show ?thesis using v expire [OF d] by simp
    qed
  next
    case (Cons x r)
    obtain t s where x: "x = (t, s)" by (cases x)
    show ?thesis
    proof (cases "past (rdeadline c) t")
      case True
      then have d: "rdeadline c \<noteq> None" by (cases "rdeadline c") (auto simp: past_def)
      have "timed_Read c n = Ret (Inl kTimeout, ?expired)" using False Cons x True assms(1) by (simp add: timed_Read_def in_time_def)
      moreover have "conn_Read (view c) n = (Inl kTimeout, view c)"
        using False Cons x True by (auto simp: conn_Read_def view_def view_end_def early_def split: option.split)
      ultimately show ?thesis using expire [OF d] by simp
    next
      case early: False
      have i: "timely c (c\<lparr>arrivals := a, tnow := max (tnow c) t\<rparr>)" "in_time (c\<lparr>arrivals := a, tnow := max (tnow c) t\<rparr>)" for a
        using early assms(1) by (auto simp: timely_def in_time_def past_def split: option.splits)
      show ?thesis using False Cons x early assms(1) i
        by (cases "length s \<le> n") (auto simp: timed_Read_def in_time_def conn_Read_def view_def view_end_def early_def split: option.split)
    qed
  qed
qed

lemma timed_Read_cases:
  assumes "in_time c" "ends c"
  obtains e c' where "timed_Read c n = Ret (Inl e, c')" "conn_Read (view c) n = (Inl e, view c')" "timely c c'"
  | b c' where "timed_Read c n = Ret (Inr b, c')" "conn_Read (view c) n = (Inr b, view c')" "timely c c'" "in_time c'" "ends c'"
proof -
  obtain c' where "timed_Read c n = Ret (fst (conn_Read (view c) n), c')" "view c' = snd (conn_Read (view c) n)"
    "timely c c'" "\<not> isl (fst (conn_Read (view c) n)) \<longrightarrow> in_time c'" using timed_Read_view [OF assms] by blast
  then show ?thesis using that assms(2) by (cases "conn_Read (view c) n"; cases "fst (conn_Read (view c) n)") (auto simp: timely_ends)
qed

lemma timed_ReadFull_view:
  assumes "in_time c" "ends c"
  shows "\<exists>c'. timed_ReadFull c n acc = Ret (fst (io_ReadFull (view c) n acc), c') \<and> view c' = snd (io_ReadFull (view c) n acc) \<and>
    timely c c' \<and> (\<not> isl (fst (io_ReadFull (view c) n acc)) \<longrightarrow> in_time c')"
  using assms
proof (induction c n acc rule: timed_ReadFull.induct)
  case (1 c n acc)
  show ?case
  proof (cases "n \<le> length acc")
    case True
    then show ?thesis using 1(2) timely_refl [OF 1(2)] by (simp add: timed_ReadFull.simps io_ReadFull.simps)
  next
    case False
    from 1(2,3) show ?thesis
    proof (cases rule: timed_Read_cases [where n = "n - length acc"])
      case (1 e c')
      then show ?thesis using False by (simp add: timed_ReadFull.simps [of c] io_ReadFull.simps [of "view c"])
    next
      case (2 b c')
      from "1.IH" [OF False 2(1) refl refl 2(4,5)] 2 False show ?thesis
        using timely_trans by (simp add: timed_ReadFull.simps [of c] io_ReadFull.simps [of "view c"]) blast
    qed
  qed
qed

lemma timed_recv_loop_view:
  assumes "in_time c" "ends c" "timeout = None \<or> timeout = rdeadline c"
  shows "\<exists>e bs c'. timed_recv_loop c len sz timeout acc = Ret (e, bs, c') \<and> recv_loop (view c) len sz acc = (e, bs, view c') \<and> timely c c'"
  using assms
proof (induction c len sz timeout acc rule: timed_recv_loop.induct)
  case (1 c len sz timeout acc)
  have t: "SetTimeout c timeout = c" using 1(4) by (auto simp: SetTimeout_def split: option.split)
  from 1(2,3) show ?case
  proof (cases rule: timed_Read_cases [where n = "len - length acc"])
    case (1 e c')
    then show ?thesis by (simp add: timed_recv_loop.simps [of c] recv_loop.simps [of "view c"] t)
  next
    case (2 b c')
    show ?thesis
    proof (cases "b = [] \<or> sz \<le> length (acc @ b)")
      case True
      then show ?thesis using 2 by (auto simp: timed_recv_loop.simps [of c] recv_loop.simps [of "view c"] t)
    next
      case False
      have "timeout = None \<or> timeout = rdeadline c'" using 1(4) 2(3) by (auto simp: timely_def)
      then have "\<exists>e bs c''. timed_recv_loop c' len sz timeout (acc @ b) = Ret (e, bs, c'') \<and>
          recv_loop (view c') len sz (acc @ b) = (e, bs, view c'') \<and> timely c' c''"
        by (intro "1.IH" [OF _ refl refl _ _ 2(4,5)]) (use 2(1) t False in simp_all)
      then obtain e bs c'' where r: "timed_recv_loop c' len sz timeout (acc @ b) = Ret (e, bs, c'')"
        "recv_loop (view c') len sz (acc @ b) = (e, bs, view c'')" and y: "timely c' c''" by blast
      have "timed_recv_loop c len sz timeout acc = Ret (e, bs, c'')" "recv_loop (view c) len sz acc = (e, bs, view c'')"
        using 2(1,2) False r by (simp_all add: timed_recv_loop.simps [of c] recv_loop.simps [of "view c"] t)
      then show ?thesis using timely_trans [OF 2(3) y] by blast
    qed
  qed
qed

text \<open>Receiving a packet is what it is without a clock, on what arrives before the deadline.\<close>

lemma timed_CommonRecvPacket_view:
  assumes "c0 = SetTimeout c (timeout_at c timeout_ms)" "in_time c0" "ends c0"
  shows "case CommonRecvPacket (view c0) of
      None \<Rightarrow> timed_CommonRecvPacket c timeout_ms = Crash
    | Some (r, v) \<Rightarrow> \<exists>c'. timed_CommonRecvPacket c timeout_ms = Ret (r, c') \<and> view c' = v \<and> timely c0 c'"
proof -
  let ?timeout = "timeout_at c timeout_ms"
  obtain c1 where 1: "timed_ReadFull c0 4 [] = Ret (fst (io_ReadFull (view c0) 4 []), c1)"
    "view c1 = snd (io_ReadFull (view c0) 4 [])" "timely c0 c1" "\<not> isl (fst (io_ReadFull (view c0) 4 [])) \<longrightarrow> in_time c1"
    using timed_ReadFull_view [OF assms(2,3)] by blast
  show ?thesis
  proof (cases "fst (io_ReadFull (view c0) 4 [])")
    case (Inl e)
    then have "io_ReadFull (view c0) 4 [] = (Inl e, view c1)" using 1(2) by (metis prod.collapse)
    then show ?thesis using 1(1,3) Inl by (simp add: CommonRecvPacket_def timed_CommonRecvPacket_def Let_def flip: assms(1))
  next
    case (Inr head)
    then have v: "io_ReadFull (view c0) 4 [] = (Inr head, view c1)" using 1(2) by (metis prod.collapse)
    let ?k = "from_be32 head"
    have "?timeout = None \<or> ?timeout = rdeadline c1"
      using 1(3) assms(1) by (auto simp: timely_def SetTimeout_def split: option.splits)
    then obtain e bs c2 where 2: "timed_recv_loop c1 (nat ?k) (nat ?k) ?timeout [] = Ret (e, bs, c2)"
      "recv_loop (view c1) (nat ?k) (nat ?k) [] = (e, bs, view c2)" "timely c1 c2"
      using timed_recv_loop_view [of c1 ?timeout] 1(3,4) Inr assms(3) timely_ends [OF 1(3)] by fastforce
    show ?thesis using 1(1) Inr v 2 timely_trans [OF 1(3) 2(3)]
      by (auto simp: CommonRecvPacket_def timed_CommonRecvPacket_def Let_def NetRecvTimeout_def timed_NetRecvTimeout_def
          simp flip: assms(1) split: option.splits)
  qed
qed

text \<open>So is \<^verbatim>\<open>NetRecv\<close>, which sets the deadline before each read only.\<close>

lemma timed_recv_loop_SetTimeout:
  "timed_recv_loop (SetTimeout c timeout) len sz timeout acc = timed_recv_loop c len sz timeout acc"
proof -
  have "SetTimeout (SetTimeout c timeout) timeout = SetTimeout c timeout" by (simp add: SetTimeout_def split: option.split)
  then show ?thesis by (simp add: timed_recv_loop.simps [of c] timed_recv_loop.simps [of "SetTimeout c timeout"])
qed

lemma NetRecv_view:
  assumes "c0 = SetTimeout c (timeout_at c timeout_ms)" "in_time c0" "ends c0" "sz \<le> int len"
  shows "\<exists>n e bs c'. NetRecv c len sz timeout_ms = Ret (n, e, bs, c') \<and> NetRecvTimeout (view c0) len sz = (n, e, bs, view c') \<and> timely c0 c'"
proof -
  let ?timeout = "timeout_at c timeout_ms"
  have "?timeout = None \<or> ?timeout = rdeadline c0" using assms(1) by (auto simp: SetTimeout_def split: option.splits)
  from timed_recv_loop_view [OF assms(2,3) this, of len "nat sz" "[]"] show ?thesis
    using assms(4) timed_recv_loop_SetTimeout [of c ?timeout]
    by (auto simp: NetRecv_def timed_NetRecvTimeout_def NetRecvTimeout_def assms(1))
qed

section \<open>A frame that is cut short\<close>

lemma conn_Read_end: "no_empty c \<Longrightarrow> pending c = [] \<Longrightarrow> 0 < n \<Longrightarrow> conn_Read c n = (Inl (inerr c), c)"
  by (cases "inseg c") (auto simp: conn_Read_def pending_def no_empty_def)

lemma io_ReadFull_short:
  assumes "no_empty c" "length acc + length (pending c) < n" "inerr c \<noteq> ''EOF''"
  shows "\<exists>c'. io_ReadFull c n acc = (Inl (inerr c), c')"
  using assms
proof (induction "length (pending c)" arbitrary: c acc rule: less_induct)
  case less
  then have n: "0 < n - length acc" by simp
  show ?case
  proof (cases "pending c = []")
    case True
    then show ?thesis using conn_Read_end [OF less.prems(1) True n] n less.prems(3) by (simp add: io_ReadFull.simps [of c])
  next
    case False
    from conn_Read_ok [OF less.prems(1) n False] obtain b c1 where
      b: "conn_Read c (n - length acc) = (Inr b, c1)" "b \<noteq> []" "pending c = b @ pending c1" "no_empty c1" "inerr c1 = inerr c"
      by blast
    have "\<exists>c'. io_ReadFull c1 n (acc @ b) = (Inl (inerr c1), c')"
      by (rule less.hyps) (use b less.prems in auto)
    then show ?thesis using b(1,5) n by (simp add: io_ReadFull.simps [of c])
  qed
qed

lemma recv_loop_short:
  assumes "no_empty c" "length acc + length (pending c) < sz"
  shows "\<exists>bs c'. recv_loop c sz sz acc = (Some (inerr c), bs, c')"
  using assms
proof (induction "length (pending c)" arbitrary: c acc rule: less_induct)
  case less
  then have n: "0 < sz - length acc" by simp
  show ?case
  proof (cases "pending c = []")
    case True
    then show ?thesis using conn_Read_end [OF less.prems(1) True n] by (simp add: recv_loop.simps [of c])
  next
    case False
    from conn_Read_ok [OF less.prems(1) n False] obtain b c1 where
      b: "conn_Read c (sz - length acc) = (Inr b, c1)" "b \<noteq> []" "pending c = b @ pending c1" "no_empty c1" "inerr c1 = inerr c"
      by blast
    have "\<exists>bs c'. recv_loop c1 sz sz (acc @ b) = (Some (inerr c1), bs, c')"
      by (rule less.hyps) (use b less.prems in auto)
    then show ?thesis using b less.prems(2) by (simp add: recv_loop.simps [of c])
  qed
qed

lemma CommonRecvPacket_short:
  assumes "no_empty c" "pending c @ late = frame body @ rest" "frameable body" "length (pending c) < length (frame body)"
    and "inerr c \<noteq> ''EOF''"
  shows "\<exists>c'. CommonRecvPacket c = Some (Inl (inerr c), c')"
proof (cases "length (pending c) < 4")
  case True
  then show ?thesis using io_ReadFull_short [OF assms(1), of "[]" 4] assms(5) by (auto simp: CommonRecvPacket_def)
next
  case False
  let ?n = "length body"
  have t: "take 4 (pending c) = be32 (int ?n)"
    using arg_cong [OF assms(2), of "take 4"] False by (simp add: frame_def)
  obtain c1 where h: "io_ReadFull c 4 [] = (Inr (be32 (int ?n)), c1)" "pending c1 = drop 4 (pending c)" "no_empty c1"
    "inerr c1 = inerr c"
    using io_ReadFull_ok [OF assms(1), of "[]" 4] False t by auto
  have "length (pending c1) < ?n" using assms(4) False h(2) by (simp add: frame_def)
  then obtain bs c2 where "recv_loop c1 ?n ?n [] = (Some (inerr c), bs, c2)"
    using recv_loop_short [OF h(3), of "[]" ?n] h(4) by auto
  moreover have "from_be32 (be32 (int ?n)) = int ?n" using assms(3) by (simp add: from_be32_be32 frameable_def)
  ultimately show ?thesis using h(1) by (simp add: CommonRecvPacket_def NetRecvTimeout_def)
qed

section \<open>Properties\<close>

text \<open>No read changes the deadline.\<close>

lemma timed_Read_deadline: "timed_Read c n = Ret (r, c') \<Longrightarrow> rdeadline c' = rdeadline c"
  by (auto simp: timed_Read_def Let_def split: if_splits list.splits option.splits)

lemma timed_ReadFull_deadline: "timed_ReadFull c n acc = Ret (r, c') \<Longrightarrow> rdeadline c' = rdeadline c"
proof (induction c n acc rule: timed_ReadFull.induct)
  case (1 c n acc)
  show ?case
  proof (cases "n \<le> length acc")
    case True
    then show ?thesis using 1(2) by (simp add: timed_ReadFull.simps)
  next
    case False
    then obtain x c1 where x: "timed_Read c (n - length acc) = Ret (x, c1)"
      using 1(2) by (auto simp: timed_ReadFull.simps [of c] split: outcome.splits)
    show ?thesis
    proof (cases x)
      case (Inl e)
      then show ?thesis using 1(2) False x timed_Read_deadline [OF x] by (simp add: timed_ReadFull.simps [of c])
    next
      case (Inr b)
      have "timed_ReadFull c1 n (acc @ b) = Ret (r, c')" using 1(2) False x Inr by (simp add: timed_ReadFull.simps [of c])
      from "1.IH" [OF False x refl Inr this] show ?thesis using timed_Read_deadline [OF x] by simp
    qed
  qed
qed

lemma timed_recv_loop_deadline:
  "timed_recv_loop c len sz timeout acc = Ret (e, bs, c') \<Longrightarrow> timeout = None \<or> timeout = rdeadline c \<Longrightarrow> rdeadline c' = rdeadline c"
proof (induction c len sz timeout acc rule: timed_recv_loop.induct)
  case (1 c len sz timeout acc)
  have t: "SetTimeout c timeout = c" using 1(3) by (auto simp: SetTimeout_def split: option.split)
  obtain x c1 where x: "timed_Read c (len - length acc) = Ret (x, c1)"
    using 1(2) t by (auto simp: timed_recv_loop.simps [of c] split: outcome.splits)
  note d = timed_Read_deadline [OF x]
  show ?case
  proof (cases "\<exists>b. x = Inr b \<and> b \<noteq> [] \<and> length (acc @ b) < sz")
    case True
    then obtain b where b: "x = Inr b" "b \<noteq> []" "\<not> length (acc @ b) \<ge> sz" by auto
    have "timed_recv_loop c1 len sz timeout (acc @ b) = Ret (e, bs, c')"
      using 1(2) x b t by (simp add: timed_recv_loop.simps [of c])
    then show ?thesis using "1.IH" [of "(x, c1)" x c1 b] x b t d 1(3) by simp
  next
    case False
    then show ?thesis using 1(2) x t d by (cases x) (auto simp: timed_recv_loop.simps [of c] split: if_splits)
  qed
qed

lemma timed_CommonRecvPacket_deadline:
  assumes "timed_CommonRecvPacket c timeout_ms = Ret (r, c')"
  shows "rdeadline c' = rdeadline (SetTimeout c (timeout_at c timeout_ms))"
proof -
  let ?t = "timeout_at c timeout_ms" and ?c0 = "SetTimeout c (timeout_at c timeout_ms)"
  obtain x c1 where 1: "timed_ReadFull ?c0 4 [] = Ret (x, c1)"
    using assms by (auto simp: timed_CommonRecvPacket_def Let_def obind_Ret)
  note d = timed_ReadFull_deadline [OF 1]
  have t: "?t = None \<or> ?t = rdeadline c1" using d by (auto simp: SetTimeout_def split: option.splits)
  show ?thesis using assms 1 d timed_recv_loop_deadline [OF _ t]
    by (auto simp: timed_CommonRecvPacket_def Let_def obind_Ret timed_NetRecvTimeout_def split: sum.splits if_splits option.splits)
qed

text \<open>
  A time limit is never taken back. After a call with a limit, whatever came of it, a call without one
  fails at once when the clock has reached the deadline of the first, even with a whole packet at hand.
\<close>

theorem deadline_outlives_call:
  assumes "0 < timeout_ms" "timed_CommonRecvPacket c timeout_ms = Ret (r, c')"
    and "tnow c + i64 (timeout_ms * 1000000) \<le> t" "timeout_ms' \<le> 0"
  shows "timed_CommonRecvPacket (c'\<lparr>tnow := t\<rparr>) timeout_ms' = Ret (Inl kTimeout, c'\<lparr>tnow := t\<rparr>)"
proof -
  have "rdeadline c' = Some (tnow c + i64 (timeout_ms * 1000000))"
    using timed_CommonRecvPacket_deadline [OF assms(2)] assms(1) by (simp add: timeout_at_def SetTimeout_def)
  then show ?thesis using assms(3,4)
    by (simp add: timed_CommonRecvPacket_def timeout_at_def SetTimeout_def timed_ReadFull.simps timed_Read_def past_def kTimeout_def)
qed

text \<open>
  C17: receiving a packet with a time limit ends in time. When the bytes that arrive, sooner or
  later, begin with the frame of a packet, the call returns at the deadline at the latest: the
  packet when its last byte arrives before the deadline, leaving the bytes after it, and otherwise
  the error of the deadline.
\<close>

theorem receive_in_time:
  assumes "0 < timeout_ms" "timeout_ms * 1000000 < 2 ^ 63" "d = tnow c + timeout_ms * 1000000"
    and "\<forall>x\<in>set (arrivals c). snd x \<noteq> []" "frameable body" "concat (map snd (arrivals c)) = frame body @ rest"
    and in_t: "have_come = concat (map snd (takeWhile (\<lambda>x. fst x < d) (arrivals c)))"
  shows "\<exists>r c'. timed_CommonRecvPacket c timeout_ms = Ret (r, c') \<and> tnow c' \<le> d \<and>
    (if length (frame body) \<le> length have_come
     then r = Inr body \<and> have_come = frame body @ concat (map snd (takeWhile (\<lambda>x. fst x < d) (arrivals c')))
     else r = Inl kTimeout)"
proof -
  define c0 where "c0 = SetTimeout c (timeout_at c timeout_ms)"
  have i: "i64 (timeout_ms * 1000000) = timeout_ms * 1000000" using assms(1,2) by (intro i64_id) (simp add: is_i64_def)
  have c0: "c0 = c\<lparr>rdeadline := Some d\<rparr>" using assms(1,3) i by (simp add: c0_def SetTimeout_def timeout_at_def)
  have "in_time c0" "ends c0" using assms(1,3) by (simp_all add: c0 in_time_def ends_def past_def)
  note v = timed_CommonRecvPacket_view [OF c0_def this]
  have e: "early x = (\<lambda>y. fst y < d)" if "rdeadline x = Some d" for x using that by (auto simp: early_def past_def fun_eq_iff)
  have p: "pending (view x) = concat (map snd (takeWhile (\<lambda>y. fst y < d) (arrivals x)))" if "rdeadline x = Some d" for x
    using e [OF that] by (simp add: pending_def view_def)
  have p0: "pending (view c0) = have_come" using p [of c0] in_t by (simp add: c0)
  have ne: "no_empty (view c0)" using assms(4) by (auto simp: no_empty_def view_def c0 dest: set_takeWhileD)
  obtain late where late: "have_come @ late = frame body @ rest"
    unfolding in_t using assms(6) by (metis concat_append map_append takeWhile_dropWhile_id)
  have ret: "\<exists>c'. timed_CommonRecvPacket c timeout_ms = Ret (r, c') \<and> tnow c' \<le> d \<and> rdeadline c' = Some d \<and> view c' = x"
    if "CommonRecvPacket (view c0) = Some (r, x)" for r x
    using v that by (auto simp: timely_def c0)
  show ?thesis
  proof (cases "length (frame body) \<le> length have_come")
    case True
    have "take (length (frame body)) have_come = frame body"
      using arg_cong [OF late, of "take (length (frame body))"] True by simp
    then have "have_come = frame body @ drop (length (frame body)) have_come" by (metis append_take_drop_id)
    then obtain more where more: "have_come = frame body @ more" ..
    obtain x where x: "CommonRecvPacket (view c0) = Some (Inr body, x)" "pending x = more"
      using CommonRecvPacket_frame [OF ne, of body more] p0 more assms(5) by (auto simp: frame_def frameable_def)
    from ret [OF x(1)] show ?thesis using True x(2) more p by fastforce
  next
    case False
    have "\<not> list_all (early c0) (arrivals c0)"
    proof
      assume "list_all (early c0) (arrivals c0)"
      then have "have_come = concat (map snd (arrivals c))"
        unfolding in_t using e [of c0] by (simp add: c0 list_all_iff takeWhile_eq_all_conv [THEN iffD2])
      then show False using False assms(6) by simp
    qed
    then have "view_end c0 = kTimeout" by (simp add: view_end_def split: option.split)
    then have "inerr (view c0) = kTimeout" by (simp add: view_def)
    then obtain x where "CommonRecvPacket (view c0) = Some (Inl kTimeout, x)"
      using CommonRecvPacket_short [OF ne, of late body rest] late p0 assms(5) False by (auto simp: kTimeout_def)
    from ret [OF this] show ?thesis using False by auto
  qed
qed

text \<open>A packet of two bytes, in two segments, with a limit of 20 ms and then of 7 ms.\<close>

definition demo_tconn :: tconn where
  "demo_tconn = \<lparr>arrivals = [(5000000, [0, 0, 0, 2, 123]), (9000000, [125, 0])], tend = None, rdeadline = None, tnow = 0\<rparr>"

theorem receive_in_time_witness:
  "(\<exists>c'. timed_CommonRecvPacket demo_tconn 20 = Ret (Inr [123, 125], c') \<and> tnow c' \<le> 20000000) \<and>
   (\<exists>c'. timed_CommonRecvPacket demo_tconn 7 = Ret (Inl kTimeout, c') \<and> tnow c' \<le> 7000000)"
proof -
  have f: "concat (map snd (arrivals demo_tconn)) = frame [123, 125] @ [0]" "frameable [123, 125]" "\<forall>x\<in>set (arrivals demo_tconn). snd x \<noteq> []"
    by (simp_all add: demo_tconn_def frame_def be32_def frameable_def)
  have "\<exists>c'. timed_CommonRecvPacket demo_tconn 20 = Ret (Inr [123, 125], c') \<and> tnow c' \<le> 20000000"
    using receive_in_time [OF _ _ refl f(3,2,1) refl, of 20] by (auto simp: demo_tconn_def frame_def)
  moreover have "\<exists>c'. timed_CommonRecvPacket demo_tconn 7 = Ret (Inl kTimeout, c') \<and> tnow c' \<le> 7000000"
    using receive_in_time [OF _ _ refl f(3,2,1) refl, of 7] by (auto simp: demo_tconn_def frame_def)
  ultimately show ?thesis by blast
qed

end
