(* ===== verification/Spec2Isabelle.thy ===== *)
theory Spec2Isabelle
  imports SortedSetSpec UserConnMgr OnlineHandle Wire MergeSearch Naming Gateway TimerMgr TcpServer
    Container ObjProxySpec PusherSpec ConfigUtil NetUtil EchoServer ServerLife Discovery Presence
    ServerConfig ProxyLife Launch GatewayRuns Deadline
begin

text \<open>
  \<^bold>\<open>The program.\<close> hbservice is a message-pushing system of several servers written in Go. A
  \<^emph>\<open>gateway\<close> holds the connections of the users (\<^verbatim>\<open>src/server/gateway\<close>). An \<^emph>\<open>online server\<close> remembers on
  which gateway a user is (\<^verbatim>\<open>src/server/online\<close>). A \<^emph>\<open>pusher\<close> takes push requests and passes them to the
  gateways of their users (\<^verbatim>\<open>src/server/pusher\<close>). All three run inside a \<^emph>\<open>container\<close>
  (\<^verbatim>\<open>src/mservice\<close>) that loads the configuration, registers the service in etcd (\<^verbatim>\<open>naming\<close>), finds the
  nodes of other services and calls them through a proxy (\<^verbatim>\<open>obj_client\<close>). Below that are the TCP
  server (\<^verbatim>\<open>src/net\<close>) and the utilities: a sorted set, a merger of concurrent searches, timers, a TCP
  client, an LRU cache (\<^verbatim>\<open>src/util\<close>).

  \<^bold>\<open>Foundations.\<close> \<open>Prelude\<close>: Go's signed integers written out on \<^typ>\<open>int\<close> (\<open>i64\<close>, \<open>is_i64\<close>), checked
  indexing, the fact collections. \<open>Sync\<close>: the outcome of a call (\<open>Ret\<close>, \<open>Blocked\<close>: it waits for ever,
  \<open>Crash\<close>: the process ends) and mutexes as flags of the state, so that a return that forgets to
  unlock leaves the flag set and every later \<^verbatim>\<open>Lock()\<close> is \<open>Blocked\<close>; the locale \<open>mutex\<close> is the contract of such a flag, interpreted for
  every component that has one. \<open>GoChan\<close>: channels with a buffer, a
  capacity and a closed flag. \<open>Float64\<close>: the scores, with the infinities and NaN. \<open>GoStrings\<close>:
  \<^verbatim>\<open>strings.Split\<close>, \<^verbatim>\<open>strconv\<close>, \<^verbatim>\<open>filepath.Split\<close>. \<open>CommonUtil\<close>: the FNV-1a hash on 32-bit words.

  \<^bold>\<open>Sorted set\<close> (\<^verbatim>\<open>src/util/zset.go\<close>). \<open>SkipList\<close> translates the skip list as the code has it: nodes in a
  heap of addresses, forward and backward pointers, spans, the search loops over levels, \<^verbatim>\<open>insert\<close>,
  \<^verbatim>\<open>remove\<close>, ranks and ranges; the random levels are drawn from an argument. \<open>SkipListInv\<close> holds the
  representation invariant (on each level the nodes of at least that height, each span the distance
  on level 0), \<open>SkipListOps\<close> shows that relinking keeps it, \<open>SkipListFun\<close> and \<open>SkipListQueries\<close> what
  each operation does on the list of elements. \<open>SortedSet\<close> adds the dictionary and the exported
  operations; \<open>SortedSetOps\<close>, \<open>SortedSetQueries\<close> and \<open>SortedSetSpec\<close> refine them to operations on one
  sorted list: every property is stated there, for every set that represents a list, and C1 shows
  that all reachable sets do. \<open>ScoreIndex\<close> states the contract its two clients rely on as the locales
  \<open>score_index\<close> and \<open>ranged_index\<close>, and interprets them on the model of the sorted set.

  \<^bold>\<open>Gateway.\<close> \<open>UserConnMgr\<close> is \<^verbatim>\<open>handle/user_conn_mgr.go\<close>, the table of connected users beside a sorted
  set (C11). \<open>Gateway\<close> is \<^verbatim>\<open>handle/gateway_handle.go\<close> and \<^verbatim>\<open>handle/service_handle.go\<close>: a handler
  returns the new manager, the list of its effects (packets pushed on a channel, casts to another
  service, channels closed) in order, and its error (C26 to C29). \<open>GatewayServer\<close> is the process: both
  handlers on the server of \<open>TcpServer\<close>, with a goroutine per connection, the goroutine of the timer and
  the send loops; each call of the manager and each access to a channel or to their table is a step of
  its own. \<open>GatewayRuns\<close> has an invariant over all interleavings (C25), and what becomes of a user whose
  connection ends (C13).

  \<^bold>\<open>Online server.\<close> \<open>UserNodeCache\<close> is the bounded cache, \<open>OnlineHandle\<close> the handler with its
  read-write lock (C14, C16, C18). \<open>Presence\<close> puts the gateway and the online server together: the casts
  of the logins go over a connection, and the server then holds the users of the gateway (C15).

  \<^bold>\<open>Pusher.\<close> \<open>Pusher\<close> and \<open>PusherSpec\<close>: the handler, its two queues, its cache of addresses, the
  callback of the watch on gateways, which never returns (C10). Queued requests are pointers into a store, so that the aliasing
  of \<open>small_push_names_last_user\<close> shows.

  \<^bold>\<open>Service framework.\<close> \<open>MServicePacket\<close> and \<open>Wire\<close>: packets, and their length-prefixed framing over a
  stream that the network cuts into reads of any sizes, with the two loops of a channel. What a packet
  handle promises is the locale \<open>packet_handle\<close>; it is interpreted for the services, for the gateway's
  clients and for the echo example (C19). \<open>Deadline\<close> has the receiving code again with its time limits, on
  a connection where every segment has a time of arrival; a refinement takes it back to \<open>Wire\<close>, and a
  packet that comes in time is received in time (C17). \<open>Naming\<close>: registration and discovery (C23). \<open>Container\<close>: the
  parameters of the servers and the registered service (C32). \<open>ServerConfig\<close>: the configurations of
  all programs and the one table of a process that holds them. \<open>ContainerInit\<close>: the start of a container
  and its calls. \<open>ServerLife\<close>: \<^verbatim>\<open>Run\<close>, \<^verbatim>\<open>Start\<close>, the accept loops and \<^verbatim>\<open>Shutdown\<close> as steps of goroutines (C24).
  \<open>Launch\<close>: the \<^verbatim>\<open>main\<close> functions of the three servers and of the echo example, from the flags and files of
  the machine to the first step of \<open>ServerLife\<close>; the address in etcd is one the process listens on (C39).
  \<open>ObjProxy\<close> and \<open>ObjProxySpec\<close>: the proxy, one round of its main loop, its events and the retry of lost
  connections (C33 to C35). \<open>ProxyLife\<close>: the life of a proxy as a step relation over its callers, its main loop and
  the watch of the naming, with a typing of its state that every step preserves (C37), and the number of
  requests it can take (C40). \<open>Discovery\<close>: a started container is found through etcd (C20), and a call
  reaches a node that was found (C36). \<open>TcpServer\<close>: channels and the server's table of them, with the
  life of a connection as a step relation (C31). \<open>TcpClient\<close>: the client connection with both of its
  loops, and the wrapper of the LRU cache.

  \<^bold>\<open>Utilities.\<close> \<open>MergeSearch\<close>: concurrent calls as an interleaving of the critical sections of \<^verbatim>\<open>Call\<close>,
  one phase per goroutine (C21, C22). \<open>TimerMgr\<close> (C30), \<open>EtcdUtil\<close>, \<open>ConfigUtil\<close> (C38), \<open>NetUtil\<close>.

  \<^bold>\<open>Example.\<close> \<open>EchoServer\<close> is \<^verbatim>\<open>example/echo_server\<close>, a server and its client on the framework (C12),
  with the count of its replies and the rate it prints (\<open>do_client_counts\<close>, \<open>rates_correct\<close>).

  \<^bold>\<open>Parameters of the model.\<close> Code that is not in the repository is an argument of the definitions:
  the etcd client (\<open>etcd_client\<close>; \<open>etcd_laws\<close> says that a put is seen by the next get and that the get of
  a prefix returns the keys below it), JSON encoding and decoding (\<open>marshal\<close>, \<open>unmarshal\<close>, \<open>dec\<close>), the LRU
  cache of groupcache (\<open>lru_ops\<close>; the law used is that a removal of a present key calls the eviction
  callback), dialling, listening, the network interfaces, UUIDs, and every reading of the clock.

  \<^bold>\<open>Bounds and fuel.\<close> Integers are bounded where the code could overflow, the bounds are hypotheses
  (\<open>is_i64\<close>, clocks below \<^verbatim>\<open>2^53\<close> where a score is converted to a float). The loops of the skip list
  take as fuel the number of nodes of the heap, which the proofs of totality show to be enough. The
  retry of the proxy takes one round more than there are inactive clients; \<open>retry_loop_ok\<close> shows that
  every round but the last moves a client. The loops of the wire run on the bytes that are left.

  \<^bold>\<open>What the lemmas show.\<close> Most properties say that the code does what it means to: C1 to C9, C11,
  C12, C14, C15, C17 to C23, C25 to C29, C31, C33, C35 to C39. The others give, as theorems, what the code does
  where this is not what it means to: locks left held (C10, C30, C34), a shutdown that waits for ever
  (C24), panics (C29, C40), tests the wrong way round (C16), users that outlive their connection (C13) and
  sockets left open (C32). Further theorems of that kind have no number: \<open>Eliminate_drops_fresh_user\<close>,
  \<open>lookups_are_fatal\<close>, \<open>Register_once\<close>, \<open>deadline_outlives_call\<close>,
  \<open>small_push_names_last_user\<close>, \<open>SetConfig_correct\<close>, \<open>do_recv_loop_hides_error\<close>,
  \<open>RefreshUserConn_never_succeeds\<close>, \<open>negative_size_panics\<close>, \<open>foreign_key_panics\<close>,
  \<open>closed_client_twice\<close>, \<open>cached_user_stops_pusher\<close>, \<open>etcd_mode_crashes\<close>.

  \<^bold>\<open>Not modelled.\<close> The clients of Redis and HTTP, which are libraries (\<open>GetRedisInstance\<close> and \<open>NewEtcd\<close> give the options the
  clients are made with). The parsing of flags (\<open>init_param\<close> starts from the flags that were given) and the
  monitoring server of the container. Dialling and printing in the echo client. The
  memory model of Go below the mutexes: where the code reads shared state without its lock (\<^verbatim>\<open>GetCount\<close>,
  \<^verbatim>\<open>EliminateTimeoutUserConns\<close>) the model takes the call as one step. The tests.
\<close>

end
